(* ===== verification/Prelude.thy ===== *)
theory Prelude
  imports Main "HOL-Library.Word"
begin

text \<open>
  What the components share: the byte and string types, Go error values, the result
  type of a fallible call, Go's maps to \<open>bool\<close>, and the collections of rewrite and
  inversion rules that the component theories fill.

  A Go \<open>string\<close> and a Go \<open>[]byte\<close> are both sequences of bytes.  HOL's \<^typ>\<open>char\<close> is
  an 8-bit value, so both are \<^typ>\<open>char list\<close> here and string literals denote their bytes.
\<close>

section \<open>Collections of rules\<close>

named_theorems result_elims \<open>what a successful or failing step of a result says\<close>
named_theorems go_text \<open>evaluation of the text functions of the standard library\<close>
named_theorems io_laws \<open>laws of readers and writers\<close>

section \<open>Bytes\<close>

type_synonym byte = char
type_synonym bytes = "byte list"

abbreviation code :: "byte \<Rightarrow> nat" where
  "code c \<equiv> of_char c"

abbreviation newline :: byte where
  "newline \<equiv> CHR 0x0A"

section \<open>Errors and results\<close>

text \<open>
  A Go error value.  \<open>Errorf s\<close> is \<open>fmt.Errorf\<close> of a text that is already computed,
  \<open>Wrapf c e\<close> is \<open>fmt.Errorf("c: %w", e)\<close>, \<open>Quotef a s b\<close> is \<open>fmt.Errorf("a%qb", s)\<close> and
  \<open>QuoteWrapf a s b e\<close> is \<open>fmt.Errorf("a%qb: %w", s, e)\<close>.  \<open>OSError s\<close> is an error of the
  operating system or the network with its text; \<open>NotExist\<close> is the one that
  \<open>os.IsNotExist\<close> recognises.

  Two more are not error values of Go.  \<open>Panic\<close> marks the outcome of a step that panics, which
  no code of the program recovers from, so that it ends the process.  \<open>Stalled\<close> is the end of a
  connection that stays open without sending any more: a read that comes to it does not
  return.  A call whose error is one of them, wrapped or not, does not return.
\<close>

datatype go_error =
    EOF
  | UnexpectedEOF
  | NoProgress
  | NotExist
  | OSError string
  | Errorf string
  | Wrapf string go_error
  | Quotef string string string
  | QuoteWrapf string string string go_error
  | SessionError string
  | Panic string
  | Stalled

primrec endless :: "go_error \<Rightarrow> bool" where
  "endless EOF = False"
| "endless UnexpectedEOF = False"
| "endless NoProgress = False"
| "endless NotExist = False"
| "endless (OSError s) = False"
| "endless (Errorf s) = False"
| "endless (Wrapf c e) = endless e"
| "endless (Quotef a s b) = False"
| "endless (QuoteWrapf a s b e) = endless e"
| "endless (SessionError s) = False"
| "endless (Panic s) = True"
| "endless Stalled = True"

type_synonym 'a result = "go_error + 'a"

text \<open>
  \<open>%q\<close> on a string of printable ASCII bytes; a quote or backslash is escaped, any other
  byte is written as a hexadecimal escape.
\<close>

definition hexDigit :: "nat \<Rightarrow> char" where
  "hexDigit d = (if d < 10 then char_of (48 + d) else char_of (87 + d))"

definition quoteByte :: "byte \<Rightarrow> string" where
  "quoteByte c =
     (if c = CHR 0x22 \<or> c = CHR 0x5C then [CHR 0x5C, c]
      else if c = CHR 0x0A then [CHR 0x5C, CHR ''n'']
      else if c = CHR 0x0D then [CHR 0x5C, CHR ''r'']
      else if c = CHR 0x09 then [CHR 0x5C, CHR ''t'']
      else if c = CHR 0x07 then [CHR 0x5C, CHR ''a'']
      else if c = CHR 0x08 then [CHR 0x5C, CHR ''b'']
      else if c = CHR 0x0C then [CHR 0x5C, CHR ''f'']
      else if c = CHR 0x0B then [CHR 0x5C, CHR ''v'']
      else if 32 \<le> code c \<and> code c < 127 then [c]
      else [CHR 0x5C, CHR ''x'', hexDigit (code c div 16), hexDigit (code c mod 16)])"

definition goQuote :: "string \<Rightarrow> string" where
  "goQuote s = [CHR 0x22] @ concat (map quoteByte s) @ [CHR 0x22]"

primrec errMsg :: "go_error \<Rightarrow> string" where
  "errMsg EOF = ''EOF''"
| "errMsg UnexpectedEOF = ''unexpected EOF''"
| "errMsg NoProgress = ''multiple Read calls return no data or error''"
| "errMsg NotExist = ''no such file or directory''"
| "errMsg (OSError s) = s"
| "errMsg (Errorf s) = s"
| "errMsg (Wrapf c e) = c @ '': '' @ errMsg e"
| "errMsg (Quotef a s b) = a @ goQuote s @ b"
| "errMsg (QuoteWrapf a s b e) = a @ goQuote s @ b @ '': '' @ errMsg e"
| "errMsg (SessionError s) = s"
| "errMsg (Panic s) = s"
| "errMsg Stalled = []"

lemma case_result_Inr [result_elims]:
  "(case r of Inl e \<Rightarrow> Inl e | Inr x \<Rightarrow> f x) = Inr y \<longleftrightarrow> (\<exists>x. r = Inr x \<and> f x = Inr y)"
  by (cases r) auto

lemma if_error_Inr [result_elims]:
  "(if b then Inl e else r) = Inr y \<longleftrightarrow> \<not> b \<and> r = Inr y"
  by simp

section \<open>Go maps to bool\<close>

text \<open>Indexing a \<open>map[K]bool\<close> at an absent key yields \<open>false\<close>.\<close>

definition mget :: "('k \<rightharpoonup> bool) \<Rightarrow> 'k \<Rightarrow> bool" where
  "mget m k = (case m k of None \<Rightarrow> False | Some b \<Rightarrow> b)"

lemma mget_empty [simp]: "mget (\<lambda>_. None) k = False"
  by (simp add: mget_def)

lemma mget_upd [simp]: "mget (m(k \<mapsto> b)) k' = (if k' = k then b else mget m k')"
  by (simp add: mget_def)

section \<open>64-bit arithmetic on mathematical integers\<close>

text \<open>\<open>wrap64\<close> reduces the result of an \<open>int64\<close> (or \<open>int\<close>) operation to its width.\<close>

definition wrap64 :: "int \<Rightarrow> int" where
  "wrap64 x = (x + 2 ^ 63) mod 2 ^ 64 - 2 ^ 63"

definition is_int64 :: "int \<Rightarrow> bool" where
  "is_int64 x \<longleftrightarrow> - (2 ^ 63) \<le> x \<and> x < 2 ^ 63"

lemma wrap64_id: "is_int64 x \<Longrightarrow> wrap64 x = x"
  by (simp add: wrap64_def is_int64_def)

lemma is_int64_wrap64: "is_int64 (wrap64 x)"
proof -
  have "0 \<le> (x + 2 ^ 63) mod 2 ^ 64" and "(x + 2 ^ 63) mod 2 ^ 64 < (2 ^ 64 :: int)"
    by simp_all
  then show ?thesis by (simp add: wrap64_def is_int64_def)
qed

lemma wrap64_mod: "wrap64 x mod 2 ^ 64 = x mod 2 ^ 64"
  by (simp add: wrap64_def mod_diff_left_eq)

lemma wrap64_cong: "x mod 2 ^ 64 = y mod 2 ^ 64 \<Longrightarrow> wrap64 x = wrap64 y"
  unfolding wrap64_def by (metis mod_add_cong)

lemma wrap64_step: "wrap64 (wrap64 x * c + d) = wrap64 (x * c + d)"
  by (rule wrap64_cong) (metis mod_add_cong mod_mult_cong wrap64_mod)

end
