(* ===== verification/Kinds.thy ===== *)
theory Kinds
  imports Prelude
begin

text \<open>
  The particle kinds, and the shared module \<open>github.com/eclipse-pcs/pcs\<close> as a parameter.

  The module is not part of this repository.  The program names its six kinds
  (\<open>pcs.EvenCypher\<close> to \<open>pcs.NoiseParity\<close>); \<open>OtherKind\<close> stands for any other value of the
  module's numeric type, which the default branches of the code meet.  Everything else
  the program takes from the module (its lists of kinds, names and storage folders, its
  inventory constructor, the size of a footer) is a field of \<open>pcs_module\<close>, the first
  argument of every definition that uses it; \<open>pcs_contract\<close> collects what the program
  relies on.
\<close>

datatype particle_kind =
    EvenCypher | OddCypher | EvenNoise | OddNoise | CypherParity | NoiseParity
  | OtherKind nat

text \<open>
  The kinds are numbers in the module, in the order of the session's ports; they are compared
  as such, so that an order of goroutines is a permutation of the sorted list of kinds.
\<close>

fun kindNumber :: "particle_kind \<Rightarrow> nat" where
  "kindNumber EvenCypher = 0"
| "kindNumber OddCypher = 1"
| "kindNumber EvenNoise = 2"
| "kindNumber OddNoise = 3"
| "kindNumber CypherParity = 4"
| "kindNumber NoiseParity = 5"
| "kindNumber (OtherKind n) = 6 + n"

lemma kindNumber_inj: "kindNumber k = kindNumber k' \<Longrightarrow> k = k'"
  by (cases k; cases k') simp_all

instantiation particle_kind :: linorder
begin

definition less_eq_particle_kind :: "particle_kind \<Rightarrow> particle_kind \<Rightarrow> bool" where
  "k \<le> k' \<longleftrightarrow> kindNumber k \<le> kindNumber k'"

definition less_particle_kind :: "particle_kind \<Rightarrow> particle_kind \<Rightarrow> bool" where
  "k < k' \<longleftrightarrow> kindNumber k < kindNumber k'"

instance
  by standard (auto simp: less_eq_particle_kind_def less_particle_kind_def intro: kindNumber_inj)

end

record pcs_module =
  AllParticleKinds :: "particle_kind list"
  CoreParticleKinds :: "particle_kind list"
  kindString :: "particle_kind \<Rightarrow> string"
  newInventory :: "(particle_kind \<rightharpoonup> bool) \<Rightarrow> (particle_kind \<rightharpoonup> bool)"
  storageA :: string
  storageB :: string
  storageC :: string
  storageForParticle :: "particle_kind \<Rightarrow> string"
  shardKey :: "string \<Rightarrow> particle_kind \<Rightarrow> string"
  footerSize :: nat

definition core_kinds :: "particle_kind set" where
  "core_kinds = {EvenCypher, OddCypher, EvenNoise, OddNoise}"

definition all_kinds :: "particle_kind set" where
  "all_kinds = {EvenCypher, OddCypher, EvenNoise, OddNoise, CypherParity, NoiseParity}"

text \<open>
  The documented behaviour the program relies on: the core and the full kind list hold the
  kinds their names say, once each, and an inventory built from a presence map answers as
  the map does.
\<close>

definition pcs_contract :: "pcs_module \<Rightarrow> bool" where
  "pcs_contract M \<longleftrightarrow>
     set (CoreParticleKinds M) = core_kinds \<and> distinct (CoreParticleKinds M) \<and>
     set (AllParticleKinds M) = all_kinds \<and> distinct (AllParticleKinds M) \<and>
     (\<forall>p. newInventory M p = p)"

lemma pcs_contract_core: "pcs_contract M \<Longrightarrow> set (CoreParticleKinds M) = core_kinds"
  by (simp add: pcs_contract_def)

lemma pcs_contract_all: "pcs_contract M \<Longrightarrow> set (AllParticleKinds M) = all_kinds"
  by (simp add: pcs_contract_def)

lemma pcs_contract_inventory: "pcs_contract M \<Longrightarrow> newInventory M p = p"
  by (simp add: pcs_contract_def)

text \<open>
  A module value with the suffixes and folders of the wire protocol document, for
  evaluating the model on concrete inputs.
\<close>

fun sample_suffix :: "particle_kind \<Rightarrow> string" where
  "sample_suffix EvenCypher = ''ec''"
| "sample_suffix OddCypher = ''oc''"
| "sample_suffix EvenNoise = ''en''"
| "sample_suffix OddNoise = ''on''"
| "sample_suffix CypherParity = ''cp''"
| "sample_suffix NoiseParity = ''np''"
| "sample_suffix (OtherKind n) = ''other''"

fun sample_storage :: "particle_kind \<Rightarrow> string" where
  "sample_storage EvenCypher = ''storageA''"
| "sample_storage OddNoise = ''storageA''"
| "sample_storage OddCypher = ''storageB''"
| "sample_storage EvenNoise = ''storageB''"
| "sample_storage CypherParity = ''storageC''"
| "sample_storage NoiseParity = ''storageC''"
| "sample_storage (OtherKind n) = ''storageC''"

definition sample_module :: pcs_module where
  "sample_module = \<lparr>
     AllParticleKinds = [EvenCypher, OddCypher, EvenNoise, OddNoise, CypherParity, NoiseParity],
     CoreParticleKinds = [EvenCypher, OddCypher, EvenNoise, OddNoise],
     kindString = sample_suffix,
     newInventory = (\<lambda>p. p),
     storageA = ''storageA'', storageB = ''storageB'', storageC = ''storageC'',
     storageForParticle = sample_storage,
     shardKey = (\<lambda>base k. base @ ''.'' @ sample_suffix k),
     footerSize = 64\<rparr>"

lemma sample_module_contract: "pcs_contract sample_module"
  by (auto simp: pcs_contract_def sample_module_def core_kinds_def all_kinds_def)

end
