(* ===== verification/MergePlan.thy ===== *)
theory MergePlan
  imports Kinds
begin

text \<open>
  \<open>internal/mergeplan/merge_plan.go\<close>: which particle streams the merge client uploads.
\<close>

record merge_send_plan =
  Send :: "particle_kind \<rightharpoonup> bool"

text \<open>The inventory's \<open>Present\<close> map is passed directly; \<open>None\<close> is the nil inventory.\<close>

fun validateCores :: "pcs_module \<Rightarrow> merge_send_plan \<Rightarrow> (particle_kind \<rightharpoonup> bool)
    \<Rightarrow> (particle_kind \<rightharpoonup> bool) \<Rightarrow> particle_kind list \<Rightarrow> unit result" where
  "validateCores M plan missing present [] = Inr ()"
| "validateCores M plan missing present (kind # kinds) =
     (if mget missing kind then
        (if mget (Send plan) kind
         then Inl (Errorf (''cannot merge: '' @ kindString M kind @
                           '' marked missing but included in send plan''))
         else validateCores M plan missing present kinds)
      else if \<not> mget present kind
      then Inl (Errorf (''cannot merge: core particle '' @ kindString M kind @
                        '' required but not available''))
      else if \<not> mget (Send plan) kind
      then Inl (Errorf (''cannot merge: core particle '' @ kindString M kind @
                        '' required but not in send plan''))
      else validateCores M plan missing present kinds)"

definition validateMergeSendPlan :: "pcs_module \<Rightarrow> merge_send_plan \<Rightarrow> (particle_kind \<rightharpoonup> bool)
    \<Rightarrow> (particle_kind \<rightharpoonup> bool) \<Rightarrow> unit result" where
  "validateMergeSendPlan M plan missing present =
     (if mget missing EvenCypher \<and> mget missing OddCypher
      then Inl (Errorf ''cannot merge: both cypher core particles missing'')
      else if mget missing EvenNoise \<and> mget missing OddNoise
      then Inl (Errorf ''cannot merge: both noise core particles missing'')
      else if mget (Send plan) CypherParity \<and> \<not> mget (Send plan) EvenCypher
              \<and> \<not> mget (Send plan) OddCypher
      then Inl (Errorf ''cannot merge: cypher parity without a cypher core particle'')
      else if mget (Send plan) NoiseParity \<and> \<not> mget (Send plan) EvenNoise
              \<and> \<not> mget (Send plan) OddNoise
      then Inl (Errorf ''cannot merge: noise parity without a noise core particle'')
      else case validateCores M plan missing present (CoreParticleKinds M) of
        Inl e \<Rightarrow> Inl e
      | Inr _ \<Rightarrow>
          if mget missing EvenCypher \<noteq> mget missing OddCypher
             \<and> mget present CypherParity \<and> \<not> mget (Send plan) CypherParity
          then Inl (Errorf ''cannot merge: cypher parity required for recovery'')
          else if mget missing EvenNoise \<noteq> mget missing OddNoise
             \<and> mget present NoiseParity \<and> \<not> mget (Send plan) NoiseParity
          then Inl (Errorf ''cannot merge: noise parity required for recovery'')
          else Inr ())"

definition sendCore :: "(particle_kind \<rightharpoonup> bool) \<Rightarrow> (particle_kind \<rightharpoonup> bool) \<Rightarrow> particle_kind \<Rightarrow> bool" where
  "sendCore present missing kind = (mget present kind \<and> \<not> mget missing kind)"

definition buildPlan :: "(particle_kind \<rightharpoonup> bool) \<Rightarrow> (particle_kind \<rightharpoonup> bool) \<Rightarrow> merge_send_plan" where
  "buildPlan present missing =
     (let s0 = Map.empty(EvenCypher \<mapsto> sendCore present missing EvenCypher,
                         OddCypher \<mapsto> sendCore present missing OddCypher,
                         EvenNoise \<mapsto> sendCore present missing EvenNoise,
                         OddNoise \<mapsto> sendCore present missing OddNoise);
          cypherCoreMissing = (mget missing EvenCypher \<or> mget missing OddCypher);
          cypherAnyCore = (mget s0 EvenCypher \<or> mget s0 OddCypher);
          s1 = s0(CypherParity \<mapsto> cypherCoreMissing \<and> mget present CypherParity \<and> cypherAnyCore);
          noiseCoreMissing = (mget missing EvenNoise \<or> mget missing OddNoise);
          noiseAnyCore = (mget s1 EvenNoise \<or> mget s1 OddNoise);
          s2 = s1(NoiseParity \<mapsto> noiseCoreMissing \<and> mget present NoiseParity \<and> noiseAnyCore)
      in \<lparr>Send = s2\<rparr>)"

definition mergeSendPlanFrom :: "pcs_module \<Rightarrow> (particle_kind \<rightharpoonup> bool) option
    \<Rightarrow> (particle_kind \<rightharpoonup> bool) \<Rightarrow> merge_send_plan result" where
  "mergeSendPlanFrom M inventory missing =
     (case inventory of
        None \<Rightarrow> Inl (Errorf ''particle inventory is required'')
      | Some present \<Rightarrow>
          let plan = buildPlan present missing in
          case validateMergeSendPlan M plan missing present of
            Inl e \<Rightarrow> Inl e
          | Inr _ \<Rightarrow> Inr plan)"

definition mergeSendPlanFromCore :: "pcs_module \<Rightarrow> (particle_kind \<rightharpoonup> bytes)
    \<Rightarrow> (particle_kind \<rightharpoonup> bool) \<Rightarrow> merge_send_plan result" where
  "mergeSendPlanFromCore M core missing =
     (let present = fold (\<lambda>kind p. p(kind \<mapsto> core kind \<noteq> None)) (AllParticleKinds M) Map.empty
      in mergeSendPlanFrom M (Some (newInventory M present)) missing)"

section \<open>What the plan sends\<close>

lemma buildPlan_core:
  "k \<in> core_kinds \<Longrightarrow> mget (Send (buildPlan present missing)) k = sendCore present missing k"
  by (auto simp: buildPlan_def core_kinds_def Let_def)

lemma buildPlan_CP:
  "mget (Send (buildPlan present missing)) CypherParity \<longleftrightarrow>
     (mget missing EvenCypher \<or> mget missing OddCypher) \<and> mget present CypherParity \<and>
     (sendCore present missing EvenCypher \<or> sendCore present missing OddCypher)"
  by (simp add: buildPlan_def Let_def)

lemma buildPlan_NP:
  "mget (Send (buildPlan present missing)) NoiseParity \<longleftrightarrow>
     (mget missing EvenNoise \<or> mget missing OddNoise) \<and> mget present NoiseParity \<and>
     (sendCore present missing EvenNoise \<or> sendCore present missing OddNoise)"
  by (simp add: buildPlan_def Let_def)

lemma buildPlan_other: "k \<notin> all_kinds \<Longrightarrow> mget (Send (buildPlan present missing)) k = False"
  by (auto simp: buildPlan_def Let_def all_kinds_def mget_def)

lemmas buildPlan_send = buildPlan_core buildPlan_CP buildPlan_NP buildPlan_other

lemma buildPlan_sends_present:
  assumes "mget (Send (buildPlan present missing)) k"
  shows "k \<in> all_kinds \<and> mget present k"
proof (cases "k \<in> core_kinds")
  case True
  with assms show ?thesis by (auto simp: buildPlan_core sendCore_def core_kinds_def all_kinds_def)
next
  case False
  moreover have k: "k \<in> all_kinds" using assms buildPlan_other by blast
  ultimately have "k = CypherParity \<or> k = NoiseParity" by (auto simp: all_kinds_def core_kinds_def)
  with assms k show ?thesis by (auto simp: buildPlan_CP buildPlan_NP)
qed

text \<open>The core loop on a built plan fails at the first core that is neither missing nor there.\<close>

definition absentCore :: "(particle_kind \<rightharpoonup> bool) \<Rightarrow> (particle_kind \<rightharpoonup> bool) \<Rightarrow> particle_kind \<Rightarrow> bool" where
  "absentCore present missing k \<longleftrightarrow> \<not> mget missing k \<and> \<not> mget present k"

lemma validateCores_built:
  "set kinds \<subseteq> core_kinds \<Longrightarrow>
   validateCores M (buildPlan present missing) missing present kinds =
     (case find (absentCore present missing) kinds of
        Some k \<Rightarrow> Inl (Errorf (''cannot merge: core particle '' @ kindString M k @
                               '' required but not available''))
      | None \<Rightarrow> Inr ())"
  by (induction kinds) (auto simp: buildPlan_core sendCore_def absentCore_def)

lemma find_None_core:
  assumes "pcs_contract M" "find (absentCore present missing) (CoreParticleKinds M) = None"
  shows "\<forall>k \<in> core_kinds. mget missing k \<or> mget present k"
  using assms by (auto simp: find_None_iff pcs_contract_core absentCore_def)

lemma built_parity_has_core:
  "(mget (Send (buildPlan present missing)) CypherParity \<and>
     \<not> mget (Send (buildPlan present missing)) EvenCypher \<and>
     \<not> mget (Send (buildPlan present missing)) OddCypher) = False"
  "(mget (Send (buildPlan present missing)) NoiseParity \<and>
     \<not> mget (Send (buildPlan present missing)) EvenNoise \<and>
     \<not> mget (Send (buildPlan present missing)) OddNoise) = False"
  by (auto simp: buildPlan_send core_kinds_def)

lemma built_parity_required:
  assumes "\<forall>k \<in> core_kinds. mget missing k \<or> mget present k"
  shows "(mget missing EvenCypher \<noteq> mget missing OddCypher \<and> mget present CypherParity \<and>
      \<not> mget (Send (buildPlan present missing)) CypherParity) = False"
    and "(mget missing EvenNoise \<noteq> mget missing OddNoise \<and> mget present NoiseParity \<and>
      \<not> mget (Send (buildPlan present missing)) NoiseParity) = False"
  using assms by (auto simp: buildPlan_send core_kinds_def sendCore_def)

lemma mergeSendPlanFrom_result:
  assumes "pcs_contract M"
  shows "mergeSendPlanFrom M (Some present) missing =
     (if mget missing EvenCypher \<and> mget missing OddCypher
      then Inl (Errorf ''cannot merge: both cypher core particles missing'')
      else if mget missing EvenNoise \<and> mget missing OddNoise
      then Inl (Errorf ''cannot merge: both noise core particles missing'')
      else case find (absentCore present missing) (CoreParticleKinds M) of
        Some k \<Rightarrow> Inl (Errorf (''cannot merge: core particle '' @ kindString M k @
                               '' required but not available''))
      | None \<Rightarrow> Inr (buildPlan present missing))"
proof -
  have cores: "set (CoreParticleKinds M) \<subseteq> core_kinds"
    using assms by (simp add: pcs_contract_core)
  show ?thesis
  proof (cases "find (absentCore present missing) (CoreParticleKinds M)")
    case None
    then show ?thesis
      using built_parity_required [OF find_None_core [OF assms None]]
      by (simp only: mergeSendPlanFrom_def validateMergeSendPlan_def Let_def option.case
          validateCores_built [OF cores] built_parity_has_core sum.case if_False split: if_split)
         simp
  next
    case (Some k)
    then show ?thesis
      by (simp only: mergeSendPlanFrom_def validateMergeSendPlan_def Let_def option.case
          validateCores_built [OF cores] built_parity_has_core sum.case if_False split: if_split)
         simp
  qed
qed

text \<open>
  C10: complete behaviour of the plan builder.  Of the ten errors of the code only the two
  "both cores missing" ones and the first absent core can come out of it; otherwise the
  plan built from the inventory is returned, and the parity checks that follow never fail.
\<close>

theorem mergeSendPlanFrom_eq:
  assumes "pcs_contract M"
  shows "mergeSendPlanFrom M (Some present) missing =
     (if mget missing EvenCypher \<and> mget missing OddCypher
      then Inl (Errorf ''cannot merge: both cypher core particles missing'')
      else if mget missing EvenNoise \<and> mget missing OddNoise
      then Inl (Errorf ''cannot merge: both noise core particles missing'')
      else case find (absentCore present missing) (CoreParticleKinds M) of
        Some k \<Rightarrow> Inl (Errorf (''cannot merge: core particle '' @ kindString M k @
                               '' required but not available''))
      | None \<Rightarrow> Inr (buildPlan present missing))"
  using assms by (rule mergeSendPlanFrom_result)

theorem mergeSendPlanFrom_eq_witness:
  "pcs_contract sample_module \<and>
   mergeSendPlanFrom sample_module (Some [EvenCypher \<mapsto> True, EvenNoise \<mapsto> True, OddNoise \<mapsto> True])
     Map.empty =
   Inl (Errorf ''cannot merge: core particle oc required but not available'')"
proof -
  show ?thesis
    using sample_module_contract
    by (simp add: mergeSendPlanFrom_eq [OF sample_module_contract])
       (simp add: sample_module_def absentCore_def mget_def)
qed

section \<open>Success, recoverability and minimality\<close>

text \<open>
  The send set a decoder can work with: of each pair of core streams both, or one of them
  and the parity of the pair.
\<close>

definition pairRecoverable :: "(particle_kind \<Rightarrow> bool) \<Rightarrow> particle_kind \<Rightarrow> particle_kind
    \<Rightarrow> particle_kind \<Rightarrow> bool" where
  "pairRecoverable sent a b p \<longleftrightarrow> sent a \<and> sent b \<or> (sent a \<or> sent b) \<and> sent p"

definition recoverable :: "(particle_kind \<Rightarrow> bool) \<Rightarrow> bool" where
  "recoverable sent \<longleftrightarrow>
     pairRecoverable sent EvenCypher OddCypher CypherParity \<and>
     pairRecoverable sent EvenNoise OddNoise NoiseParity"

lemma find_absent_None:
  assumes "pcs_contract M"
  shows "find (absentCore present missing) (CoreParticleKinds M) = None \<longleftrightarrow>
    (\<forall>k \<in> core_kinds. mget missing k \<or> mget present k)"
  using assms by (auto simp: find_None_iff pcs_contract_core absentCore_def)

lemma mergeSendPlanFrom_InrD:
  assumes "pcs_contract M" "mergeSendPlanFrom M (Some present) missing = Inr plan"
  shows "plan = buildPlan present missing"
    and "\<not> (mget missing EvenCypher \<and> mget missing OddCypher)"
    and "\<not> (mget missing EvenNoise \<and> mget missing OddNoise)"
    and "\<forall>k \<in> core_kinds. mget missing k \<or> mget present k"
  using assms(2) find_absent_None [OF assms(1), of present missing]
  by (auto simp: mergeSendPlanFrom_def validateMergeSendPlan_def Let_def
      validateCores_built pcs_contract_core [OF assms(1)]
      split: if_splits sum.splits option.splits)

text \<open>
  An accepted plan sends exactly the core streams not declared missing; it sends a
  parity stream exactly when a core of its pair is missing and the parity is there; and it
  names no other stream.
\<close>

theorem mergeSendPlanFrom_sends:
  assumes "pcs_contract M" "mergeSendPlanFrom M (Some present) missing = Inr plan"
  shows "(k \<in> core_kinds \<longrightarrow> mget (Send plan) k = (\<not> mget missing k))
    \<and> mget (Send plan) CypherParity =
        ((mget missing EvenCypher \<or> mget missing OddCypher) \<and> mget present CypherParity)
    \<and> mget (Send plan) NoiseParity =
        ((mget missing EvenNoise \<or> mget missing OddNoise) \<and> mget present NoiseParity)
    \<and> (k \<notin> all_kinds \<longrightarrow> \<not> mget (Send plan) k)"
  using mergeSendPlanFrom_InrD [OF assms]
  by (auto simp: buildPlan_send sendCore_def core_kinds_def)

theorem mergeSendPlanFrom_sends_witness:
  "mget (Send (buildPlan (\<lambda>_. Some True) [OddCypher \<mapsto> True])) CypherParity
   \<and> \<not> mget (Send (buildPlan (\<lambda>_. Some True) [OddCypher \<mapsto> True])) NoiseParity
   \<and> \<not> mget (Send (buildPlan (\<lambda>_. Some True) [OddCypher \<mapsto> True])) OddCypher"
proof -
  have ok: "mergeSendPlanFrom sample_module (Some (\<lambda>_. Some True)) [OddCypher \<mapsto> True]
      = Inr (buildPlan (\<lambda>_. Some True) [OddCypher \<mapsto> True])"
    by (simp add: mergeSendPlanFrom_def validateMergeSendPlan_def Let_def sample_module_def
        buildPlan_def sendCore_def mget_def)
  show ?thesis
    using mergeSendPlanFrom_sends [OF sample_module_contract ok, of OddCypher]
    by (simp add: core_kinds_def mget_def)
qed

text \<open>
  C22: when an accepted plan can be decoded.  The plan is recoverable exactly when each pair
  with a missing core has its parity stream in the inventory.  The validation does not ask
  for that: a plan that omits a core and has no parity for it is accepted.
\<close>

theorem mergeSendPlanFrom_recoverable_iff:
  assumes "pcs_contract M" "mergeSendPlanFrom M (Some present) missing = Inr plan"
  shows "recoverable (mget (Send plan)) \<longleftrightarrow>
    (mget missing EvenCypher \<or> mget missing OddCypher \<longrightarrow> mget present CypherParity) \<and>
    (mget missing EvenNoise \<or> mget missing OddNoise \<longrightarrow> mget present NoiseParity)"
  using mergeSendPlanFrom_InrD [OF assms]
  by (auto simp: recoverable_def pairRecoverable_def buildPlan_send sendCore_def core_kinds_def)

theorem mergeSendPlanFrom_recoverable_iff_witness:
  "mergeSendPlanFrom sample_module (Some ((\<lambda>_. Some True)(CypherParity \<mapsto> False)))
      [EvenCypher \<mapsto> True] =
     Inr (buildPlan ((\<lambda>_. Some True)(CypherParity \<mapsto> False)) [EvenCypher \<mapsto> True])
   \<and> \<not> recoverable (mget (Send
        (buildPlan ((\<lambda>_. Some True)(CypherParity \<mapsto> False)) [EvenCypher \<mapsto> True])))"
proof -
  have ok: "mergeSendPlanFrom sample_module (Some ((\<lambda>_. Some True)(CypherParity \<mapsto> False)))
      [EvenCypher \<mapsto> True] =
     Inr (buildPlan ((\<lambda>_. Some True)(CypherParity \<mapsto> False)) [EvenCypher \<mapsto> True])"
    by (simp add: mergeSendPlanFrom_def validateMergeSendPlan_def Let_def sample_module_def
        buildPlan_def sendCore_def mget_def)
  then show ?thesis
    using mergeSendPlanFrom_recoverable_iff [OF sample_module_contract ok]
    by (simp add: mget_def)
qed

section \<open>Plans from particles in memory\<close>

lemma present_fold:
  "fold (\<lambda>kind p. p(kind \<mapsto> f kind)) ks p0 k = (if k \<in> set ks then Some (f k) else p0 k)"
  by (induction ks arbitrary: p0) auto

end
