(* ===== verification/GoText.thy ===== *)
theory GoText
  imports Prelude
begin

text \<open>
  The text functions of Go's standard library that the protocol code calls:
  \<open>strings.TrimSpace\<close>, \<open>strings.Fields\<close>, \<open>strings.HasPrefix\<close> and its relatives,
  \<open>fmt\<close>'s \<open>%d\<close> and \<open>%x\<close>, \<open>strconv.ParseUint\<close> and \<open>strconv.Atoi\<close>.
\<close>

section \<open>White space\<close>

text \<open>
  The width in bytes of the white-space rune a string starts with, 0 if it starts with
  none: the six ASCII spaces and the UTF-8 forms of U+0085, U+00A0, U+1680,
  U+2000 to U+200A, U+2028, U+2029, U+202F, U+205F and U+3000 (\<open>unicode.IsSpace\<close>).
  No lead byte of these forms is a continuation byte, so scanning byte by byte finds
  the same spaces as decoding rune by rune.
\<close>

definition asciiSpace :: "byte \<Rightarrow> bool" where
  "asciiSpace c \<longleftrightarrow> 9 \<le> code c \<and> code c \<le> 13 \<or> code c = 32"

fun spaceLen :: "string \<Rightarrow> nat" where
  "spaceLen [] = 0"
| "spaceLen (a # s) =
     (if asciiSpace a then 1
      else case s of
        [] \<Rightarrow> 0
      | b # t \<Rightarrow>
          if code a = 0xC2 \<and> (code b = 0x85 \<or> code b = 0xA0) then 2
          else case t of
            [] \<Rightarrow> 0
          | c # _ \<Rightarrow>
              if code a = 0xE1 \<and> code b = 0x9A \<and> code c = 0x80
                 \<or> code a = 0xE2 \<and> code b = 0x80 \<and>
                     (0x80 \<le> code c \<and> code c \<le> 0x8A \<or> code c = 0xA8 \<or> code c = 0xA9 \<or> code c = 0xAF)
                 \<or> code a = 0xE2 \<and> code b = 0x81 \<and> code c = 0x9F
                 \<or> code a = 0xE3 \<and> code b = 0x80 \<and> code c = 0x80
              then 3 else 0)"

lemma spaceLen_le: "spaceLen s \<le> length s"
  by (induction s rule: spaceLen.induct) (auto split: list.splits)

function trimLeft :: "string \<Rightarrow> string" where
  "trimLeft s = (if spaceLen s = 0 then s else trimLeft (drop (spaceLen s) s))"
  by pat_completeness auto
termination
proof (relation "measure length")
  fix s :: string
  assume "spaceLen s \<noteq> 0"
  then show "(drop (spaceLen s) s, s) \<in> measure length"
    using spaceLen_le [of s] by simp
qed simp

declare trimLeft.simps [simp del]

definition lastBytes :: "nat \<Rightarrow> string \<Rightarrow> string" where
  "lastBytes n s = drop (length s - n) s"

definition spaceLenRight :: "string \<Rightarrow> nat" where
  "spaceLenRight s =
     (if spaceLen (lastBytes 1 s) = 1 then 1
      else if spaceLen (lastBytes 2 s) = 2 then 2
      else if spaceLen (lastBytes 3 s) = 3 then 3
      else 0)"

function trimRight :: "string \<Rightarrow> string" where
  "trimRight s =
     (if s = [] \<or> spaceLenRight s = 0 then s
      else trimRight (take (length s - spaceLenRight s) s))"
  by pat_completeness auto
termination
  by (relation "measure length") auto

declare trimRight.simps [simp del]

definition trimSpace :: "string \<Rightarrow> string" where
  "trimSpace s = trimRight (trimLeft s)"

fun takeWord :: "string \<Rightarrow> string \<times> string" where
  "takeWord [] = ([], [])"
| "takeWord (c # s) =
     (if spaceLen (c # s) > 0 then ([], c # s)
      else case takeWord s of (w, r) \<Rightarrow> (c # w, r))"

lemma takeWord_split: "takeWord s = (w, r) \<Longrightarrow> s = w @ r"
  by (induction s arbitrary: w r) (auto split: if_splits prod.splits simp del: spaceLen.simps)

lemma takeWord_progress:
  "spaceLen s = 0 \<Longrightarrow> s \<noteq> [] \<Longrightarrow> length (snd (takeWord s)) < length s"
  by (cases s)
     (auto split: prod.splits simp del: spaceLen.simps dest: takeWord_split)

lemma trimLeft_length: "length (trimLeft s) \<le> length s"
proof (induction s rule: trimLeft.induct)
  case (1 s)
  then show ?case
    by (cases "spaceLen s = 0") (auto simp: trimLeft.simps [of s])
qed

lemma trimLeft_spaceLen: "spaceLen (trimLeft s) = 0"
proof (induction s rule: trimLeft.induct)
  case (1 s)
  then show ?case
    by (cases "spaceLen s = 0") (auto simp: trimLeft.simps [of s])
qed

lemma trimLeft_suffix: "\<exists>u. s = u @ trimLeft s"
proof (induction s rule: trimLeft.induct)
  case (1 s)
  show ?case
  proof (cases "spaceLen s = 0")
    case False
    with 1 obtain u where "drop (spaceLen s) s = u @ trimLeft (drop (spaceLen s) s)" by blast
    then have "s = (take (spaceLen s) s @ u) @ trimLeft (drop (spaceLen s) s)"
      by (metis append.assoc append_take_drop_id)
    moreover have "trimLeft s = trimLeft (drop (spaceLen s) s)"
      using False by (subst trimLeft.simps) simp
    ultimately show ?thesis by metis
  qed (simp add: trimLeft.simps)
qed

function strFields :: "string \<Rightarrow> string list" where
  "strFields s =
     (let t = trimLeft s in
      if t = [] then []
      else fst (takeWord t) # strFields (snd (takeWord t)))"
  by pat_completeness auto
termination
proof (relation "measure length")
  fix s t :: string
  assume "t = trimLeft s" "t \<noteq> []"
  then have "length (snd (takeWord t)) < length t" "length t \<le> length s"
    by (simp_all add: takeWord_progress trimLeft_spaceLen trimLeft_length)
  then show "(snd (takeWord t), s) \<in> measure length" by simp
qed simp

declare strFields.simps [simp del]

subsection \<open>Words without white space\<close>

fun nospace :: "string \<Rightarrow> bool" where
  "nospace [] = True"
| "nospace (c # s) = (spaceLen (c # s) = 0 \<and> nospace s)"

text \<open>A byte that is plain: ASCII and no space.\<close>

definition plain :: "byte \<Rightarrow> bool" where
  "plain c \<longleftrightarrow> code c < 128 \<and> \<not> asciiSpace c"

lemma spaceLen_plain [simp]: "plain c \<Longrightarrow> spaceLen (c # s) = 0"
  by (auto simp: plain_def split: list.splits)

lemma nospace_plain: "\<forall>c \<in> set w. plain c \<Longrightarrow> nospace w"
  by (induction w) (auto simp del: spaceLen.simps)

lemma spaceLen_append_ascii:
  "spaceLen (c # w) = 0 \<Longrightarrow> code b < 128 \<Longrightarrow> spaceLen (c # w @ b # r) = 0"
proof (cases w)
  case Nil
  assume "spaceLen (c # w) = 0" "code b < 128"
  with Nil show ?thesis by (cases r) (simp_all split: if_splits)
next
  case (Cons d v)
  assume z: "spaceLen (c # w) = 0" and b: "code b < 128"
  show ?thesis
  proof (cases v)
    case Nil
    with Cons z b show ?thesis by (simp split: if_splits)
  next
    case (Cons e u)
    with \<open>w = d # v\<close> z show ?thesis by (simp split: if_splits)
  qed
qed

lemma takeWord_nospace: "nospace w \<Longrightarrow> takeWord w = (w, [])"
  by (induction w) (auto simp del: spaceLen.simps)

lemma takeWord_space:
  "nospace w \<Longrightarrow> asciiSpace b \<Longrightarrow> takeWord (w @ b # r) = (w, b # r)"
proof (induction w)
  case Nil
  then show ?case by simp
next
  case (Cons c w)
  then have "spaceLen (c # w @ b # r) = 0"
    by (intro spaceLen_append_ascii) (auto simp: asciiSpace_def simp del: spaceLen.simps)
  with Cons show ?case by (simp del: spaceLen.simps)
qed

lemma trimLeft_id: "spaceLen s = 0 \<Longrightarrow> trimLeft s = s"
  by (simp add: trimLeft.simps)

lemma trimLeft_space: "asciiSpace b \<Longrightarrow> trimLeft (b # s) = trimLeft s"
  by (subst trimLeft.simps) simp

lemma strFields_Nil [simp]: "strFields [] = []"
  by (simp add: strFields.simps trimLeft.simps)

lemma strFields_leading_space: "asciiSpace b \<Longrightarrow> strFields (b # s) = strFields s"
  by (simp add: strFields.simps [of "b # s"] strFields.simps [of s] trimLeft_space)

lemma strFields_word_space:
  assumes "nospace w" "w \<noteq> []" "asciiSpace b"
  shows "strFields (w @ b # r) = w # strFields r"
proof -
  obtain c u where w: "w = c # u" using assms(2) by (cases w) auto
  have b: "code b < 128" using assms(3) by (auto simp: asciiSpace_def)
  have "spaceLen (w @ b # r) = 0"
    using assms(1) b unfolding w append_Cons nospace.simps
    by (intro spaceLen_append_ascii) auto
  then have "trimLeft (w @ b # r) = w @ b # r" by (rule trimLeft_id)
  then show ?thesis
    using assms by (simp add: strFields.simps [of "w @ b # r"] takeWord_space strFields_leading_space)
qed

lemma strFields_word:
  assumes "nospace w" "w \<noteq> []"
  shows "strFields w = [w]"
proof -
  have "spaceLen w = 0" using assms by (cases w) auto
  then show ?thesis
    using assms by (simp add: strFields.simps [of w] takeWord_nospace trimLeft_id)
qed

text \<open>Splitting a string at an ASCII space splits its fields.\<close>

lemma spaceLen_append_pos: "0 < spaceLen s \<Longrightarrow> spaceLen (s @ u) = spaceLen s"
  by (induction s rule: spaceLen.induct) (auto split: list.splits if_splits)

lemma spaceLen_append_zero:
  "spaceLen s = 0 \<Longrightarrow> s \<noteq> [] \<Longrightarrow> code b < 128 \<Longrightarrow> spaceLen (s @ b # r) = 0"
  using spaceLen_append_ascii [of "hd s" "tl s" b r] by (cases s) simp_all

lemma trimLeft_append:
  "asciiSpace b \<Longrightarrow>
   trimLeft (s @ b # r) = (if trimLeft s = [] then trimLeft r else trimLeft s @ b # r)"
proof (induction s rule: trimLeft.induct)
  case (1 s)
  have b: "code b < 128" using "1.prems" by (auto simp: asciiSpace_def)
  show ?case
  proof (cases "spaceLen s = 0")
    case True
    then have id: "trimLeft s = s" by (rule trimLeft_id)
    show ?thesis
    proof (cases "s = []")
      case False
      with True b have "spaceLen (s @ b # r) = 0" by (intro spaceLen_append_zero)
      with False id show ?thesis by (simp add: trimLeft_id)
    qed (use "1.prems" in \<open>simp add: trimLeft_space trimLeft_id\<close>)
  next
    case False
    then have len: "spaceLen (s @ b # r) = spaceLen s" "spaceLen s \<le> length s"
      by (simp_all add: spaceLen_append_pos spaceLen_le)
    with False have "trimLeft (s @ b # r) = trimLeft (drop (spaceLen s) s @ b # r)"
      by (subst trimLeft.simps) simp
    moreover have "trimLeft s = trimLeft (drop (spaceLen s) s)"
      using False by (subst trimLeft.simps) simp
    ultimately show ?thesis using "1.IH" [OF False "1.prems"] by simp
  qed
qed

lemma takeWord_append:
  "asciiSpace b \<Longrightarrow>
   takeWord (s @ b # r) = (fst (takeWord s), snd (takeWord s) @ b # r)"
proof (induction s)
  case Nil
  then show ?case by simp
next
  case (Cons c s)
  have b: "code b < 128" using Cons.prems by (auto simp: asciiSpace_def)
  show ?case
  proof (cases "spaceLen (c # s) = 0")
    case True
    then have "spaceLen (c # s @ b # r) = 0" using b by (rule spaceLen_append_ascii)
    with True Cons show ?thesis by (simp del: spaceLen.simps split: prod.split)
  next
    case False
    then have "0 < spaceLen (c # s @ b # r)"
      using spaceLen_append_pos [of "c # s" "b # r"] by simp
    with False show ?thesis by (simp del: spaceLen.simps)
  qed
qed

lemma strFields_append_space:
  "asciiSpace b \<Longrightarrow> strFields (s @ b # r) = strFields s @ strFields r"
proof (induction s rule: strFields.induct)
  case (1 s)
  show ?case
  proof (cases "trimLeft s = []")
    case True
    then show ?thesis
      using "1.prems" trimLeft_append [of b s r]
      by (simp add: strFields.simps [of "s @ b # r"] strFields.simps [of s] strFields.simps [of r])
  next
    case False
    have "strFields (s @ b # r) =
        fst (takeWord (trimLeft s)) # strFields (snd (takeWord (trimLeft s)) @ b # r)"
      using False "1.prems" trimLeft_append [of b s r]
      by (simp add: strFields.simps [of "s @ b # r"] takeWord_append)
    with False "1.IH" [OF refl False "1.prems"] show ?thesis
      by (simp add: strFields.simps [of s] Let_def)
  qed
qed

lemma strFields_trimLeft: "strFields (trimLeft s) = strFields s"
  by (simp add: strFields.simps [of s] strFields.simps [of "trimLeft s"]
      trimLeft_id trimLeft_spaceLen)

lemma strFields_cons: "nospace w \<Longrightarrow> w \<noteq> [] \<Longrightarrow> strFields (w @ CHR '' '' # r) = w # strFields r"
  by (rule strFields_word_space) (simp_all add: asciiSpace_def)

lemma lastBytes_1: "lastBytes (Suc 0) (s @ [c]) = [c]"
  by (simp add: lastBytes_def)

lemma spaceLenRight_plain: "plain c \<Longrightarrow> spaceLenRight (s @ [c]) = 0"
proof -
  assume c: "plain c"
  have two: "spaceLen (lastBytes 2 (s @ [c])) \<noteq> 2"
    using c by (cases s rule: rev_cases) (auto simp: lastBytes_def plain_def)
  have three: "spaceLen (lastBytes 3 (s @ [c])) \<noteq> 3"
  proof (cases s rule: rev_cases)
    case Nil
    with c show ?thesis by (simp add: lastBytes_def)
  next
    case (snoc t b)
    with c show ?thesis
      by (cases t rule: rev_cases) (auto simp: lastBytes_def plain_def split: if_splits)
  qed
  show ?thesis using c two three by (simp add: spaceLenRight_def lastBytes_1 plain_def)
qed

lemma trimRight_plain: "plain c \<Longrightarrow> trimRight (s @ [c]) = s @ [c]"
  by (simp add: trimRight.simps spaceLenRight_plain)

lemma trimRight_newline: "trimRight (s @ [newline]) = trimRight s"
proof -
  have "spaceLenRight (s @ [newline]) = 1"
    by (simp add: spaceLenRight_def lastBytes_def asciiSpace_def)
  then show ?thesis by (subst trimRight.simps) simp
qed

text \<open>Trimming a line that ends in a plain byte before its newline keeps its fields.\<close>

lemma strFields_trimSpace_line:
  assumes "plain c"
  shows "strFields (trimSpace (s @ [c, newline])) = strFields (s @ [c])"
proof -
  have nl: "asciiSpace newline" by (simp add: asciiSpace_def)
  have "trimLeft [newline] = []" using nl by (simp add: trimLeft_space trimLeft_id)
  then have "trimLeft (s @ [c, newline]) =
      (if trimLeft (s @ [c]) = [] then [] else trimLeft (s @ [c]) @ [newline])"
    using trimLeft_append [OF nl, of "s @ [c]" "[]"] by (simp add: trimLeft_id)
  moreover obtain u where "trimLeft (s @ [c]) = u @ [c] \<or> trimLeft (s @ [c]) = []"
    using trimLeft_suffix [of "s @ [c]"] by (metis append_eq_append_conv2 append_is_Nil_conv
        butlast_append last_appendR last_snoc append_butlast_last_id)
  ultimately have "trimSpace (s @ [c, newline]) = trimLeft (s @ [c])"
    using assms by (auto simp: trimSpace_def trimRight_newline [of "u @ [c]", simplified]
        trimRight_plain trimRight.simps [of "[]"])
  then show ?thesis by (simp add: strFields_trimLeft)
qed

lemma trimSpace_word:
  assumes "nospace w" "w \<noteq> []" "plain (last w)"
  shows "trimSpace (w @ [newline]) = w" "trimSpace w = w"
proof -
  have "spaceLen (hd w # tl w) = 0" using assms(1,2) by (cases w) auto
  then have z: "spaceLen w = 0" "spaceLen (w @ [newline]) = 0"
    using assms(2) spaceLen_append_zero [of w newline "[]"] by simp_all
  have "w = butlast w @ [last w]" using assms(2) by simp
  then have "trimRight w = w" using assms(3) trimRight_plain [of "last w" "butlast w"] by simp
  with z show "trimSpace (w @ [newline]) = w" "trimSpace w = w"
    by (simp_all add: trimSpace_def trimLeft_id trimRight_newline)
qed

section \<open>Prefixes and suffixes\<close>

definition hasPrefix :: "string \<Rightarrow> string \<Rightarrow> bool" where
  "hasPrefix s p \<longleftrightarrow> take (length p) s = p"

definition trimPrefix :: "string \<Rightarrow> string \<Rightarrow> string" where
  "trimPrefix s p = (if hasPrefix s p then drop (length p) s else s)"

definition hasSuffix :: "string \<Rightarrow> string \<Rightarrow> bool" where
  "hasSuffix s p \<longleftrightarrow> length p \<le> length s \<and> drop (length s - length p) s = p"

definition trimSuffix :: "string \<Rightarrow> string \<Rightarrow> string" where
  "trimSuffix s p = (if hasSuffix s p then take (length s - length p) s else s)"

lemma hasPrefix_append [simp]: "hasPrefix (p @ s) p"
  by (simp add: hasPrefix_def)

lemma trimPrefix_append [simp]: "trimPrefix (p @ s) p = s"
  by (simp add: trimPrefix_def)

lemma trimSuffix_append [simp]: "trimSuffix (s @ p) p = s"
  by (simp add: trimSuffix_def hasSuffix_def)

section \<open>Numbers\<close>

text \<open>\<open>%d\<close> and \<open>%x\<close> of a natural number: its digits, most significant first.\<close>

function fmtNat :: "nat \<Rightarrow> nat \<Rightarrow> string" where
  "fmtNat b n = (if b < 2 \<or> n < b then [hexDigit n] else fmtNat b (n div b) @ [hexDigit (n mod b)])"
  by pat_completeness auto
termination
  by (relation "measure snd") (auto simp: div_less_dividend)

declare fmtNat.simps [simp del]

definition fmtInt :: "int \<Rightarrow> string" where
  "fmtInt x = (if x < 0 then CHR ''-'' # fmtNat 10 (nat (- x)) else fmtNat 10 (nat x))"

definition digitVal :: "byte \<Rightarrow> nat option" where
  "digitVal c =
     (if 48 \<le> code c \<and> code c \<le> 57 then Some (code c - 48)
      else if 97 \<le> code c \<and> code c \<le> 122 then Some (code c - 87)
      else if 65 \<le> code c \<and> code c \<le> 90 then Some (code c - 55)
      else None)"

datatype num_error = ErrSyntax | ErrRange

text \<open>The digit loop of \<open>strconv.ParseUint\<close>; the first offending digit decides the error.\<close>

fun parseDigits :: "nat \<Rightarrow> nat \<Rightarrow> nat \<Rightarrow> string \<Rightarrow> num_error + nat" where
  "parseDigits base maxVal n [] = Inr n"
| "parseDigits base maxVal n (c # cs) =
     (case digitVal c of
        None \<Rightarrow> Inl ErrSyntax
      | Some d \<Rightarrow>
          if base \<le> d then Inl ErrSyntax
          else if maxVal < n * base + d then Inl ErrRange
          else parseDigits base maxVal (n * base + d) cs)"

definition numError :: "string \<Rightarrow> string \<Rightarrow> num_error \<Rightarrow> go_error" where
  "numError fname s e = Quotef (''strconv.'' @ fname @ '': parsing '') s
     (case e of ErrSyntax \<Rightarrow> '': invalid syntax'' | ErrRange \<Rightarrow> '': value out of range'')"

definition parseUint :: "string \<Rightarrow> nat \<Rightarrow> nat \<Rightarrow> nat result" where
  "parseUint s base bitSize =
     (if s = [] then Inl (numError ''ParseUint'' s ErrSyntax)
      else case parseDigits base (2 ^ bitSize - 1) 0 s of
        Inl e \<Rightarrow> Inl (numError ''ParseUint'' s e)
      | Inr n \<Rightarrow> Inr n)"

definition atoiSign :: "string \<Rightarrow> bool \<times> string" where
  "atoiSign s =
     (case s of
        [] \<Rightarrow> (False, [])
      | c # cs \<Rightarrow> if c = CHR ''-'' then (True, cs) else if c = CHR ''+'' then (False, cs) else (False, s))"

definition atoi :: "string \<Rightarrow> int result" where
  "atoi s =
     (case atoiSign s of (neg, ds) \<Rightarrow>
        if ds = [] then Inl (numError ''Atoi'' s ErrSyntax)
        else case parseDigits 10 (2 ^ 64 - 1) 0 ds of
          Inl e \<Rightarrow> Inl (numError ''Atoi'' s e)
        | Inr n \<Rightarrow>
            if \<not> neg \<and> 2 ^ 63 \<le> n \<or> neg \<and> 2 ^ 63 < n then Inl (numError ''Atoi'' s ErrRange)
            else Inr (if neg then - int n else int n))"

lemma hexDigit_values [go_text]:
  "hexDigit 0 = CHR ''0''" "hexDigit 1 = CHR ''1''" "hexDigit (Suc 0) = CHR ''1''"
  "hexDigit 2 = CHR ''2''" "hexDigit 3 = CHR ''3''" "hexDigit 4 = CHR ''4''"
  "hexDigit 5 = CHR ''5''" "hexDigit 6 = CHR ''6''" "hexDigit 7 = CHR ''7''"
  "hexDigit 8 = CHR ''8''" "hexDigit 9 = CHR ''9''" "hexDigit 10 = CHR ''a''"
  "hexDigit 11 = CHR ''b''" "hexDigit 12 = CHR ''c''" "hexDigit 13 = CHR ''d''"
  "hexDigit 14 = CHR ''e''" "hexDigit 15 = CHR ''f''"
  by code_simp+

lemmas fmtNat_eval [go_text] = fmtNat.simps

lemma code_hexDigit: "d < 36 \<Longrightarrow> code (hexDigit d) = (if d < 10 then 48 + d else 87 + d)"
  by (simp add: hexDigit_def)

lemma digitVal_hexDigit: "d < 36 \<Longrightarrow> digitVal (hexDigit d) = Some d"
  by (simp add: digitVal_def code_hexDigit)

lemma plain_hexDigit: "d < 36 \<Longrightarrow> plain (hexDigit d)"
  by (simp add: plain_def asciiSpace_def code_hexDigit)

lemma parseDigits_append:
  "parseDigits b m n (xs @ ys) =
     (case parseDigits b m n xs of Inl e \<Rightarrow> Inl e | Inr k \<Rightarrow> parseDigits b m k ys)"
  by (induction xs arbitrary: n) (auto split: option.splits)

lemma parseDigits_fmtNat:
  "2 \<le> b \<Longrightarrow> b \<le> 36 \<Longrightarrow> n \<le> m \<Longrightarrow> parseDigits b m 0 (fmtNat b n) = Inr n"
proof (induction b n rule: fmtNat.induct)
  case (1 b n)
  show ?case
  proof (cases "n < b")
    case True
    with "1.prems" show ?thesis
      by (subst fmtNat.simps) (simp add: digitVal_hexDigit)
  next
    case False
    with "1.prems" have "parseDigits b m 0 (fmtNat b (n div b)) = Inr (n div b)"
      by (intro "1.IH") (auto intro: order_trans [OF div_le_dividend])
    moreover have digit: "n mod b < b" using "1.prems" by simp
    then have "n mod b < 36" using "1.prems" by linarith
    moreover have "(b \<le> n mod b) = False" using digit by (simp only: not_le simp_thms)
    ultimately show ?thesis
      using False "1.prems"
      by (subst fmtNat.simps) (simp add: parseDigits_append digitVal_hexDigit)
  qed
qed

lemma fmtNat_digits: "2 \<le> b \<Longrightarrow> b \<le> 36 \<Longrightarrow> c \<in> set (fmtNat b n) \<Longrightarrow> \<exists>d < b. c = hexDigit d"
proof (induction b n rule: fmtNat.induct)
  case (1 b n)
  show ?case
  proof (cases "n < b")
    case True
    with "1.prems" show ?thesis by (simp add: fmtNat.simps [of b n]) blast
  next
    case False
    with "1.prems" consider "c \<in> set (fmtNat b (n div b))" | "c = hexDigit (n mod b)"
      by (auto simp: fmtNat.simps [of b n])
    then show ?thesis
      using "1.IH" "1.prems" False by cases (auto intro!: exI [of _ "n mod b"])
  qed
qed

lemma fmtNat_plain: "2 \<le> b \<Longrightarrow> b \<le> 36 \<Longrightarrow> c \<in> set (fmtNat b n) \<Longrightarrow> plain c"
  using fmtNat_digits [of b c n] by (auto simp: plain_hexDigit)

lemma fmtNat_nonempty [simp]: "fmtNat b n \<noteq> []"
  by (subst fmtNat.simps) simp

definition isDigit :: "byte \<Rightarrow> bool" where
  "isDigit c \<longleftrightarrow> 48 \<le> code c \<and> code c \<le> 57"

lemma isDigit_hexDigit: "d < 10 \<Longrightarrow> isDigit (hexDigit d)"
  by (simp add: isDigit_def code_hexDigit)

lemma isDigit_fmtNat: "c \<in> set (fmtNat 10 n) \<Longrightarrow> isDigit c"
  using fmtNat_digits [of 10 c n] isDigit_hexDigit by fastforce

lemma digit_first: "isDigit (hd (fmtNat 10 n))"
  using isDigit_fmtNat hd_in_set fmtNat_nonempty by blast

lemma nospace_fmtNat: "2 \<le> b \<Longrightarrow> b \<le> 36 \<Longrightarrow> nospace (fmtNat b n)"
  by (intro nospace_plain) (auto intro: fmtNat_plain)

lemma parseUint_fmtNat:
  "2 \<le> b \<Longrightarrow> b \<le> 36 \<Longrightarrow> n < 2 ^ bits \<Longrightarrow> parseUint (fmtNat b n) b bits = Inr n"
  by (simp add: parseUint_def parseDigits_fmtNat)

lemma atoiSign_fmtNat: "atoiSign (fmtNat 10 n) = (False, fmtNat 10 n)"
proof -
  obtain c cs where s: "fmtNat 10 n = c # cs" by (cases "fmtNat 10 n") auto
  then obtain d where d: "d < 10" "c = hexDigit d"
    using fmtNat_digits [of 10 c n] by auto
  then have "code c = 48 + d" by (simp add: code_hexDigit)
  with d(1) have "c \<noteq> CHR ''-''" "c \<noteq> CHR ''+''" by auto
  with s show ?thesis by (simp add: atoiSign_def)
qed

lemma atoi_fmtInt: "is_int64 x \<Longrightarrow> atoi (fmtInt x) = Inr x"
proof (cases "x < 0")
  case True
  assume "is_int64 x"
  with True have "nat (- x) \<le> 2 ^ 63" by (simp add: is_int64_def nat_le_iff)
  with True show ?thesis
    by (simp add: atoi_def fmtInt_def atoiSign_def parseDigits_fmtNat)
next
  case False
  assume "is_int64 x"
  with False have "nat x < 2 ^ 63" by (simp add: is_int64_def nat_less_iff)
  with False show ?thesis
    by (simp add: atoi_def fmtInt_def atoiSign_fmtNat parseDigits_fmtNat)
qed

lemma fmtInt_nonempty [simp]: "fmtInt x \<noteq> []"
  by (simp add: fmtInt_def)

lemma fmtInt_plain: "c \<in> set (fmtInt x) \<Longrightarrow> plain c"
  using fmtNat_plain [of 10 c]
  by (auto simp: fmtInt_def plain_def asciiSpace_def split: if_splits)

lemma nospace_fmtInt: "nospace (fmtInt x)"
  by (intro nospace_plain) (auto intro: fmtInt_plain)

end
