(* ===== verification/MergeProfile.thy ===== *)
theory MergeProfile
  imports Kinds GoText
begin

text \<open>
  \<open>internal/protocol/merge_profile.go\<close>: the mask of core streams the client will not
  send, its control-channel line, and the ways a client builds it.
\<close>

unbundle bit_operations_syntax

definition MissingEC :: "8 word" where "MissingEC = 1"
definition MissingOC :: "8 word" where "MissingOC = 2"
definition MissingEN :: "8 word" where "MissingEN = 4"
definition MissingON :: "8 word" where "MissingON = 8"

lemmas missing_bits = MissingEC_def MissingOC_def MissingEN_def MissingON_def

record merge_profile =
  MissingMask :: "8 word"

definition missingKinds :: "merge_profile \<Rightarrow> particle_kind list" where
  "missingKinds p =
     (if MissingMask p AND MissingEC \<noteq> 0 then [EvenCypher] else []) @
     (if MissingMask p AND MissingOC \<noteq> 0 then [OddCypher] else []) @
     (if MissingMask p AND MissingEN \<noteq> 0 then [EvenNoise] else []) @
     (if MissingMask p AND MissingON \<noteq> 0 then [OddNoise] else [])"

definition missingMap :: "merge_profile \<Rightarrow> (particle_kind \<rightharpoonup> bool)" where
  "missingMap p = fold (\<lambda>kind m. m(kind \<mapsto> True)) (missingKinds p) Map.empty"

definition formatProfileLine :: "merge_profile \<Rightarrow> string" where
  "formatProfileLine p = ''profile '' @ fmtNat 16 (unat (MissingMask p)) @ [newline]"

definition parseProfileLine :: "string \<Rightarrow> merge_profile result" where
  "parseProfileLine line =
     (case strFields (trimSpace line) of
        [w, hex] \<Rightarrow>
          if w \<noteq> ''profile'' then Inl (Quotef ''invalid profile line '' line '''')
          else (case parseUint hex 16 8 of
            Inl e \<Rightarrow> Inl (QuoteWrapf ''parse profile mask '' hex '''' e)
          | Inr v \<Rightarrow>
              let mask = (of_nat v :: 64 word) in
              if mask AND NOT (ucast (MissingEC OR MissingOC OR MissingEN OR MissingON)) \<noteq> 0
              then Inl (Errorf (''profile mask 0x'' @ fmtNat 16 v @ '' has unknown bits''))
              else Inr \<lparr>MissingMask = ucast mask\<rparr>)
      | _ \<Rightarrow> Inl (Quotef ''invalid profile line '' line ''''))"

text \<open>The mask loop of \<open>MergeProfileFromInventory\<close> over the missing core particles.\<close>

definition kindBit :: "particle_kind \<Rightarrow> 8 word" where
  "kindBit kind =
     (case kind of
        EvenCypher \<Rightarrow> MissingEC
      | OddCypher \<Rightarrow> MissingOC
      | EvenNoise \<Rightarrow> MissingEN
      | OddNoise \<Rightarrow> MissingON
      | _ \<Rightarrow> 0)"

definition maskOfKinds :: "particle_kind list \<Rightarrow> 8 word" where
  "maskOfKinds kinds = fold (\<lambda>kind m. m OR kindBit kind) kinds 0"

fun skipMask :: "8 word \<Rightarrow> string list \<Rightarrow> (8 word) result" where
  "skipMask m [] = Inr m"
| "skipMask m (key # skipped) =
     (if key = ''ec'' then skipMask (m OR MissingEC) skipped
      else if key = ''oc'' then skipMask (m OR MissingOC) skipped
      else if key = ''en'' then skipMask (m OR MissingEN) skipped
      else if key = ''on'' then skipMask (m OR MissingON) skipped
      else Inl (Quotef ''unknown skip kind '' key ''''))"

definition mergeProfileFromSkipKinds :: "string list \<Rightarrow> merge_profile result" where
  "mergeProfileFromSkipKinds skipped =
     (case skipMask 0 skipped of Inl e \<Rightarrow> Inl e | Inr m \<Rightarrow> Inr \<lparr>MissingMask = m\<rparr>)"

definition validateProfile :: "merge_profile \<Rightarrow> unit result" where
  "validateProfile p =
     (if MissingMask p AND MissingEC \<noteq> 0 \<and> MissingMask p AND MissingOC \<noteq> 0
      then Inl (Errorf ''both cypher core particles missing'')
      else if MissingMask p AND MissingEN \<noteq> 0 \<and> MissingMask p AND MissingON \<noteq> 0
      then Inl (Errorf ''both noise core particles missing'')
      else Inr ())"

section \<open>Bits of the mask\<close>

lemma and_exp_bit: "(m AND (2 ^ n :: 8 word)) \<noteq> 0 \<longleftrightarrow> bit m n"
  using and_exp_eq_0_iff_not_bit [of m n] by blast

lemma missing_bit_EC: "m AND MissingEC \<noteq> 0 \<longleftrightarrow> bit m 0"
  and missing_bit_OC: "m AND MissingOC \<noteq> 0 \<longleftrightarrow> bit m 1"
  and missing_bit_EN: "m AND MissingEN \<noteq> 0 \<longleftrightarrow> bit m 2"
  and missing_bit_ON: "m AND MissingON \<noteq> 0 \<longleftrightarrow> bit m 3"
  using and_exp_bit [of m 0] and_exp_bit [of m 1] and_exp_bit [of m 2] and_exp_bit [of m 3]
  by (simp_all add: missing_bits)

lemmas missing_bit = missing_bit_EC missing_bit_OC missing_bit_EN missing_bit_ON

text \<open>The number of the mask bit of a kind; no byte has a bit 8.\<close>

definition kindIndex :: "particle_kind \<Rightarrow> nat" where
  "kindIndex k =
     (case k of EvenCypher \<Rightarrow> 0 | OddCypher \<Rightarrow> 1 | EvenNoise \<Rightarrow> 2 | OddNoise \<Rightarrow> 3 | _ \<Rightarrow> 8)"

lemma bit_8_byte [simp]: "\<not> bit (m :: 8 word) 8"
  using bit_imp_le_length [of m 8] by auto

lemma set_missingKinds: "k \<in> set (missingKinds p) \<longleftrightarrow> bit (MissingMask p) (kindIndex k)"
  by (cases k) (auto simp: missingKinds_def missing_bit kindIndex_def)

lemma mget_fold_True: "mget (fold (\<lambda>k m. m(k \<mapsto> True)) ks m0) k \<longleftrightarrow> k \<in> set ks \<or> mget m0 k"
  by (induction ks arbitrary: m0) auto

lemma mget_missingMap: "mget (missingMap p) k \<longleftrightarrow> bit (MissingMask p) (kindIndex k)"
  by (simp add: missingMap_def mget_fold_True set_missingKinds)

lemma bit_kindBit: "bit (kindBit k) n \<longleftrightarrow> n = kindIndex k \<and> k \<in> core_kinds"
proof -
  have "bit (1 :: 8 word) n \<longleftrightarrow> n = 0" "bit (2 :: 8 word) n \<longleftrightarrow> n = 1"
    "bit (4 :: 8 word) n \<longleftrightarrow> n = 2" "bit (8 :: 8 word) n \<longleftrightarrow> n = 3"
    using bit_exp_iff [where 'a = "8 word", of 0 n] bit_exp_iff [where 'a = "8 word", of 1 n]
      bit_exp_iff [where 'a = "8 word", of 2 n] bit_exp_iff [where 'a = "8 word", of 3 n]
    by auto
  then show ?thesis
    by (cases k) (auto simp: kindBit_def missing_bits kindIndex_def core_kinds_def)
qed

lemma bit_fold_kindBit:
  "bit (fold (\<lambda>k m. m OR kindBit k) ks m0) n \<longleftrightarrow>
     bit m0 n \<or> (\<exists>k \<in> set ks \<inter> core_kinds. n = kindIndex k)"
  by (induction ks arbitrary: m0) (auto simp: bit_or_iff bit_kindBit)

lemma kindIndex_inj: "k \<in> core_kinds \<Longrightarrow> kindIndex k = kindIndex k' \<longleftrightarrow> k = k'"
  by (cases k') (auto simp: core_kinds_def kindIndex_def)

lemma kindIndex_noncore: "k \<notin> core_kinds \<Longrightarrow> kindIndex k = 8"
  by (cases k) (auto simp: core_kinds_def kindIndex_def)

lemma bit_maskOfKinds: "bit (maskOfKinds ks) (kindIndex k) \<longleftrightarrow> k \<in> core_kinds \<and> k \<in> set ks"
proof (cases "k \<in> core_kinds")
  case True
  then show ?thesis
    by (auto simp: maskOfKinds_def bit_fold_kindBit kindIndex_inj)
next
  case False
  then show ?thesis by (simp add: kindIndex_noncore)
qed

lemma missingMap_maskOfKinds:
  "mget (missingMap \<lparr>MissingMask = maskOfKinds ks\<rparr>) k \<longleftrightarrow> k \<in> core_kinds \<and> k \<in> set ks"
  by (simp add: mget_missingMap bit_maskOfKinds)

lemma maskOfKinds_bound: "unat (maskOfKinds ks) < 16"
proof -
  have "\<not> bit (maskOfKinds ks) n" if "4 \<le> n" for n
    using that by (auto simp: maskOfKinds_def bit_fold_kindBit kindIndex_def core_kinds_def)
  then have "take_bit 4 (maskOfKinds ks) = maskOfKinds ks"
    by (metis bit_eq_iff bit_take_bit_iff not_le)
  then have "take_bit 4 (unat (maskOfKinds ks)) = unat (maskOfKinds ks)"
    by (metis unsigned_take_bit_eq)
  then show ?thesis by (simp add: take_bit_nat_eq_self_iff)
qed

section \<open>The profile line\<close>

lemma known_bits:
  assumes "v < 256"
  shows "(of_nat v :: 64 word) AND NOT (ucast (MissingEC OR MissingOC OR MissingEN OR MissingON)) = 0
    \<longleftrightarrow> v < 16"
proof -
  let ?w = "of_nat v :: 64 word"
  have m: "(ucast (MissingEC OR MissingOC OR MissingEN OR MissingON) :: 64 word) = mask 4"
    by (simp add: missing_bits mask_eq_exp_minus_1)
  have "?w AND NOT (mask 4) = 0 \<longleftrightarrow> take_bit 4 ?w = ?w"
    by (auto simp: bit_eq_iff bit_and_iff bit_not_iff bit_mask_iff bit_take_bit_iff
        dest: bit_imp_possible_bit)
  also have "\<dots> \<longleftrightarrow> take_bit 4 (unat ?w) = unat ?w"
    by (metis unsigned_take_bit_eq word_unat_eq_iff)
  also have "\<dots> \<longleftrightarrow> unat ?w < 16"
    by (simp add: take_bit_nat_eq_self_iff)
  finally show ?thesis using assms by (simp add: m unat_of_nat)
qed

lemma ucast_small: "v < 256 \<Longrightarrow> (ucast (of_nat v :: 64 word) :: 8 word) = of_nat v"
  by (simp add: word_unat_eq_iff unsigned_ucast_eq take_bit_nat_eq_self unat_of_nat)

lemma parseDigits_bound: "n \<le> m \<Longrightarrow> parseDigits b m n s = Inr v \<Longrightarrow> v \<le> m"
  by (induction s arbitrary: n) (auto simp: not_less split: option.splits if_splits)

lemma parseUint_bound: "parseUint s b bits = Inr v \<Longrightarrow> v < 2 ^ bits"
  using parseDigits_bound [of 0 "2 ^ bits - 1" b s v]
  by (auto simp: parseUint_def le_diff_conv2 Suc_le_eq split: if_splits sum.splits)

lemma parseProfileLine_Inr:
  "parseProfileLine line = Inr p \<longleftrightarrow>
     (\<exists>hex v. strFields (trimSpace line) = [''profile'', hex] \<and> parseUint hex 16 8 = Inr v \<and>
        v < 16 \<and> p = \<lparr>MissingMask = of_nat v\<rparr>)"
proof -
  have "parseUint hex 16 8 = Inr v \<Longrightarrow> v < 256" for hex v
    using parseUint_bound [of hex 16 8 v] by simp
  then show ?thesis
    by (auto simp: parseProfileLine_def Let_def known_bits ucast_small
        split: list.splits sum.splits if_splits)
qed

lemma profile_line_fields:
  "strFields (trimSpace (formatProfileLine p)) = [''profile'', fmtNat 16 (unat (MissingMask p))]"
proof -
  let ?h = "fmtNat 16 (unat (MissingMask p))"
  obtain ds d where h: "?h = ds @ [d]" by (cases ?h rule: rev_cases) auto
  have d: "plain d" using fmtNat_plain [of 16 d "unat (MissingMask p)"] h by simp
  have "formatProfileLine p = (''profile '' @ ds) @ [d, newline]"
    by (simp add: formatProfileLine_def h)
  then have "strFields (trimSpace (formatProfileLine p)) = strFields ((''profile '' @ ds) @ [d])"
    by (simp only: strFields_trimSpace_line [OF d])
  also have "(''profile '' @ ds) @ [d] = ''profile'' @ CHR '' '' # ?h"
    by (simp add: h)
  also have "strFields \<dots> = ''profile'' # strFields ?h"
    by (rule strFields_cons) (simp_all add: asciiSpace_def)
  also have "strFields ?h = [?h]"
    by (rule strFields_word) (simp_all add: nospace_fmtNat)
  finally show ?thesis .
qed

lemma parseProfileLine_hex:
  assumes "strFields (trimSpace line) = [''profile'', fmtNat 16 v]" "v < 256"
  shows "parseProfileLine line =
     (if v < 16 then Inr \<lparr>MissingMask = of_nat v\<rparr>
      else Inl (Errorf (''profile mask 0x'' @ fmtNat 16 v @ '' has unknown bits'')))"
  using assms
  by (simp add: parseProfileLine_def parseUint_fmtNat known_bits ucast_small Let_def)

lemma parse_formatted:
  "parseProfileLine (formatProfileLine p) =
     (if unat (MissingMask p) < 16 then Inr p
      else Inl (Errorf (''profile mask 0x'' @ fmtNat 16 (unat (MissingMask p)) @ '' has unknown bits'')))"
proof -
  have "unat (MissingMask p) < 256" using unsigned_less [of "MissingMask p"] by simp
  then show ?thesis
    by (simp add: parseProfileLine_hex [OF profile_line_fields])
qed

text \<open>
  C23: the profile line round trip.  A formatted mask parses back to itself exactly when it
  has no bit above the four core bits; any other mask is refused, with an error that names it.
\<close>

theorem profile_line_roundtrip:
  "parseProfileLine (formatProfileLine p) =
     (if unat (MissingMask p) < 16 then Inr p
      else Inl (Errorf (''profile mask 0x'' @ fmtNat 16 (unat (MissingMask p)) @ '' has unknown bits'')))"
  by (rule parse_formatted)

text \<open>
  Whatever a client sends, a profile that the parser accepts has only core bits, so the
  missing map it yields names core kinds only, and validation accepts it exactly when no
  pair of cores is missing.
\<close>

theorem parsed_profile_validates:
  assumes "parseProfileLine line = Inr p"
  shows "unat (MissingMask p) < 16
    \<and> (\<forall>k. mget (missingMap p) k \<longrightarrow> k \<in> core_kinds)
    \<and> (validateProfile p = Inr () \<longleftrightarrow>
         \<not> (mget (missingMap p) EvenCypher \<and> mget (missingMap p) OddCypher) \<and>
         \<not> (mget (missingMap p) EvenNoise \<and> mget (missingMap p) OddNoise))"
proof -
  have "k \<in> core_kinds" if "mget (missingMap p) k" for k
    using that kindIndex_noncore [of k] by (cases "k \<in> core_kinds") (auto simp: mget_missingMap)
  moreover have "unat (MissingMask p) < 16"
    using assms by (auto simp: parseProfileLine_Inr unat_of_nat)
  ultimately show ?thesis
    by (simp add: validateProfile_def missing_bit mget_missingMap kindIndex_def)
qed

theorem parsed_profile_validates_witness:
  "parseProfileLine (''profile 9'' @ [newline]) = Inr \<lparr>MissingMask = 9\<rparr>
   \<and> validateProfile \<lparr>MissingMask = 9\<rparr> = Inr ()"
proof -
  have line: "formatProfileLine \<lparr>MissingMask = 9\<rparr> = ''profile 9'' @ [newline]"
    by code_simp
  have parse: "parseProfileLine (''profile 9'' @ [newline]) = Inr \<lparr>MissingMask = 9\<rparr>"
    using parse_formatted [of "\<lparr>MissingMask = 9\<rparr>"] by (simp add: line)
  from parsed_profile_validates [OF parse] parse show ?thesis
    by (simp add: mget_missingMap kindIndex_def)
qed

section \<open>Profiles from skip keys\<close>

fun skipKind :: "string \<Rightarrow> particle_kind option" where
  "skipKind key =
     (if key = ''ec'' then Some EvenCypher
      else if key = ''oc'' then Some OddCypher
      else if key = ''en'' then Some EvenNoise
      else if key = ''on'' then Some OddNoise
      else None)"

lemma skipMask_step:
  "skipMask m (key # keys) =
     (case skipKind key of
        None \<Rightarrow> Inl (Quotef ''unknown skip kind '' key '''')
      | Some k \<Rightarrow> skipMask (m OR kindBit k) keys)"
  by (simp add: kindBit_def)

declare skipKind.simps [simp del]

lemma skipMask_spec:
  "skipMask m keys =
     (case find (\<lambda>key. skipKind key = None) keys of
        Some key \<Rightarrow> Inl (Quotef ''unknown skip kind '' key '''')
      | None \<Rightarrow> Inr (fold (\<lambda>k m. m OR kindBit k) (map (the \<circ> skipKind) keys) m))"
  by (induction keys arbitrary: m) (auto simp: skipMask_step simp del: skipMask.simps(2) split: option.split)

text \<open>
  A skip list declares missing exactly the kinds it names, in any order and however
  often; the first unknown key is reported.
\<close>

theorem skip_kinds_spec:
  "mergeProfileFromSkipKinds keys =
     (case find (\<lambda>key. skipKind key = None) keys of
        Some key \<Rightarrow> Inl (Quotef ''unknown skip kind '' key '''')
      | None \<Rightarrow> Inr \<lparr>MissingMask = maskOfKinds (map (the \<circ> skipKind) keys)\<rparr>)
   \<and> (\<forall>k ks. mget (missingMap \<lparr>MissingMask = maskOfKinds ks\<rparr>) k =
        (k \<in> core_kinds \<and> k \<in> set ks))"
  by (auto simp: mergeProfileFromSkipKinds_def skipMask_spec maskOfKinds_def [symmetric]
      missingMap_maskOfKinds split: option.split)

end
