(* ===== verification/GoPath.thy ===== *)
theory GoPath
  imports Prelude
begin

text \<open>
  The part of Go's \<open>path/filepath\<close> the program uses, for Unix paths: \<open>Clean\<close>, \<open>Join\<close>,
  \<open>Base\<close>, \<open>Ext\<close> and \<open>Dir\<close>.
\<close>

fun splitOn :: "char \<Rightarrow> string \<Rightarrow> string list" where
  "splitOn c [] = [[]]"
| "splitOn c (x # xs) =
     (if x = c then [] # splitOn c xs
      else case splitOn c xs of [] \<Rightarrow> [[x]] | w # ws \<Rightarrow> (x # w) # ws)"

fun joinOn :: "string \<Rightarrow> string list \<Rightarrow> string" where
  "joinOn sep [] = []"
| "joinOn sep [w] = w"
| "joinOn sep (w # v # vs) = w @ sep @ joinOn sep (v # vs)"

abbreviation slash :: char where
  "slash \<equiv> CHR ''/''"

text \<open>\<open>Clean\<close>: the components are kept on a stack, last component first.\<close>

definition cleanStep :: "bool \<Rightarrow> string \<Rightarrow> string list \<Rightarrow> string list" where
  "cleanStep rooted part stack =
     (if part = [] \<or> part = ''.'' then stack
      else if part = ''..''
      then (case stack of
              [] \<Rightarrow> if rooted then [] else [part]
            | d # rest \<Rightarrow> if d = ''..'' then part # stack else rest)
      else part # stack)"

definition cleanPath :: "string \<Rightarrow> string" where
  "cleanPath s =
     (let rooted = (case s of [] \<Rightarrow> False | c # _ \<Rightarrow> c = slash);
          body = joinOn ''/'' (rev (fold (cleanStep rooted) (splitOn slash s) []))
      in if rooted then slash # body else if body = [] then ''.'' else body)"

definition pathJoin :: "string list \<Rightarrow> string" where
  "pathJoin elems =
     (case dropWhile (\<lambda>e. e = []) elems of
        [] \<Rightarrow> []
      | ws \<Rightarrow> cleanPath (joinOn ''/'' ws))"

definition stripSlashes :: "string \<Rightarrow> string" where
  "stripSlashes s = rev (dropWhile (\<lambda>c. c = slash) (rev s))"

definition pathBase :: "string \<Rightarrow> string" where
  "pathBase s =
     (if s = [] then ''.''
      else let t = stripSlashes s in if t = [] then ''/'' else last (splitOn slash t))"

text \<open>\<open>Dir\<close>: everything up to and including the last slash, cleaned.\<close>

definition pathDir :: "string \<Rightarrow> string" where
  "pathDir s = cleanPath (rev (dropWhile (\<lambda>c. c \<noteq> slash) (rev s)))"

definition pathExt :: "string \<Rightarrow> string" where
  "pathExt s =
     (let r = takeWhile (\<lambda>c. c \<noteq> slash \<and> c \<noteq> CHR ''.'') (rev s) in
      case drop (length r) (rev s) of
        [] \<Rightarrow> []
      | c # _ \<Rightarrow> if c = CHR ''.'' then c # rev r else [])"

lemma splitOn_neq_Nil [simp]: "splitOn c s \<noteq> []"
  by (induction s) (auto split: list.split)

lemma splitOn_free: "c \<notin> set s \<Longrightarrow> splitOn c s = [s]"
  by (induction s) auto

lemma splitOn_append: "c \<notin> set w \<Longrightarrow> splitOn c (w @ c # s) = w # splitOn c s"
  by (induction w) (auto split: list.split)

lemma joinOn_Cons: "ws \<noteq> [] \<Longrightarrow> joinOn sep (w # ws) = w @ sep @ joinOn sep ws"
  by (cases ws) auto

lemma joinOn_push: "joinOn sep ((x # w) # ws) = x # joinOn sep (w # ws)"
  by (cases ws) auto

lemma joinOn_splitOn: "joinOn [c] (splitOn c s) = s"
proof (induction s)
  case (Cons x xs)
  then show ?case
    by (cases "splitOn c xs") (auto simp: joinOn_Cons joinOn_push)
qed simp

lemma splitOn_pieces: "w \<in> set (splitOn c s) \<Longrightarrow> c \<notin> set w"
  by (induction s arbitrary: w) (auto split: list.splits if_splits)

text \<open>A base name has no slash in it, unless it is the root.\<close>

lemma pathBase_slash_free: "pathBase s = ''/'' \<or> slash \<notin> set (pathBase s)"
  using splitOn_pieces [of "last (splitOn slash (stripSlashes s))" slash "stripSlashes s"]
  by (auto simp: pathBase_def Let_def)

lemma pathExt_suffix: "\<exists>n. s = n @ pathExt s"
proof -
  let ?P = "\<lambda>c. c \<noteq> slash \<and> c \<noteq> CHR ''.''"
  let ?r = "takeWhile ?P (rev s)"
  have s: "rev s = ?r @ drop (length ?r) (rev s)"
    by (simp flip: dropWhile_eq_drop)
  show ?thesis
  proof (cases "drop (length ?r) (rev s)")
    case Nil
    then show ?thesis by (simp add: pathExt_def Let_def)
  next
    case (Cons c cs)
    with s have "s = rev cs @ c # rev ?r"
      by (metis append.assoc append_Cons append_Nil rev.simps(2) rev_append rev_rev_ident)
    with Cons show ?thesis by (auto simp: pathExt_def Let_def)
  qed
qed

lemma pathExt_dot: "pathExt s \<noteq> [] \<Longrightarrow> \<exists>e. pathExt s = CHR ''.'' # e"
  by (auto simp: pathExt_def Let_def split: list.splits if_splits)

end
