(* ===== verification/Store.thy ===== *)
theory Store
  imports MergePlan MergeProfile GoPath
begin

text \<open>
  \<open>internal/store\<close>: where the six particle files of an object live, what is there
  (\<open>inventory.go\<close>), how one is opened (\<open>particle_io.go\<close>), and \<open>MergeProfileFromInventory\<close>
  of \<open>internal/protocol/merge_profile.go\<close>, which turns an inventory into a profile.

  The file system is what \<open>os.Stat\<close> answers for a path: an error, a directory with the size
  the system reports for it, or a file with its bytes.
\<close>

datatype node = Dir int | File bytes

type_synonym fs = "string \<Rightarrow> node result"

fun fileSize :: "node \<Rightarrow> int" where
  "fileSize (Dir n) = n"
| "fileSize (File bs) = int (length bs)"

fun isDir :: "node \<Rightarrow> bool" where
  "isDir (Dir n) = True"
| "isDir (File bs) = False"

section \<open>Paths\<close>

definition particleRelPath :: "pcs_module \<Rightarrow> string \<Rightarrow> particle_kind \<Rightarrow> string" where
  "particleRelPath M baseName kind = pathJoin [storageForParticle M kind, shardKey M baseName kind]"

definition particlePath :: "pcs_module \<Rightarrow> string \<Rightarrow> string \<Rightarrow> particle_kind \<Rightarrow> string" where
  "particlePath M baseDir baseName kind = pathJoin [baseDir, particleRelPath M baseName kind]"

definition minParticleFileSize :: "pcs_module \<Rightarrow> nat" where
  "minParticleFileSize M = footerSize M"

definition reconstructedFileName :: "string \<Rightarrow> string" where
  "reconstructedFileName baseName =
     (let ext = pathExt baseName in
      if ext = [] then baseName @ ''_reconstructed''
      else let name = take (length baseName - length ext) baseName in
        name @ ''_reconstructed'' @ ext)"

definition storageDirs :: "pcs_module \<Rightarrow> string list" where
  "storageDirs M = [storageA M, storageB M, storageC M]"

text \<open>
  \<open>os.MkdirAll\<close>: the parent first, then the directory itself.  \<open>mk\<close> is what \<open>mkdir\<close> answers
  for a path that is not there yet.  \<open>upTo\<close> is the path up to the slash before its last
  component.
\<close>

definition upTo :: "string \<Rightarrow> string" where
  "upTo path = rev (dropWhile (\<lambda>c. c \<noteq> slash) (dropWhile (\<lambda>c. c = slash) (rev path)))"

lemma upTo_shorter: "path \<noteq> [] \<Longrightarrow> length (upTo path) < length path"
proof -
  assume "path \<noteq> []"
  then obtain c cs where r: "rev path = c # cs" by (cases "rev path") auto
  have n: "length (upTo path) \<le> length cs"
    using r length_dropWhile_le [of "\<lambda>c. c \<noteq> slash" "dropWhile (\<lambda>c. c = slash) cs"]
      length_dropWhile_le [of "\<lambda>c. c = slash" cs] length_dropWhile_le [of "\<lambda>c. c \<noteq> slash" cs]
    by (auto simp: upTo_def)
  have "length path = Suc (length cs)" using r by (metis length_Cons length_rev)
  with n show ?thesis by simp
qed

function mkdirAll :: "(string \<Rightarrow> int result) \<Rightarrow> fs \<Rightarrow> string \<Rightarrow> fs \<times> go_error option" where
  "mkdirAll mk f path =
     (case f (cleanPath path) of
        Inr (Dir n) \<Rightarrow> (f, None)
      | Inr (File bs) \<Rightarrow> (f, Some (OSError (''mkdir '' @ path @ '': not a directory'')))
      | Inl _ \<Rightarrow>
          (case (if path \<noteq> [] \<and> upTo path \<noteq> [] then mkdirAll mk f (upTo path) else (f, None)) of
             (f', Some e) \<Rightarrow> (f', Some e)
           | (f', None) \<Rightarrow>
               (case mk path of
                  Inl e \<Rightarrow> (f', Some e)
                | Inr n \<Rightarrow> (f'(cleanPath path := Inr (Dir n)), None))))"
  by pat_completeness auto
termination by (relation "measure (\<lambda>(_, _, p). length p)") (auto simp: upTo_shorter)

declare mkdirAll.simps [simp del]

fun ensureDirs :: "(string \<Rightarrow> int result) \<Rightarrow> string \<Rightarrow> string list \<Rightarrow> fs \<Rightarrow> fs \<times> go_error option" where
  "ensureDirs mk baseDir [] f = (f, None)"
| "ensureDirs mk baseDir (dir # dirs) f =
     (case mkdirAll mk f (pathJoin [baseDir, dir]) of
        (f', Some e) \<Rightarrow> (f', Some e)
      | (f', None) \<Rightarrow> ensureDirs mk baseDir dirs f')"

definition ensureStorageDirs :: "(string \<Rightarrow> int result) \<Rightarrow> pcs_module \<Rightarrow> fs \<Rightarrow> string
    \<Rightarrow> fs \<times> go_error option" where
  "ensureStorageDirs mk M f baseDir = ensureDirs mk baseDir (storageDirs M) f"

section \<open>The inventory of an object\<close>

record inventory =
  MissingStorages :: "string list"
  Present :: "particle_kind \<rightharpoonup> bool"
  Missing :: "particle_kind list"

definition missingCoreParticles :: "pcs_module \<Rightarrow> inventory \<Rightarrow> particle_kind list" where
  "missingCoreParticles M i = filter (\<lambda>kind. \<not> mget (Present i) kind) (CoreParticleKinds M)"

definition needsParityRecovery :: "pcs_module \<Rightarrow> inventory \<Rightarrow> bool" where
  "needsParityRecovery M i \<longleftrightarrow> 0 < length (missingCoreParticles M i)"

definition pcsInventory :: "pcs_module \<Rightarrow> inventory \<Rightarrow> (particle_kind \<rightharpoonup> bool)" where
  "pcsInventory M i = newInventory M (Present i)"

text \<open>The two loops of \<open>ScanInventory\<close>; \<open>%v\<close> prints a string slice in brackets.\<close>

fun scanStorages :: "fs \<Rightarrow> string \<Rightarrow> string list \<Rightarrow> inventory \<Rightarrow> inventory result" where
  "scanStorages f baseDir [] i = Inr i"
| "scanStorages f baseDir (storage # storages) i =
     (let path = pathJoin [baseDir, storage] in
      case f path of
        Inl NotExist \<Rightarrow>
          scanStorages f baseDir storages (i\<lparr>MissingStorages := MissingStorages i @ [storage]\<rparr>)
      | Inl e \<Rightarrow> Inl (Wrapf (''stat storage directory '' @ path) e)
      | Inr info \<Rightarrow>
          if \<not> isDir info then Inl (Errorf (''storage path is not a directory: '' @ path))
          else scanStorages f baseDir storages i)"

fun scanKinds :: "pcs_module \<Rightarrow> fs \<Rightarrow> string \<Rightarrow> string \<Rightarrow> particle_kind list \<Rightarrow> inventory
    \<Rightarrow> inventory result" where
  "scanKinds M f baseDir baseName [] i = Inr i"
| "scanKinds M f baseDir baseName (kind # kinds) i =
     (let path = particlePath M baseDir baseName kind in
      case f path of
        Inr info \<Rightarrow> scanKinds M f baseDir baseName kinds (i\<lparr>Present := (Present i)(kind \<mapsto> True)\<rparr>)
      | Inl NotExist \<Rightarrow>
          if kind = EvenCypher \<or> kind = OddCypher \<or> kind = EvenNoise \<or> kind = OddNoise
          then scanKinds M f baseDir baseName kinds (i\<lparr>Missing := Missing i @ [kind]\<rparr>)
          else scanKinds M f baseDir baseName kinds i
      | Inl e \<Rightarrow> Inl (Wrapf (''stat particle file '' @ path) e))"

definition fmtStrings :: "string list \<Rightarrow> string" where
  "fmtStrings ss = ''['' @ joinOn '' '' ss @ '']''"

definition scanInventory :: "pcs_module \<Rightarrow> fs \<Rightarrow> string \<Rightarrow> string \<Rightarrow> inventory result" where
  "scanInventory M f baseDir baseName =
     (case scanStorages f baseDir (storageDirs M)
             \<lparr>MissingStorages = [], Present = Map.empty, Missing = []\<rparr> of
        Inl e \<Rightarrow> Inl e
      | Inr i \<Rightarrow>
          if 2 \<le> length (MissingStorages i)
          then Inl (Errorf (''too many missing storage folders: '' @ fmtStrings (MissingStorages i)))
          else case scanKinds M f baseDir baseName (AllParticleKinds M) i of
            Inl e \<Rightarrow> Inl e
          | Inr i' \<Rightarrow>
              if needsParityRecovery M i' \<and>
                 (\<not> mget (Present i') CypherParity \<or> \<not> mget (Present i') NoiseParity)
              then Inl (Errorf ''parity particles required for recovery but not found'')
              else Inr i')"

text \<open>\<open>protocol.MergeProfileFromInventory\<close>.\<close>

definition mergeProfileFromInventory :: "pcs_module \<Rightarrow> inventory \<Rightarrow> merge_profile" where
  "mergeProfileFromInventory M i = \<lparr>MissingMask = maskOfKinds (missingCoreParticles M i)\<rparr>"

section \<open>Opening a particle file\<close>

text \<open>A successful open yields what a reader of the file sees.\<close>

definition openParticleFile :: "pcs_module \<Rightarrow> fs \<Rightarrow> (string \<Rightarrow> 'r result) \<Rightarrow> string \<Rightarrow> 'r result" where
  "openParticleFile M f osOpen path =
     (case f path of
        Inl e \<Rightarrow> Inl e
      | Inr fi \<Rightarrow>
          if fileSize fi < int (footerSize M)
          then Inl (Errorf (''particle file too short: '' @ path))
          else osOpen path)"

definition payloadLen :: "(int \<Rightarrow> int result) \<Rightarrow> fs \<Rightarrow> string \<Rightarrow> int result" where
  "payloadLen footerPayloadLen f path =
     (case f path of Inl e \<Rightarrow> Inl e | Inr fi \<Rightarrow> footerPayloadLen (fileSize fi))"

section \<open>What a scan finds\<close>

definition isThere :: "fs \<Rightarrow> string \<Rightarrow> bool" where
  "isThere f path \<longleftrightarrow> \<not> isl (f path)"

definition folderOk :: "fs \<Rightarrow> string \<Rightarrow> bool" where
  "folderOk f path \<longleftrightarrow> (case f path of Inl e \<Rightarrow> e = NotExist | Inr n \<Rightarrow> isDir n)"

definition statOk :: "fs \<Rightarrow> string \<Rightarrow> bool" where
  "statOk f path \<longleftrightarrow> (case f path of Inl e \<Rightarrow> e = NotExist | Inr n \<Rightarrow> True)"

lemmas stat_defs = isThere_def folderOk_def statOk_def

lemma scanStorages_eq:
  "\<forall>s \<in> set ss. folderOk f (pathJoin [baseDir, s]) \<Longrightarrow>
   scanStorages f baseDir ss i = Inr (i\<lparr>MissingStorages := MissingStorages i @
     filter (\<lambda>s. \<not> isThere f (pathJoin [baseDir, s])) ss\<rparr>)"
  by (induction ss arbitrary: i) (auto simp: stat_defs Let_def split: sum.splits)

text \<open>The first folder that is not as it should be decides the error.\<close>

definition folderError :: "fs \<Rightarrow> string \<Rightarrow> go_error" where
  "folderError f path = (case f path of
     Inl e \<Rightarrow> Wrapf (''stat storage directory '' @ path) e
   | Inr n \<Rightarrow> Errorf (''storage path is not a directory: '' @ path))"

lemma scanStorages_find:
  "scanStorages f baseDir ss i =
    (case find (\<lambda>s. \<not> folderOk f (pathJoin [baseDir, s])) ss of
       Some s \<Rightarrow> Inl (folderError f (pathJoin [baseDir, s]))
     | None \<Rightarrow> Inr (i\<lparr>MissingStorages := MissingStorages i @
         filter (\<lambda>s. \<not> isThere f (pathJoin [baseDir, s])) ss\<rparr>))"
proof (induction ss arbitrary: i)
  case (Cons s ss)
  show ?case
  proof (cases "folderOk f (pathJoin [baseDir, s])")
    case True
    then show ?thesis
      by (cases "f (pathJoin [baseDir, s])") (auto simp: stat_defs Let_def Cons.IH split: option.split)
  next
    case False
    then show ?thesis
      by (cases "f (pathJoin [baseDir, s])")
         (auto simp: stat_defs Let_def folderError_def split: go_error.splits)
  qed
qed simp

lemma core_kinds_iff:
  "kind = EvenCypher \<or> kind = OddCypher \<or> kind = EvenNoise \<or> kind = OddNoise \<longleftrightarrow> kind \<in> core_kinds"
  by (auto simp: core_kinds_def)

lemma scanKinds_eq:
  "\<forall>k \<in> set ks. statOk f (particlePath M baseDir baseName k) \<Longrightarrow>
   scanKinds M f baseDir baseName ks i = Inr (i\<lparr>
     Present := (\<lambda>k. if k \<in> set ks \<and> isThere f (particlePath M baseDir baseName k)
                     then Some True else Present i k),
     Missing := Missing i @ filter (\<lambda>k. k \<in> core_kinds \<and> \<not> isThere f (particlePath M baseDir baseName k)) ks\<rparr>)"
proof (induction ks arbitrary: i)
  case (Cons k ks)
  then show ?case
    by (cases "f (particlePath M baseDir baseName k)")
       (auto simp: stat_defs Let_def core_kinds_iff fun_eq_iff intro!: inventory.equality)
qed simp

definition statError :: "fs \<Rightarrow> string \<Rightarrow> go_error" where
  "statError f path = (case f path of
     Inl e \<Rightarrow> Wrapf (''stat particle file '' @ path) e
   | Inr n \<Rightarrow> Errorf [])"

lemma scanKinds_error:
  "find (\<lambda>k. \<not> statOk f (particlePath M baseDir baseName k)) ks = Some k \<Longrightarrow>
   scanKinds M f baseDir baseName ks i = Inl (statError f (particlePath M baseDir baseName k))"
proof (induction ks arbitrary: i)
  case (Cons k' ks)
  then show ?case
    by (cases "f (particlePath M baseDir baseName k')")
       (auto simp: stat_defs statError_def Let_def split: if_splits go_error.splits)
qed simp

lemma scanInventory_result:
  assumes "pcs_contract M"
    and "\<forall>s \<in> set (storageDirs M). folderOk f (pathJoin [baseDir, s])"
    and "\<forall>k \<in> all_kinds. statOk f (particlePath M baseDir baseName k)"
  shows "scanInventory M f baseDir baseName =
    (let gone = filter (\<lambda>s. \<not> isThere f (pathJoin [baseDir, s])) (storageDirs M);
         there = (\<lambda>k. isThere f (particlePath M baseDir baseName k))
     in if 2 \<le> length gone then Inl (Errorf (''too many missing storage folders: '' @ fmtStrings gone))
        else if (\<exists>k \<in> core_kinds. \<not> there k) \<and> \<not> (there CypherParity \<and> there NoiseParity)
        then Inl (Errorf ''parity particles required for recovery but not found'')
        else Inr \<lparr>MissingStorages = gone,
                  Present = (\<lambda>k. if k \<in> all_kinds \<and> there k then Some True else None),
                  Missing = filter (\<lambda>k. k \<in> core_kinds \<and> \<not> there k) (AllParticleKinds M)\<rparr>)"
  using assms(3) unfolding scanInventory_def scanStorages_eq [OF assms(2)] Let_def
  by (auto simp: scanKinds_eq pcs_contract_all [OF assms(1)] needsParityRecovery_def
      missingCoreParticles_def filter_empty_conv pcs_contract_core [OF assms(1)] mget_def
      core_kinds_def all_kinds_def)

lemma scanInventory_found:
  assumes "pcs_contract M"
    and "\<forall>s \<in> set (storageDirs M). folderOk f (pathJoin [baseDir, s])"
    and "\<forall>k \<in> all_kinds. statOk f (particlePath M baseDir baseName k)"
    and "\<not> 2 \<le> length (filter (\<lambda>s. \<not> isThere f (pathJoin [baseDir, s])) (storageDirs M))"
    and "\<exists>k \<in> core_kinds. \<not> isThere f (particlePath M baseDir baseName k) \<Longrightarrow>
      isThere f (particlePath M baseDir baseName CypherParity) \<and>
      isThere f (particlePath M baseDir baseName NoiseParity)"
  obtains i where "scanInventory M f baseDir baseName = Inr i"
    "\<And>k. mget (Present i) k \<longleftrightarrow> k \<in> all_kinds \<and> isThere f (particlePath M baseDir baseName k)"
proof -
  have "\<not> ((\<exists>k \<in> core_kinds. \<not> isThere f (particlePath M baseDir baseName k)) \<and>
      \<not> (isThere f (particlePath M baseDir baseName CypherParity) \<and>
         isThere f (particlePath M baseDir baseName NoiseParity)))"
    using assms(5) by blast
  with assms(4) that show ?thesis
    unfolding scanInventory_result [OF assms(1-3)] Let_def by (auto simp: mget_def)
qed

lemma scanInventory_all:
  assumes "pcs_contract M"
  shows "scanInventory M f baseDir baseName =
    (let gone = filter (\<lambda>s. \<not> isThere f (pathJoin [baseDir, s])) (storageDirs M);
         there = (\<lambda>k. isThere f (particlePath M baseDir baseName k))
     in case find (\<lambda>s. \<not> folderOk f (pathJoin [baseDir, s])) (storageDirs M) of
       Some s \<Rightarrow> Inl (folderError f (pathJoin [baseDir, s]))
     | None \<Rightarrow>
         if 2 \<le> length gone then Inl (Errorf (''too many missing storage folders: '' @ fmtStrings gone))
         else case find (\<lambda>k. \<not> statOk f (particlePath M baseDir baseName k)) (AllParticleKinds M) of
           Some k \<Rightarrow> Inl (statError f (particlePath M baseDir baseName k))
         | None \<Rightarrow>
             if (\<exists>k \<in> core_kinds. \<not> there k) \<and> \<not> (there CypherParity \<and> there NoiseParity)
             then Inl (Errorf ''parity particles required for recovery but not found'')
             else Inr \<lparr>MissingStorages = gone,
                       Present = (\<lambda>k. if k \<in> all_kinds \<and> there k then Some True else None),
                       Missing = filter (\<lambda>k. k \<in> core_kinds \<and> \<not> there k) (AllParticleKinds M)\<rparr>)"
proof (cases "find (\<lambda>s. \<not> folderOk f (pathJoin [baseDir, s])) (storageDirs M)")
  case (Some s)
  then show ?thesis by (simp add: scanInventory_def scanStorages_find)
next
  case None
  then have folders: "\<forall>s \<in> set (storageDirs M). folderOk f (pathJoin [baseDir, s])"
    by (simp add: find_None_iff)
  show ?thesis
  proof (cases "find (\<lambda>k. \<not> statOk f (particlePath M baseDir baseName k)) (AllParticleKinds M)")
    case stat: (Some k)
    show ?thesis by (simp add: scanInventory_def scanStorages_find None scanKinds_error [OF stat] stat Let_def)
  next
    case stat: None
    then have "\<forall>k \<in> all_kinds. statOk f (particlePath M baseDir baseName k)"
      by (simp add: find_None_iff pcs_contract_all [OF assms])
    from scanInventory_result [OF assms folders this] None stat show ?thesis by (simp add: Let_def)
  qed
qed

text \<open>
  C31: what a scan returns, on any file system: the error of the first storage folder that
  cannot be examined or is not a directory; else an error if two folders are missing; else the
  error of the first particle that cannot be examined; else an error if a core stream is
  missing, unless both parity files are there, the parity of the other pair included; otherwise
  the inventory that lists exactly what is there and what is not.
\<close>

theorem scanInventory_eq:
  assumes "pcs_contract M"
  shows "scanInventory M f baseDir baseName =
    (let gone = filter (\<lambda>s. \<not> isThere f (pathJoin [baseDir, s])) (storageDirs M);
         there = (\<lambda>k. isThere f (particlePath M baseDir baseName k))
     in case find (\<lambda>s. \<not> folderOk f (pathJoin [baseDir, s])) (storageDirs M) of
       Some s \<Rightarrow> Inl (folderError f (pathJoin [baseDir, s]))
     | None \<Rightarrow>
         if 2 \<le> length gone then Inl (Errorf (''too many missing storage folders: '' @ fmtStrings gone))
         else case find (\<lambda>k. \<not> statOk f (particlePath M baseDir baseName k)) (AllParticleKinds M) of
           Some k \<Rightarrow> Inl (statError f (particlePath M baseDir baseName k))
         | None \<Rightarrow>
             if (\<exists>k \<in> core_kinds. \<not> there k) \<and> \<not> (there CypherParity \<and> there NoiseParity)
             then Inl (Errorf ''parity particles required for recovery but not found'')
             else Inr \<lparr>MissingStorages = gone,
                       Present = (\<lambda>k. if k \<in> all_kinds \<and> there k then Some True else None),
                       Missing = filter (\<lambda>k. k \<in> core_kinds \<and> \<not> there k) (AllParticleKinds M)\<rparr>)"
  using assms by (rule scanInventory_all)

text \<open>A concrete file system: folder A and its two files are lost.\<close>

definition lostA :: fs where
  "lostA p =
     (if take 10 p = ''d/storageA'' then Inl NotExist
      else if p = ''d/storageB'' \<or> p = ''d/storageC'' then Inr (Dir 64)
      else Inr (File []))"

lemma lostA_paths:
  "pathJoin [''d'', ''storageA''] = ''d/storageA''"
  "pathJoin [''d'', ''storageB''] = ''d/storageB''"
  "pathJoin [''d'', ''storageC''] = ''d/storageC''"
  "particlePath sample_module ''d'' ''x'' EvenCypher = ''d/storageA/x.ec''"
  "particlePath sample_module ''d'' ''x'' OddCypher = ''d/storageB/x.oc''"
  "particlePath sample_module ''d'' ''x'' EvenNoise = ''d/storageB/x.en''"
  "particlePath sample_module ''d'' ''x'' OddNoise = ''d/storageA/x.on''"
  "particlePath sample_module ''d'' ''x'' CypherParity = ''d/storageC/x.cp''"
  "particlePath sample_module ''d'' ''x'' NoiseParity = ''d/storageC/x.np''"
  by (simp_all add: particlePath_def particleRelPath_def sample_module_def pathJoin_def cleanPath_def
      cleanStep_def)

lemma lostA_folders: "\<forall>s \<in> set (storageDirs sample_module). folderOk lostA (pathJoin [''d'', s])"
  by (simp add: storageDirs_def sample_module_def lostA_paths lostA_def folderOk_def)

lemma lostA_files: "\<forall>k \<in> all_kinds. statOk lostA (particlePath sample_module ''d'' ''x'' k)"
  by (simp add: all_kinds_def lostA_paths lostA_def statOk_def)

lemma lostA_there:
  "k \<in> all_kinds \<Longrightarrow> isThere lostA (particlePath sample_module ''d'' ''x'' k) \<longleftrightarrow>
     k \<in> {OddCypher, EvenNoise, CypherParity, NoiseParity}"
  by (auto simp: all_kinds_def lostA_paths lostA_def isThere_def)

lemma lostA_gone:
  "filter (\<lambda>s. \<not> isThere lostA (pathJoin [''d'', s])) (storageDirs sample_module) = [''storageA'']"
  by (simp add: storageDirs_def sample_module_def lostA_paths lostA_def isThere_def)

text \<open>Folder B is a file: nothing behind it is looked at.\<close>

theorem scanInventory_eq_witness:
  "(case scanInventory sample_module lostA ''d'' ''x'' of
     Inl e \<Rightarrow> False
   | Inr i \<Rightarrow> MissingStorages i = [''storageA''] \<and> Missing i = [EvenCypher, OddNoise] \<and>
       Present i OddCypher = Some True \<and> Present i EvenCypher = None) \<and>
   scanInventory sample_module (lostA(''d/storageB'' := Inr (File []))) ''d'' ''x'' =
     Inl (Errorf (''storage path is not a directory: d/storageB''))"
proof -
  have all: "AllParticleKinds sample_module =
      [EvenCypher, OddCypher, EvenNoise, OddNoise, CypherParity, NoiseParity]"
    by (simp add: sample_module_def)
  have mem: "EvenCypher \<in> all_kinds" "OddCypher \<in> all_kinds" "EvenNoise \<in> all_kinds"
      "OddNoise \<in> all_kinds" "CypherParity \<in> all_kinds" "NoiseParity \<in> all_kinds"
    by (simp_all add: all_kinds_def)
  have folders: "find (\<lambda>s. \<not> folderOk lostA (pathJoin [''d'', s])) (storageDirs sample_module) = None"
    using lostA_folders by (simp add: find_None_iff)
  have stats: "find (\<lambda>k. \<not> statOk lostA (particlePath sample_module ''d'' ''x'' k))
      (AllParticleKinds sample_module) = None"
    using lostA_files by (simp add: find_None_iff pcs_contract_all [OF sample_module_contract])
  have spoilt: "find (\<lambda>s. \<not> folderOk (lostA(''d/storageB'' := Inr (File []))) (pathJoin [''d'', s]))
      (storageDirs sample_module) = Some ''storageB''"
    by (simp add: storageDirs_def sample_module_def lostA_paths lostA_def folderOk_def)
  have error: "folderError (lostA(''d/storageB'' := Inr (File []))) (pathJoin [''d'', ''storageB'']) =
      Errorf (''storage path is not a directory: d/storageB'')"
    by (simp add: folderError_def lostA_paths)
  show ?thesis
    unfolding scanInventory_eq [OF sample_module_contract] lostA_gone Let_def folders stats spoilt option.case error
    by (simp add: all mem lostA_there core_kinds_def)
qed

end
