(* ===== verification/GoNet.thy ===== *)
theory GoNet
  imports GoText
begin

text \<open>
  The part of Go's \<open>net\<close> that works on addresses as text: \<open>net.SplitHostPort\<close>, and
  \<open>net.ParseIP\<close> with \<open>IP.IsLoopback\<close>, which the start-up check of the server calls.
\<close>

section \<open>\<open>net.SplitHostPort\<close>\<close>

definition addrErr :: "string \<Rightarrow> string \<Rightarrow> (string \<times> string) result" where
  "addrErr addr why = Inl (OSError ((if addr = [] then [] else ''address '' @ addr @ '': '') @ why))"

definition missingPort :: string where "missingPort = ''missing port in address''"
definition tooManyColons :: string where "tooManyColons = ''too many colons in address''"

text \<open>
  \<open>hostport[:i]\<close> and \<open>hostport[i+1:]\<close> for the last colon \<open>i\<close>; the checks for stray brackets
  look at the text behind the positions \<open>j\<close> and \<open>k\<close> of the code.
\<close>

definition lastColon :: "string \<Rightarrow> (string \<times> string) option" where
  "lastColon s =
     (if CHR '':'' \<notin> set s then None
      else let p = rev (takeWhile (\<lambda>c. c \<noteq> CHR '':'') (rev s)) in
        Some (take (length s - length p - 1) s, p))"

definition splitHostPort :: "string \<Rightarrow> (string \<times> string) result" where
  "splitHostPort hp =
     (case lastColon hp of
        None \<Rightarrow> addrErr hp missingPort
      | Some (before, port) \<Rightarrow>
          if hd hp = CHR ''[''
          then
            (if CHR '']'' \<notin> set hp then addrErr hp ''missing ']' in address''
             else let last = length (takeWhile (\<lambda>c. c \<noteq> CHR '']'') hp) in
               if last + 1 = length hp then addrErr hp missingPort
               else if last + 1 \<noteq> length before
               then addrErr hp (if hp ! (last + 1) = CHR '':'' then tooManyColons else missingPort)
               else if CHR ''['' \<in> set (drop 1 hp) then addrErr hp ''unexpected '[' in address''
               else if CHR '']'' \<in> set (drop (last + 1) hp)
               then addrErr hp ''unexpected ']' in address''
               else Inr (drop 1 (take last hp), port))
          else if CHR '':'' \<in> set before then addrErr hp tooManyColons
          else if CHR ''['' \<in> set hp then addrErr hp ''unexpected '[' in address''
          else if CHR '']'' \<in> set hp then addrErr hp ''unexpected ']' in address''
          else Inr (before, port))"

lemma hd_append_set: "c \<notin> set (h @ x # p) \<Longrightarrow> hd (h @ x # p) \<noteq> c"
  by (cases h) auto

lemma lastColon_append: "CHR '':'' \<notin> set p \<Longrightarrow> lastColon (h @ CHR '':'' # p) = Some (h, p)"
proof -
  assume p: "CHR '':'' \<notin> set p"
  then have "takeWhile (\<lambda>c. c \<noteq> CHR '':'') (rev p @ CHR '':'' # rev h) = rev p"
    by (subst takeWhile_append2) auto
  then show ?thesis by (simp add: lastColon_def Let_def)
qed

lemma fmtInt_chars: "c \<in> set (fmtInt x) \<Longrightarrow> c \<noteq> CHR '':'' \<and> c \<noteq> CHR ''['' \<and> c \<noteq> CHR '']''"
proof -
  have "c \<in> set (fmtNat 10 n) \<Longrightarrow> c \<noteq> CHR '':'' \<and> c \<noteq> CHR ''['' \<and> c \<noteq> CHR '']''" for n
  proof -
    assume "c \<in> set (fmtNat 10 n)"
    then obtain d where d: "d < 10" "c = hexDigit d" using fmtNat_digits [of 10 c n] by auto
    then have "code c < 58" by (simp add: hexDigit_def)
    then show ?thesis by auto
  qed
  then show "c \<in> set (fmtInt x) \<Longrightarrow> c \<noteq> CHR '':'' \<and> c \<noteq> CHR ''['' \<and> c \<noteq> CHR '']''"
    by (auto simp: fmtInt_def split: if_splits)
qed

lemma splitHostPort_plain:
  assumes "CHR '':'' \<notin> set h" "CHR ''['' \<notin> set h" "CHR '']'' \<notin> set h"
  shows "splitHostPort (h @ CHR '':'' # fmtInt x) = Inr (h, fmtInt x)"
proof -
  have p: "CHR '':'' \<notin> set (fmtInt x)" "CHR ''['' \<notin> set (fmtInt x)" "CHR '']'' \<notin> set (fmtInt x)"
    using fmtInt_chars by blast+
  then have "hd (h @ CHR '':'' # fmtInt x) \<noteq> CHR ''[''"
    using assms(2) by (intro hd_append_set) auto
  with p assms show ?thesis by (simp add: splitHostPort_def lastColon_append)
qed

lemma splitHostPort_bracketed:
  assumes "CHR ''['' \<notin> set h" "CHR '']'' \<notin> set h"
  shows "splitHostPort (CHR ''['' # h @ CHR '']'' # CHR '':'' # fmtInt x) = Inr (h, fmtInt x)"
proof -
  have p: "CHR '':'' \<notin> set (fmtInt x)" "CHR ''['' \<notin> set (fmtInt x)" "CHR '']'' \<notin> set (fmtInt x)"
    using fmtInt_chars by blast+
  have "lastColon (CHR ''['' # h @ CHR '']'' # CHR '':'' # fmtInt x) =
      Some (CHR ''['' # h @ [CHR '']''], fmtInt x)"
    using lastColon_append [of "fmtInt x" "CHR ''['' # h @ [CHR '']'']"] p by simp
  moreover have "takeWhile (\<lambda>c. c \<noteq> CHR '']'') (h @ CHR '']'' # CHR '':'' # fmtInt x) = h"
    using assms(2) by (subst takeWhile_append2) auto
  ultimately show ?thesis
    using assms p by (simp add: splitHostPort_def)
qed

section \<open>\<open>net.ParseIP\<close>\<close>

text \<open>
  \<open>netip.parseIPv4Fields\<close>: the value and length of the current field, the fields before it,
  and whether a dot may not come next (at the start and after a dot).
\<close>

fun ipv4Loop :: "nat \<Rightarrow> nat \<Rightarrow> nat list \<Rightarrow> bool \<Rightarrow> string \<Rightarrow> nat list option" where
  "ipv4Loop val digLen flds noDot [] = (if length flds < 3 then None else Some (flds @ [val]))"
| "ipv4Loop val digLen flds noDot (c # cs) =
     (case digitVal c of
        Some d \<Rightarrow>
          if 10 \<le> d \<or> digLen = 1 \<and> val = 0 \<or> 255 < val * 10 + d then None
          else ipv4Loop (val * 10 + d) (digLen + 1) flds False cs
      | None \<Rightarrow>
          if c \<noteq> CHR ''.'' \<or> noDot \<or> cs = [] \<or> length flds = 3 then None
          else ipv4Loop 0 0 (flds @ [val]) True cs)"

definition parseIPv4 :: "string \<Rightarrow> nat list option" where
  "parseIPv4 s = ipv4Loop 0 0 [] True s"

definition isHex :: "byte \<Rightarrow> bool" where
  "isHex c \<longleftrightarrow> (case digitVal c of Some d \<Rightarrow> d < 16 | None \<Rightarrow> False)"

definition hexValue :: "string \<Rightarrow> nat" where
  "hexValue s = fold (\<lambda>c v. v * 16 + the (digitVal c)) s 0"

text \<open>
  The loop of \<open>netip.parseIPv6\<close>: the bytes so far, where the ellipsis was seen, and the rest
  of the text; the result is what the code holds after the loop.
\<close>

function ipv6Loop :: "nat list \<Rightarrow> nat option \<Rightarrow> string \<Rightarrow> (nat list \<times> nat option \<times> string) option" where
  "ipv6Loop ip ell s =
     (if 16 \<le> length ip then Some (ip, ell, s)
      else
        let ds = takeWhile isHex s; rest = drop (length ds) s in
        if ds = [] \<or> 4 < length ds then None
        else
          let ip' = ip @ [hexValue ds div 256, hexValue ds mod 256] in
          case rest of
            [] \<Rightarrow> Some (ip', ell, [])
          | c # cs \<Rightarrow>
              if c = CHR ''.''
              then (if ell = None \<and> length ip \<noteq> 12 \<or> 12 < length ip then None
                    else case parseIPv4 s of None \<Rightarrow> None | Some fs \<Rightarrow> Some (ip @ fs, ell, []))
              else if c \<noteq> CHR '':'' \<or> cs = [] then None
              else if hd cs = CHR '':''
              then (if ell \<noteq> None then None
                    else if drop 1 cs = [] then Some (ip', Some (length ip'), [])
                    else ipv6Loop ip' (Some (length ip')) (drop 1 cs))
              else ipv6Loop ip' ell cs)"
  by pat_completeness auto
termination
proof (relation "measure (\<lambda>(_, _, s). length s)", goal_cases)
  case (2 ip ell s ds rest ip' c cs)
  then have "length (c # cs) \<le> length s" by (metis length_drop diff_le_self)
  then show ?case by simp
next
  case (3 ip ell s ds rest ip' c cs)
  then have "length (c # cs) \<le> length s" by (metis length_drop diff_le_self)
  then show ?case by simp
qed simp

declare ipv6Loop.simps [simp del]

text \<open>A text with a zone is no address for \<open>net.ParseIP\<close>.\<close>

definition parseIPv6 :: "string \<Rightarrow> nat list option" where
  "parseIPv6 s =
     (if CHR ''%'' \<in> set s then None
      else
        let lead = take 2 s = ''::'' in
        if lead \<and> drop 2 s = [] then Some (replicate 16 0)
        else case ipv6Loop [] (if lead then Some 0 else None) (if lead then drop 2 s else s) of
          None \<Rightarrow> None
        | Some (ip, ell, rest) \<Rightarrow>
            if rest \<noteq> [] then None
            else (case ell of
                None \<Rightarrow> if length ip < 16 then None else Some ip
              | Some e \<Rightarrow>
                  if 16 \<le> length ip then None
                  else Some (take e ip @ replicate (16 - length ip) 0 @ drop e ip)))"

text \<open>\<open>netip.ParseAddr\<close> looks at the first dot, colon or percent sign; an IPv4 address comes
  out in its 16-byte form.\<close>

definition parseIP :: "string \<Rightarrow> nat list option" where
  "parseIP s =
     (case dropWhile (\<lambda>c. c \<noteq> CHR ''.'' \<and> c \<noteq> CHR '':'' \<and> c \<noteq> CHR ''%'') s of
        [] \<Rightarrow> None
      | c # _ \<Rightarrow>
          if c = CHR ''.''
          then (case parseIPv4 s of
                  None \<Rightarrow> None
                | Some fs \<Rightarrow> Some (replicate 10 0 @ [255, 255] @ fs))
          else if c = CHR '':'' then parseIPv6 s
          else None)"

definition isLoopback :: "nat list \<Rightarrow> bool" where
  "isLoopback ip \<longleftrightarrow>
     (if take 12 ip = replicate 10 0 @ [255, 255] then ip ! 12 = 127
      else ip = replicate 15 0 @ [1])"

section \<open>Dotted addresses\<close>

lemma ipv4Loop_number:
  "n \<le> 255 \<Longrightarrow> ipv4Loop 0 0 flds b (fmtNat 10 n @ cs) = ipv4Loop n (length (fmtNat 10 n)) flds False cs"
proof (induction "10 :: nat" n arbitrary: cs rule: fmtNat.induct)
  case (1 n)
  show ?case
  proof (cases "n < 10")
    case True
    then show ?thesis by (subst (1 2) fmtNat.simps) (simp add: digitVal_hexDigit)
  next
    case False
    then have "n div 10 \<noteq> 0" "n div 10 * 10 + n mod 10 = n" "\<not> 10 \<le> n mod 10"
      by (simp_all add: div_eq_0_iff not_le)
    with False 1 show ?thesis
      by (subst (1 2) fmtNat.simps) (simp add: digitVal_hexDigit)
  qed
qed

definition dotted :: "nat \<Rightarrow> nat \<Rightarrow> nat \<Rightarrow> nat \<Rightarrow> string" where
  "dotted a b c d = fmtNat 10 a @ ''.'' @ fmtNat 10 b @ ''.'' @ fmtNat 10 c @ ''.'' @ fmtNat 10 d"

lemma digitVal_dot [simp]: "digitVal CHR ''.'' = None"
  by (simp add: digitVal_def)

lemma parseIPv4_dotted:
  assumes "a \<le> 255" "b \<le> 255" "c \<le> 255" "d \<le> 255"
  shows "parseIPv4 (dotted a b c d) = Some [a, b, c, d]"
proof -
  have last: "ipv4Loop 0 0 fs True (fmtNat 10 d) = ipv4Loop d (length (fmtNat 10 d)) fs False []" for fs
    using ipv4Loop_number [OF assms(4), of fs True "[]"] by simp
  show ?thesis
    unfolding parseIPv4_def dotted_def using assms by (simp add: ipv4Loop_number last)
qed

lemma fmtNat_range: "c \<in> set (fmtNat 10 n) \<Longrightarrow> 48 \<le> code c \<and> code c \<le> 57"
proof -
  assume "c \<in> set (fmtNat 10 n)"
  then obtain d where "d < 10" "c = hexDigit d" using fmtNat_digits [of 10 c n] by auto
  then show ?thesis by (simp add: hexDigit_def)
qed

lemma dotted_chars: "x \<in> set (dotted a b c d) \<Longrightarrow> x = CHR ''.'' \<or> 48 \<le> code x \<and> code x \<le> 57"
  using fmtNat_range by (auto simp: dotted_def)

lemma parseIP_dotted:
  assumes "a \<le> 255" "b \<le> 255" "c \<le> 255" "d \<le> 255"
  shows "parseIP (dotted a b c d) = Some (replicate 10 0 @ [255, 255] @ [a, b, c, d])"
proof -
  let ?P = "\<lambda>x. x \<noteq> CHR ''.'' \<and> x \<noteq> CHR '':'' \<and> x \<noteq> CHR ''%''"
  have "\<forall>x \<in> set (fmtNat 10 a). ?P x"
    using fmtNat_range by fastforce
  then have "dropWhile ?P (dotted a b c d) = CHR ''.'' # drop (Suc (length (fmtNat 10 a))) (dotted a b c d)"
    by (simp add: dotted_def dropWhile_append)
  then show ?thesis
    by (simp add: parseIP_def parseIPv4_dotted [OF assms])
qed

lemma splitHostPort_dotted: "splitHostPort (dotted a b c d @ CHR '':'' # fmtInt x) = Inr (dotted a b c d, fmtInt x)"
  by (rule splitHostPort_plain) (auto dest!: dotted_chars)

end
