(* ===== verification/ClientPlan.thy ===== *)
theory ClientPlan
  imports Store GoNet
begin

text \<open>
  What the client decides before it opens a connection: its address
  (\<open>internal/client/addr.go\<close>, \<open>client.go\<close>), the skip list and the merge profile and send
  plan it derives from files or from particles in memory (\<open>merge.go\<close>).
\<close>

section \<open>The client's address\<close>

record client_config =
  Host :: string
  Port :: int
  Token :: string

definition clientHost :: "client_config \<Rightarrow> string" where
  "clientHost c = (if Host c = [] then ''127.0.0.1'' else Host c)"

definition address :: "client_config \<Rightarrow> string" where
  "address c =
     (let host = (if Host c = [] then ''127.0.0.1'' else Host c) in host @ '':'' @ fmtInt (Port c))"

definition parsePort :: "string \<Rightarrow> int result" where
  "parsePort s =
     (case atoi s of
        Inl e \<Rightarrow> Inl (QuoteWrapf ''parse port '' s '''' e)
      | Inr port \<Rightarrow> Inr port)"

definition configFromAddr :: "string \<Rightarrow> string \<Rightarrow> client_config result" where
  "configFromAddr addr token =
     (case splitHostPort addr of
        Inl e \<Rightarrow> Inl e
      | Inr (host, portStr) \<Rightarrow>
          (case parsePort portStr of
             Inl e \<Rightarrow> Inl e
           | Inr port \<Rightarrow> Inr \<lparr>Host = host, Port = port, Token = token\<rparr>))"

section \<open>Addresses that work and addresses that do not\<close>

text \<open>
  The address the client dials is the address it was configured from, for every host
  name or IPv4 address; the empty host becomes the loopback address.
\<close>

theorem address_roundtrip:
  assumes "is_int64 (Port c)" "set (Host c) \<inter> {CHR '':'', CHR ''['', CHR '']''} = {}"
  shows "configFromAddr (address c) (Token c) = Inr (c\<lparr>Host := clientHost c\<rparr>)"
proof -
  have "set (clientHost c) \<inter> {CHR '':'', CHR ''['', CHR '']''} = {}"
    using assms(2) by (simp add: clientHost_def)
  moreover have "address c = clientHost c @ CHR '':'' # fmtInt (Port c)"
    by (simp add: address_def clientHost_def)
  ultimately show ?thesis
    using assms(1) by (simp add: configFromAddr_def splitHostPort_plain parsePort_def atoi_fmtInt)
qed

theorem address_roundtrip_witness:
  "configFromAddr (address \<lparr>Host = [], Port = 4567, Token = ''T''\<rparr>) ''T'' =
     Inr \<lparr>Host = ''127.0.0.1'', Port = 4567, Token = ''T''\<rparr>"
  using address_roundtrip [of "\<lparr>Host = [], Port = 4567, Token = ''T''\<rparr>"]
  by (simp add: is_int64_def clientHost_def)

text \<open>
  An IPv6 address is accepted by \<open>ConfigFromAddr\<close>, but the address built from it for
  the dial lacks the brackets and is refused.
\<close>

theorem ipv6_address_refused:
  assumes "is_int64 p" "CHR '':'' \<in> set h" "set h \<inter> {CHR ''['', CHR '']''} = {}"
  shows "case configFromAddr (''['' @ h @ '']:'' @ fmtInt p) token of
      Inl e \<Rightarrow> False
    | Inr c \<Rightarrow> splitHostPort (address c) = addrErr (address c) tooManyColons"
proof -
  have c: "configFromAddr (''['' @ h @ '']:'' @ fmtInt p) token = Inr \<lparr>Host = h, Port = p, Token = token\<rparr>"
    using assms by (simp add: configFromAddr_def splitHostPort_bracketed parsePort_def atoi_fmtInt)
  have "CHR '':'' \<notin> set (fmtInt p)" "CHR ''['' \<notin> set (h @ CHR '':'' # fmtInt p)"
    using fmtInt_chars assms(3) by auto
  moreover from this(2) have "hd (h @ CHR '':'' # fmtInt p) \<noteq> CHR ''[''" by (rule hd_append_set)
  moreover have "h \<noteq> []" using assms(2) by auto
  ultimately show ?thesis
    using assms(2) unfolding c by (simp add: address_def splitHostPort_def lastColon_append)
qed

theorem ipv6_address_refused_witness:
  "\<exists>c. configFromAddr (''['' @ ''::1'' @ '']:'' @ fmtInt 4567) ''T'' = Inr c \<and> isl (splitHostPort (address c))"
proof -
  have "is_int64 4567" by (simp add: is_int64_def)
  from ipv6_address_refused [OF this, of "''::1''" "''T''"] show ?thesis
    by (auto simp: addrErr_def split: sum.splits)
qed

section \<open>The skip list\<close>

text \<open>The loop of \<open>SplitCSV\<close>, with its indices.\<close>

function splitCSVLoop :: "string \<Rightarrow> nat \<Rightarrow> nat \<Rightarrow> string list \<Rightarrow> string list" where
  "splitCSVLoop s start i out =
     (if length s < i then out
      else if i = length s \<or> s ! i = CHR '',''
      then let part = drop start (take i s) in
        splitCSVLoop s (i + 1) (i + 1) (if part \<noteq> [] then out @ [part] else out)
      else splitCSVLoop s start (i + 1) out)"
  by pat_completeness auto
termination by (relation "measure (\<lambda>(s, _, i, _). Suc (length s) - i)") auto

declare splitCSVLoop.simps [simp del]

definition splitCSV :: "string \<Rightarrow> string list" where
  "splitCSV s = splitCSVLoop s 0 0 []"

lemma splitCSVLoop_end: "length s < i \<Longrightarrow> splitCSVLoop s start i out = out"
  by (subst splitCSVLoop.simps) simp

lemma splitCSVLoop_eq:
  "start \<le> i \<Longrightarrow> i \<le> length s \<Longrightarrow> CHR '','' \<notin> set (drop start (take i s)) \<Longrightarrow>
   splitCSVLoop s start i out = out @ filter (\<lambda>w. w \<noteq> []) (splitOn (CHR '','') (drop start s))"
proof (induction s start i out rule: splitCSVLoop.induct)
  case (1 s start i out)
  have parts: "drop start s = drop start (take i s) @ drop i s"
    using "1.prems"(1,2) by (metis append_take_drop_id drop_append drop_take length_take min.absorb2 diff_is_0_eq drop0)
  show ?case
  proof (cases "i = length s")
    case True
    with "1.prems" show ?thesis
      by (subst splitCSVLoop.simps) (auto simp: splitOn_free splitCSVLoop_end Let_def)
  next
    case False
    with "1.prems"(2) have i: "i < length s" by simp
    note cons = Cons_nth_drop_Suc [OF i, symmetric]
    show ?thesis
    proof (cases "s ! i = CHR '',''")
      case True
      have "splitOn (CHR '','') (drop start (take i s) @ CHR '','' # drop (Suc i) s) =
          drop start (take i s) # splitOn (CHR '','') (drop (Suc i) s)"
        by (rule splitOn_append [OF "1.prems"(3)])
      with "1.IH"(1) True i False parts cons show ?thesis
        by (subst splitCSVLoop.simps) (simp add: Let_def)
    next
      case no: False
      have "drop start (take (Suc i) s) = drop start (take i s) @ [s ! i]"
        using i "1.prems"(1) by (simp add: take_Suc_conv_app_nth)
      with "1.IH"(2) no i False "1.prems" show ?thesis
        by (subst splitCSVLoop.simps) simp
    qed
  qed
qed

text \<open>The index loop computes the non-empty pieces between commas.\<close>

lemma splitCSV_pieces:
  "splitCSV s = filter (\<lambda>w. w \<noteq> []) (splitOn (CHR '','') s)"
  by (simp add: splitCSV_def splitCSVLoop_eq)

section \<open>Profiles and plans of the client\<close>

definition mergeProfileFromCore :: "(particle_kind \<rightharpoonup> bytes) \<Rightarrow> merge_profile" where
  "mergeProfileFromCore core =
     \<lparr>MissingMask =
        fold (\<lambda>(kind, b) mask. if core kind = None then mask OR b else mask)
          [(EvenCypher, MissingEC), (OddCypher, MissingOC),
           (EvenNoise, MissingEN), (OddNoise, MissingON)] 0\<rparr>"

definition prepareMergeFromFiles :: "pcs_module \<Rightarrow> fs \<Rightarrow> string \<Rightarrow> string \<Rightarrow> merge_profile result" where
  "prepareMergeFromFiles M f dir base =
     (case scanInventory M f dir base of
        Inl e \<Rightarrow> Inl e
      | Inr i \<Rightarrow> Inr (mergeProfileFromInventory M i))"

definition prepareMergeSendPlan :: "pcs_module \<Rightarrow> fs \<Rightarrow> string \<Rightarrow> string \<Rightarrow> merge_profile
    \<Rightarrow> merge_send_plan result" where
  "prepareMergeSendPlan M f dir base profile =
     (case scanInventory M f dir base of
        Inl e \<Rightarrow> Inl e
      | Inr i \<Rightarrow> mergeSendPlanFrom M (Some (pcsInventory M i)) (missingMap profile))"

text \<open>The plan of \<open>MergeSession\<close>, which has its particles in memory.\<close>

definition memoryPlan :: "pcs_module \<Rightarrow> (particle_kind \<rightharpoonup> bytes) \<Rightarrow> merge_send_plan result" where
  "memoryPlan M core = mergeSendPlanFromCore M core (missingMap (mergeProfileFromCore core))"

lemma mergeProfileFromCore_mask:
  "mergeProfileFromCore core =
     \<lparr>MissingMask = maskOfKinds (filter (\<lambda>k. core k = None) [EvenCypher, OddCypher, EvenNoise, OddNoise])\<rparr>"
  by (simp add: mergeProfileFromCore_def maskOfKinds_def kindBit_def)

lemma missing_in_memory:
  "mget (missingMap (mergeProfileFromCore core)) k \<longleftrightarrow> k \<in> core_kinds \<and> core k = None"
  unfolding mergeProfileFromCore_mask missingMap_maskOfKinds by (auto simp: core_kinds_def)

lemma missing_on_disk:
  assumes "pcs_contract M"
  shows "mget (missingMap (mergeProfileFromInventory M i)) k \<longleftrightarrow> k \<in> core_kinds \<and> \<not> mget (Present i) k"
  by (simp add: mergeProfileFromInventory_def missingMap_maskOfKinds missingCoreParticles_def
      pcs_contract_core [OF assms])

section \<open>A lost storage folder\<close>

text \<open>
  The layout of the protocol document: each folder holds at most one core stream of each
  pair, and the parities have a folder of their own.
\<close>

definition storage_layout :: "pcs_module \<Rightarrow> bool" where
  "storage_layout M \<longleftrightarrow>
     storageForParticle M EvenCypher = storageA M \<and> storageForParticle M OddNoise = storageA M \<and>
     storageForParticle M OddCypher = storageB M \<and> storageForParticle M EvenNoise = storageB M \<and>
     storageForParticle M CypherParity = storageC M \<and> storageForParticle M NoiseParity = storageC M \<and>
     distinct (storageDirs M)"

lemma sample_module_layout: "storage_layout sample_module"
  by (simp add: storage_layout_def sample_module_def storageDirs_def)

lemma validateProfile_iff:
  "validateProfile p = Inr () \<longleftrightarrow>
     \<not> (mget (missingMap p) EvenCypher \<and> mget (missingMap p) OddCypher) \<and>
     \<not> (mget (missingMap p) EvenNoise \<and> mget (missingMap p) OddNoise)"
  by (auto simp: validateProfile_def missing_bit mget_missingMap kindIndex_def split: if_splits)

lemma mergeSendPlanFrom_ok:
  assumes "pcs_contract M" "\<forall>k \<in> core_kinds. mget missing k \<or> mget present k"
    and "\<not> (mget missing EvenCypher \<and> mget missing OddCypher)"
    and "\<not> (mget missing EvenNoise \<and> mget missing OddNoise)"
  shows "mergeSendPlanFrom M (Some present) missing = Inr (buildPlan present missing)"
  using assms find_absent_None [OF assms(1), of present missing]
  by (auto simp: mergeSendPlanFrom_result)

lemma length_filter_single: "distinct xs \<Longrightarrow> \<forall>x \<in> set xs. P x \<longrightarrow> x = a \<Longrightarrow> length (filter P xs) \<le> 1"
  by (induction xs) (auto simp: filter_empty_conv)

text \<open>
  Any one storage folder may be lost, wholly or in part.  The merge profile derived from
  what is left is one the server accepts, and the send plan for it is recoverable.
\<close>

theorem storage_loss_survivable:
  assumes "pcs_contract M" "storage_layout M" "lost \<in> set (storageDirs M)"
    and "\<forall>s \<in> set (storageDirs M). folderOk f (pathJoin [dir, s])"
    and "\<forall>k \<in> all_kinds. statOk f (particlePath M dir base k)"
    and "\<forall>s \<in> set (storageDirs M). s \<noteq> lost \<longrightarrow> isThere f (pathJoin [dir, s])"
    and "\<forall>k \<in> all_kinds. storageForParticle M k \<noteq> lost \<longrightarrow> isThere f (particlePath M dir base k)"
  shows "\<exists>p plan. prepareMergeFromFiles M f dir base = Inr p \<and> validateProfile p = Inr () \<and>
    prepareMergeSendPlan M f dir base p = Inr plan \<and> recoverable (mget (Send plan))"
proof -
  let ?there = "\<lambda>k. isThere f (particlePath M dir base k)"
  have dirs: "distinct (storageDirs M)" using assms(2) by (simp add: storage_layout_def)
  have only: "\<forall>s \<in> set (storageDirs M). \<not> isThere f (pathJoin [dir, s]) \<longrightarrow> s = lost"
    using assms(6) by blast
  have few: "\<not> 2 \<le> length (filter (\<lambda>s. \<not> isThere f (pathJoin [dir, s])) (storageDirs M))"
    using length_filter_single [OF dirs only] by linarith
  have stored: "k \<in> all_kinds \<Longrightarrow> ?there k \<or> storageForParticle M k = lost" for k
    using assms(7) by blast
  have differ: "storageA M \<noteq> storageB M" "storageA M \<noteq> storageC M" "storageB M \<noteq> storageC M"
    using dirs by (simp_all add: storageDirs_def)
  have at: "?there EvenCypher \<or> storageA M = lost" "?there OddNoise \<or> storageA M = lost"
      "?there OddCypher \<or> storageB M = lost" "?there EvenNoise \<or> storageB M = lost"
      "?there CypherParity \<or> storageC M = lost" "?there NoiseParity \<or> storageC M = lost"
    using assms(2) stored [of EvenCypher] stored [of OddNoise] stored [of OddCypher]
      stored [of EvenNoise] stored [of CypherParity] stored [of NoiseParity]
    by (simp_all add: storage_layout_def all_kinds_def)
  have pairs: "?there EvenCypher \<or> ?there OddCypher" "?there EvenNoise \<or> ?there OddNoise"
    using at differ by metis+
  have parities: "?there CypherParity \<and> ?there NoiseParity" if "\<exists>k \<in> core_kinds. \<not> ?there k"
  proof -
    have "lost = storageA M \<or> lost = storageB M" using that at unfolding core_kinds_def by blast
    then show ?thesis using at differ by metis
  qed
  obtain i where i: "scanInventory M f dir base = Inr i"
      "\<And>k. mget (Present i) k \<longleftrightarrow> k \<in> all_kinds \<and> ?there k"
    using scanInventory_found [OF assms(1,4,5) few parities] by blast
  let ?p = "mergeProfileFromInventory M i"
  have miss: "mget (missingMap ?p) k \<longleftrightarrow> k \<in> core_kinds \<and> \<not> ?there k" for k
    using i(2) missing_on_disk [OF assms(1)] by (auto simp: core_kinds_def all_kinds_def)
  have "mergeSendPlanFrom M (Some (Present i)) (missingMap ?p) = Inr (buildPlan (Present i) (missingMap ?p))"
    using pairs parities i(2) miss by (intro mergeSendPlanFrom_ok assms(1)) (auto simp: core_kinds_def all_kinds_def)
  moreover have "recoverable (mget (Send (buildPlan (Present i) (missingMap ?p))))"
    using pairs parities by (auto simp: recoverable_def pairRecoverable_def buildPlan_send sendCore_def miss i(2)
        core_kinds_def all_kinds_def)
  moreover have "validateProfile ?p = Inr ()"
    using pairs miss by (auto simp: validateProfile_iff)
  ultimately show ?thesis
    using i(1) pcs_contract_inventory [OF assms(1)]
    by (simp add: prepareMergeFromFiles_def prepareMergeSendPlan_def pcsInventory_def)
qed

text \<open>A plan made from the files sends only what is there.\<close>

lemma sent_is_there:
  assumes "pcs_contract M" "\<forall>s \<in> set (storageDirs M). folderOk f (pathJoin [dir, s])"
    and "\<forall>k \<in> all_kinds. statOk f (particlePath M dir base k)"
    and "prepareMergeSendPlan M f dir base p = Inr plan" "mget (Send plan) k"
  shows "k \<in> all_kinds \<and> isThere f (particlePath M dir base k)"
proof -
  obtain i where i: "scanInventory M f dir base = Inr i"
      "mergeSendPlanFrom M (Some (pcsInventory M i)) (missingMap p) = Inr plan"
    using assms(4) by (auto simp: prepareMergeSendPlan_def split: sum.splits)
  then have "plan = buildPlan (Present i) (missingMap p)"
    using mergeSendPlanFrom_InrD(1) [OF assms(1) i(2)] pcs_contract_inventory [OF assms(1)] by (simp add: pcsInventory_def)
  then have "k \<in> all_kinds" "mget (Present i) k" using assms(5) buildPlan_sends_present by blast+
  moreover have "Present i = (\<lambda>k. if k \<in> all_kinds \<and> isThere f (particlePath M dir base k) then Some True else None)"
    using i(1) unfolding scanInventory_result [OF assms(1-3)] by (auto simp: Let_def split: if_splits)
  ultimately show ?thesis by (auto simp: mget_def split: if_splits)
qed

theorem storage_loss_survivable_witness:
  "\<exists>p plan. prepareMergeFromFiles sample_module lostA ''d'' ''x'' = Inr p \<and> validateProfile p = Inr () \<and>
    prepareMergeSendPlan sample_module lostA ''d'' ''x'' p = Inr plan \<and> recoverable (mget (Send plan))"
proof (rule storage_loss_survivable [OF sample_module_contract sample_module_layout _
      lostA_folders lostA_files, of "''storageA''"])
  show "''storageA'' \<in> set (storageDirs sample_module)"
    by (simp add: storageDirs_def sample_module_def)
  show "\<forall>s \<in> set (storageDirs sample_module). s \<noteq> ''storageA'' \<longrightarrow> isThere lostA (pathJoin [''d'', s])"
    by (simp add: storageDirs_def sample_module_def lostA_paths lostA_def isThere_def)
  show "\<forall>k \<in> all_kinds. storageForParticle sample_module k \<noteq> ''storageA'' \<longrightarrow>
      isThere lostA (particlePath sample_module ''d'' ''x'' k)"
    using lostA_there by (auto simp: all_kinds_def sample_module_def)
qed

end
