(* ===== verification/Reader.thy ===== *)
theory Reader
  imports Prelude
begin

text \<open>
  Go's \<open>io.Reader\<close> as an interface, and the readers of the standard library that the
  program stands on: the receiving half of a TCP connection and \<open>bufio.Reader\<close>.

  A reader is a state with a function that takes the buffer length \<open>k\<close> and returns the new
  state, the bytes placed in the buffer (their number is Go's \<open>n\<close>) and the error, if any.
\<close>

section \<open>The interface\<close>

type_synonym 'r readfn = "'r \<Rightarrow> nat \<Rightarrow> 'r \<times> bytes \<times> go_error option"

text \<open>
  A consumer that reads with the buffer sizes \<open>ks\<close> until the first error, as
  \<open>io.ReadAll\<close>, \<open>io.Copy\<close> and the stream decoder do with sizes of their own choice.
\<close>

fun drain :: "'r readfn \<Rightarrow> nat list \<Rightarrow> 'r \<Rightarrow> 'r \<times> bytes \<times> go_error option" where
  "drain rd [] r = (r, [], None)"
| "drain rd (k # ks) r =
     (case rd r k of
        (r', bs, Some e) \<Rightarrow> (r', bs, Some e)
      | (r', bs, None) \<Rightarrow> (case drain rd ks r' of (r'', cs, e) \<Rightarrow> (r'', bs @ cs, e)))"

text \<open>
  The contract: \<open>content\<close> is what the reader still has to deliver, \<open>final\<close> the error it ends
  with (\<open>EOF\<close> for a stream that ends well), \<open>gas\<close> bounds the reads it takes to get there.
\<close>

locale io_reader =
  fixes rd :: "'r readfn"
    and ok :: "'r \<Rightarrow> bool"
    and content :: "'r \<Rightarrow> bytes"
    and final :: "'r \<Rightarrow> go_error"
    and gas :: "'r \<Rightarrow> nat"
  assumes rd_ok: "ok r \<Longrightarrow> rd r k = (r', bs, e) \<Longrightarrow> ok r'"
    and rd_len: "ok r \<Longrightarrow> rd r k = (r', bs, e) \<Longrightarrow> length bs \<le> k"
    and rd_content: "ok r \<Longrightarrow> rd r k = (r', bs, e) \<Longrightarrow> content r = bs @ content r'"
    and rd_final: "ok r \<Longrightarrow> rd r k = (r', bs, e) \<Longrightarrow> final r' = final r"
    and rd_end: "ok r \<Longrightarrow> rd r k = (r', bs, Some x) \<Longrightarrow> x = final r \<and> content r' = []"
    and rd_gas: "ok r \<Longrightarrow> rd r k = (r', bs, e) \<Longrightarrow> gas r' + length bs \<le> gas r"
    and rd_progress: "ok r \<Longrightarrow> 0 < k \<Longrightarrow> rd r k = (r', bs, None) \<Longrightarrow> gas r' < gas r"
begin

lemmas rd_laws = rd_ok rd_len rd_content rd_final rd_gas

lemma rd_step:
  "ok r \<Longrightarrow> rd r k = (r', bs, e) \<Longrightarrow>
     ok r' \<and> length bs \<le> k \<and> content r = bs @ content r' \<and> final r' = final r \<and>
     gas r' + length bs \<le> gas r \<and> (\<forall>x. e = Some x \<longrightarrow> x = final r \<and> content r' = []) \<and>
     (0 < k \<and> e = None \<longrightarrow> gas r' < gas r)"
  using rd_laws [of r k r' bs e] rd_end [of r k r' bs] rd_progress [of r k r' bs] by auto

lemma drain_all:
  "ok r \<Longrightarrow> \<forall>k \<in> set ks. 0 < k \<Longrightarrow> gas r < length ks \<Longrightarrow>
   \<exists>r'. drain rd ks r = (r', content r, Some (final r)) \<and> ok r' \<and> content r' = [] \<and>
     final r' = final r"
proof (induction ks arbitrary: r)
  case Nil
  then show ?case by simp
next
  case (Cons k ks)
  obtain r' bs e where step: "rd r k = (r', bs, e)" by (cases "rd r k")
  note laws = rd_laws [OF Cons.prems(1) step]
  show ?case
  proof (cases e)
    case None
    with step have "gas r' < gas r" using Cons.prems rd_progress [of r k r' bs] by simp
    with Cons.prems laws obtain r'' where "drain rd ks r' = (r'', content r', Some (final r'))"
        "ok r''" "content r'' = []" "final r'' = final r'"
      using Cons.IH [of r'] by auto
    with step None laws show ?thesis by simp
  next
    case (Some x)
    with step Cons.prems laws show ?thesis using rd_end by fastforce
  qed
qed

end

text \<open>A reader that never returns \<open>(0, nil)\<close> to a non-empty buffer.\<close>

locale busy_reader = io_reader +
  assumes rd_busy: "ok r \<Longrightarrow> 0 < k \<Longrightarrow> rd r k = (r', bs, None) \<Longrightarrow> bs \<noteq> []"

section \<open>\<open>io.ReadFull\<close>\<close>

text \<open>
  \<open>io.ReadFull\<close> into a buffer of \<open>m\<close> bytes: reads until the buffer is full or an error
  comes; a full buffer wins over an error that arrives with its last bytes.  The fuel bounds
  the number of reads; the lemma below shows that more than \<open>gas\<close> is enough.
\<close>

fun readFullLoop :: "'r readfn \<Rightarrow> nat \<Rightarrow> 'r \<Rightarrow> nat \<Rightarrow> 'r \<times> bytes \<times> go_error option" where
  "readFullLoop rd 0 r m = (r, [], Some NoProgress)"
| "readFullLoop rd (Suc fuel) r m =
     (if m = 0 then (r, [], None)
      else case rd r m of (r', bs, e) \<Rightarrow>
        if m \<le> length bs then (r', bs, None)
        else case e of
          Some x \<Rightarrow> (r', bs, Some x)
        | None \<Rightarrow> (case readFullLoop rd fuel r' (m - length bs) of (r'', cs, e') \<Rightarrow>
            (r'', bs @ cs, e')))"

definition readFull :: "'r readfn \<Rightarrow> nat \<Rightarrow> 'r \<Rightarrow> nat \<Rightarrow> 'r \<times> bytes \<times> go_error option" where
  "readFull rd fuel r m =
     (case readFullLoop rd fuel r m of (r', bs, e) \<Rightarrow>
        (r', bs, if e = Some EOF \<and> bs \<noteq> [] then Some UnexpectedEOF else e))"

context io_reader
begin

lemma readFullLoop_spec:
  "ok r \<Longrightarrow> gas r < fuel \<Longrightarrow>
   \<exists>r'. readFullLoop rd fuel r m =
     (r', take m (content r), if m \<le> length (content r) then None else Some (final r)) \<and>
     ok r' \<and> content r' = drop m (content r) \<and> final r' = final r"
proof (induction fuel arbitrary: r m)
  case 0
  then show ?case by simp
next
  case (Suc fuel)
  obtain r' bs e where step: "rd r m = (r', bs, e)" by (cases "rd r m")
  note laws = rd_step [OF Suc.prems(1) step]
  show ?case
  proof (cases "m = 0 \<or> m \<le> length bs")
    case True
    with laws step Suc.prems show ?thesis by auto
  next
    case False
    then have m: "0 < m" "length bs < m" by auto
    show ?thesis
    proof (cases e)
      case None
      with laws m Suc.prems have "ok r'" "gas r' < fuel" by auto
      from Suc.IH [OF this, of "m - length bs"] laws m step None show ?thesis by auto
    next
      case (Some x)
      with laws m step show ?thesis by auto
    qed
  qed
qed

lemma readFull_spec:
  assumes "ok r" "gas r < fuel" "readFull rd fuel r m = (r', bs, e)"
  shows "bs = take m (content r)" "content r' = drop m (content r)" "ok r'"
    "final r' = final r"
    "m \<le> length (content r) \<Longrightarrow> e = None"
    "length (content r) < m \<Longrightarrow>
       e = Some (if final r = EOF \<and> content r \<noteq> [] then UnexpectedEOF else final r)"
  using readFullLoop_spec [OF assms(1,2), of m] assms(3) by (auto simp: readFull_def split: if_splits)

end

section \<open>The receiving half of a connection\<close>

text \<open>
  What a peer sends, cut into the chunks that single reads deliver (a read with a smaller
  buffer takes the front of the chunk), the error that ends the stream (\<open>EOF\<close> after an
  orderly close, a reset or a deadline otherwise, \<open>Stalled\<close> when the connection stays open and
  nothing more comes), and whether that error comes along with the last bytes or by itself on
  the next read, as it does on a TCP connection.
\<close>

record inp =
  chunks :: "bytes list"
  inpEnd :: go_error
  early :: bool

definition inp_Read :: "inp readfn" where
  "inp_Read c k =
     (case chunks c of
        [] \<Rightarrow> (c, [], Some (inpEnd c))
      | b # bs \<Rightarrow>
          if length b \<le> k
          then (c\<lparr>chunks := bs\<rparr>, b, if bs = [] \<and> early c \<and> inpEnd c \<noteq> Stalled then Some (inpEnd c) else None)
          else (c\<lparr>chunks := drop k b # bs\<rparr>, take k b, None))"

definition wf_inp :: "inp \<Rightarrow> bool" where
  "wf_inp c \<longleftrightarrow> [] \<notin> set (chunks c)"

definition inpContent :: "inp \<Rightarrow> bytes" where
  "inpContent c = concat (chunks c)"

definition inpGas :: "inp \<Rightarrow> nat" where
  "inpGas c = sum_list (map (\<lambda>b. Suc (length b)) (chunks c))"

text \<open>A stream that comes to an end.\<close>

definition live :: "inp \<Rightarrow> bool" where
  "live c \<longleftrightarrow> wf_inp c \<and> \<not> endless (inpEnd c)"

lemma live_wf: "live c \<Longrightarrow> wf_inp c"
  by (simp add: live_def)

lemmas inp_defs = inp_Read_def wf_inp_def inpContent_def inpGas_def

interpretation inp: busy_reader inp_Read wf_inp inpContent inpEnd inpGas
  by unfold_locales (auto simp: inp_defs split: list.splits if_splits)

section \<open>\<open>bufio.Reader\<close>\<close>

text \<open>
  A \<open>bufio.Reader\<close>: the wrapped reader, the buffered bytes \<open>buf[r:w]\<close> and the pending
  error.  The buffer of \<open>bufio.NewReader\<close> holds 4096 bytes.
\<close>

record 'r bufio =
  inner :: 'r
  buf :: bytes
  berr :: "go_error option"

definition bufSize :: nat where
  "bufSize = 4096"

definition newBufio :: "'r \<Rightarrow> 'r bufio" where
  "newBufio r = \<lparr>inner = r, buf = [], berr = None\<rparr>"

text \<open>\<open>fill\<close>: up to 100 reads until one brings bytes or an error.\<close>

fun fillLoop :: "'r readfn \<Rightarrow> nat \<Rightarrow> 'r bufio \<Rightarrow> 'r bufio" where
  "fillLoop rd 0 b = b\<lparr>berr := Some NoProgress\<rparr>"
| "fillLoop rd (Suc i) b =
     (case rd (inner b) (bufSize - length (buf b)) of (r', bs, e) \<Rightarrow>
        let b' = b\<lparr>inner := r', buf := buf b @ bs\<rparr> in
        case e of
          Some x \<Rightarrow> b'\<lparr>berr := Some x\<rparr>
        | None \<Rightarrow> if bs \<noteq> [] then b' else fillLoop rd i b')"

definition fill :: "'r readfn \<Rightarrow> 'r bufio \<Rightarrow> 'r bufio" where
  "fill rd b = fillLoop rd 100 b"

text \<open>\<open>readErr\<close> hands the pending error out once.\<close>

definition readErr :: "'r bufio \<Rightarrow> 'r bufio \<times> go_error option" where
  "readErr b = (b\<lparr>berr := None\<rparr>, berr b)"

definition bufio_Read :: "'r readfn \<Rightarrow> 'r bufio readfn" where
  "bufio_Read rd b k =
     (if k = 0 then
        (if buf b \<noteq> [] then (b, [], None)
         else case readErr b of (b', e) \<Rightarrow> (b', [], e))
      else if buf b \<noteq> [] then (b\<lparr>buf := drop k (buf b)\<rparr>, take k (buf b), None)
      else if berr b \<noteq> None then (case readErr b of (b', e) \<Rightarrow> (b', [], e))
      else if bufSize \<le> k then
        (case rd (inner b) k of (r', bs, e) \<Rightarrow> (b\<lparr>inner := r'\<rparr>, bs, e))
      else
        (case rd (inner b) bufSize of (r', bs, e) \<Rightarrow>
           if bs = [] then (b\<lparr>inner := r'\<rparr>, [], e)
           else (b\<lparr>inner := r', buf := drop k bs, berr := e\<rparr>, take k bs, None)))"

text \<open>
  \<open>ReadByte\<close>: its loop runs at most twice, since a \<open>fill\<close> leaves bytes or an error.
\<close>

definition bufio_ReadByte :: "'r readfn \<Rightarrow> 'r bufio \<Rightarrow> 'r bufio \<times> byte result" where
  "bufio_ReadByte rd b =
     (let b1 = (if buf b = [] \<and> berr b = None then fill rd b else b) in
      case buf b1 of
        c # cs \<Rightarrow> (b1\<lparr>buf := cs\<rparr>, Inr c)
      | [] \<Rightarrow> (case readErr b1 of (b2, e) \<Rightarrow>
               (b2, Inl (case e of Some x \<Rightarrow> x | None \<Rightarrow> NoProgress))))"

text \<open>\<open>Peek(1)\<close> reports only whether a byte can be seen; it consumes nothing.\<close>

definition bufio_Peek1 :: "'r readfn \<Rightarrow> 'r bufio \<Rightarrow> 'r bufio \<times> byte result" where
  "bufio_Peek1 rd b =
     (let b1 = (if buf b = [] \<and> berr b = None then fill rd b else b) in
      case buf b1 of
        c # cs \<Rightarrow> (b1, Inr c)
      | [] \<Rightarrow> (case readErr b1 of (b2, e) \<Rightarrow>
               (b2, Inl (case e of Some x \<Rightarrow> x | None \<Rightarrow> NoProgress))))"

definition bufioContent :: "('r \<Rightarrow> bytes) \<Rightarrow> 'r bufio \<Rightarrow> bytes" where
  "bufioContent content b = buf b @ content (inner b)"

definition bufioGas :: "('r \<Rightarrow> nat) \<Rightarrow> 'r bufio \<Rightarrow> nat" where
  "bufioGas gas b = length (buf b) + gas (inner b)"

definition bufioFinal :: "('r \<Rightarrow> go_error) \<Rightarrow> 'r bufio \<Rightarrow> go_error" where
  "bufioFinal final b = final (inner b)"

definition bufioOk :: "('r \<Rightarrow> bool) \<Rightarrow> ('r \<Rightarrow> bytes) \<Rightarrow> ('r \<Rightarrow> go_error) \<Rightarrow> 'r bufio \<Rightarrow> bool" where
  "bufioOk ok content final b \<longleftrightarrow>
     ok (inner b) \<and> length (buf b) \<le> bufSize \<and>
     (\<forall>x. berr b = Some x \<longrightarrow> x = final (inner b) \<and> content (inner b) = [])"

lemmas bufio_abs = bufioContent_def bufioGas_def bufioFinal_def bufioOk_def

context busy_reader
begin

text \<open>On a busy reader one read fills the buffer.\<close>

lemma fill_eq:
  assumes "ok (inner b)" "length (buf b) < bufSize"
  shows "fill rd b =
    (case rd (inner b) (bufSize - length (buf b)) of (r', bs, e) \<Rightarrow>
       b\<lparr>inner := r', buf := buf b @ bs, berr := (case e of None \<Rightarrow> berr b | Some x \<Rightarrow> Some x)\<rparr>)"
proof -
  obtain r' bs e where step: "rd (inner b) (bufSize - length (buf b)) = (r', bs, e)"
    by (cases "rd (inner b) (bufSize - length (buf b))")
  have "e = None \<Longrightarrow> bs \<noteq> []"
    using rd_busy [OF assms(1), of "bufSize - length (buf b)" r' bs] step assms(2) by simp
  moreover have "fill rd b = fillLoop rd (Suc 99) b" by (simp add: fill_def)
  ultimately show ?thesis
    unfolding fillLoop.simps(2) using step by (auto simp: Let_def split: option.split)
qed

lemma fill_laws:
  assumes "bufioOk ok content final b" "length (buf b) < bufSize" "berr b = None"
  shows "bufioOk ok content final (fill rd b)"
    and "bufioContent content (fill rd b) = bufioContent content b"
    and "bufioFinal final (fill rd b) = bufioFinal final b"
    and "bufioGas gas (fill rd b) \<le> bufioGas gas b"
    and "buf (fill rd b) = buf b \<Longrightarrow> berr (fill rd b) \<noteq> None"
    and "berr (fill rd b) = None \<Longrightarrow> gas (inner (fill rd b)) < gas (inner b)"
proof -
  obtain r' bs e where step: "rd (inner b) (bufSize - length (buf b)) = (r', bs, e)"
    by (cases "rd (inner b) (bufSize - length (buf b))")
  have ok: "ok (inner b)" using assms(1) by (simp add: bufio_abs)
  note laws = rd_laws [OF ok step]
  have f: "fill rd b = b\<lparr>inner := r', buf := buf b @ bs, berr := e\<rparr>"
    using fill_eq [OF ok assms(2)] step assms(3) by (simp split: option.split)
  show "bufioOk ok content final (fill rd b)"
    using f laws assms step rd_end [OF ok] by (auto simp: bufio_abs)
  show "bufioContent content (fill rd b) = bufioContent content b"
    "bufioFinal final (fill rd b) = bufioFinal final b"
    "bufioGas gas (fill rd b) \<le> bufioGas gas b"
    using f laws by (auto simp: bufio_abs)
  show "buf (fill rd b) = buf b \<Longrightarrow> berr (fill rd b) \<noteq> None"
    using f step rd_busy [OF ok, of "bufSize - length (buf b)" r' bs] assms(2) by auto
  show "berr (fill rd b) = None \<Longrightarrow> gas (inner (fill rd b)) < gas (inner b)"
    using f step rd_progress [OF ok, of "bufSize - length (buf b)" r' bs] assms(2) by simp
qed

end

text \<open>The six ways a buffered read goes.\<close>

lemma bufio_Read_cases:
  assumes "bufio_Read rd b k = (b', bs, e)"
  obtains
    (zero) "k = 0" "buf b \<noteq> []" "b' = b" "bs = []" "e = None"
  | (err) "buf b = []" "k = 0 \<or> berr b \<noteq> None" "b' = b\<lparr>berr := None\<rparr>" "bs = []" "e = berr b"
  | (buffered) "0 < k" "buf b \<noteq> []" "b' = b\<lparr>buf := drop k (buf b)\<rparr>" "bs = take k (buf b)" "e = None"
  | (direct) r' where "0 < k" "bufSize \<le> k" "buf b = []" "berr b = None"
      "rd (inner b) k = (r', bs, e)" "b' = b\<lparr>inner := r'\<rparr>"
  | (empty) r' where "0 < k" "buf b = []" "berr b = None"
      "rd (inner b) bufSize = (r', [], e)" "b' = b\<lparr>inner := r'\<rparr>" "bs = []"
  | (filled) r' cs e' where "0 < k" "buf b = []" "berr b = None" "cs \<noteq> []"
      "rd (inner b) bufSize = (r', cs, e')" "b' = b\<lparr>inner := r', buf := drop k cs, berr := e'\<rparr>"
      "bs = take k cs" "e = None"
proof -
  consider "k = 0" "buf b \<noteq> []" | "k = 0" "buf b = []" | "0 < k" "buf b \<noteq> []"
    | "0 < k" "buf b = []" "berr b \<noteq> None" | "0 < k" "buf b = []" "berr b = None" "bufSize \<le> k"
    | "0 < k" "buf b = []" "berr b = None" "\<not> bufSize \<le> k"
    by (cases "k = 0") auto
  then show thesis
  proof cases
    case 1
    with assms have "b' = b" "bs = []" "e = None" by (simp_all add: bufio_Read_def)
    with 1 show ?thesis by (intro zero)
  next
    case 2
    with assms have "b' = b\<lparr>berr := None\<rparr>" "bs = []" "e = berr b"
      by (simp_all add: bufio_Read_def readErr_def)
    with 2 show ?thesis by (intro err) simp_all
  next
    case 3
    with assms have "b' = b\<lparr>buf := drop k (buf b)\<rparr>" "bs = take k (buf b)" "e = None"
      by (simp_all add: bufio_Read_def)
    with 3 show ?thesis by (intro buffered)
  next
    case 4
    with assms have "b' = b\<lparr>berr := None\<rparr>" "bs = []" "e = berr b"
      by (simp_all add: bufio_Read_def readErr_def)
    with 4 show ?thesis by (intro err) simp_all
  next
    case 5
    obtain r' cs e' where step: "rd (inner b) k = (r', cs, e')" by (cases "rd (inner b) k")
    with 5 assms have "b' = b\<lparr>inner := r'\<rparr>" "bs = cs" "e = e'" by (simp_all add: bufio_Read_def)
    with 5 step show ?thesis by (intro direct) simp_all
  next
    case 6
    obtain r' cs e' where step: "rd (inner b) bufSize = (r', cs, e')" by (cases "rd (inner b) bufSize")
    show ?thesis
    proof (cases "cs = []")
      case True
      with 6 assms step have "b' = b\<lparr>inner := r'\<rparr>" "bs = []" "e = e'"
        by (simp_all add: bufio_Read_def)
      with True 6 step show ?thesis by (intro empty) simp_all
    next
      case False
      with 6 assms step have "b' = b\<lparr>inner := r', buf := drop k cs, berr := e'\<rparr>"
          "bs = take k cs" "e = None"
        by (simp_all add: bufio_Read_def)
      with False 6 step show ?thesis by (intro filled) simp_all
    qed
  qed
qed

context io_reader
begin

text \<open>A buffered reader is a reader of the same content.\<close>

lemma bufio_step:
  assumes b: "bufioOk ok content final b" and r: "bufio_Read rd b k = (b', bs, e)"
  shows "bufioOk ok content final b' \<and> length bs \<le> k \<and>
    bufioContent content b = bs @ bufioContent content b' \<and>
    bufioFinal final b' = bufioFinal final b \<and>
    bufioGas gas b' + length bs \<le> bufioGas gas b \<and>
    (\<forall>x. e = Some x \<longrightarrow> x = bufioFinal final b \<and> bufioContent content b' = []) \<and>
    (0 < k \<and> e = None \<longrightarrow> bufioGas gas b' < bufioGas gas b)"
proof -
  have ok: "ok (inner b)" using b by (simp add: bufio_abs)
  from r show ?thesis
  proof (cases rule: bufio_Read_cases)
    case zero
    with b show ?thesis by simp
  next
    case err
    with b show ?thesis by (auto simp: bufio_abs)
  next
    case buffered
    have "length (drop k (buf b)) + length (take k (buf b)) = length (buf b)"
        "0 < length (take k (buf b))"
      using buffered(1,2) by auto
    with b buffered(3-5) show ?thesis by (simp add: bufio_abs)
  next
    case (direct r')
    with b rd_step [OF ok direct(5)] show ?thesis by (auto simp: bufio_abs)
  next
    case (empty r')
    with b rd_step [OF ok empty(4)] show ?thesis by (auto simp: bufio_abs bufSize_def)
  next
    case (filled r' cs e')
    note step = rd_step [OF ok filled(5)]
    have "content (inner b) = take k cs @ drop k cs @ content r'"
      using step by (simp flip: append_assoc)
    moreover have "length (take k cs) \<le> k" "length (drop k cs) \<le> bufSize"
        "length (drop k cs) + length (take k cs) = length cs" "0 < length (take k cs)"
      using step filled(1,4) by auto
    moreover have "length cs - k < length cs" using filled(1,4) by simp
    then have "length cs - k + gas r' < gas (inner b)" using step by linarith
    ultimately show ?thesis
      using b filled(2,3,6,7,8) step by (simp add: bufio_abs)
  qed
qed

lemma bufio_reader:
  "io_reader (bufio_Read rd) (bufioOk ok content final) (bufioContent content)
     (bufioFinal final) (bufioGas gas)"
  by unfold_locales (use bufio_step in blast)+

end

end
