(* ===== verification/Lines.thy ===== *)
theory Lines
  imports Reader
begin

text \<open>
  A \<open>bufio.Reader\<close> on a connection: single bytes, and lines with \<open>ReadString('\n')\<close>.
  Both depend only on what the peer sent, not on how the network cut it up.
\<close>

section \<open>Single bytes\<close>

context busy_reader
begin

lemma bufio_ReadByte_spec:
  assumes b: "bufioOk ok content final b" and r: "bufio_ReadByte rd b = (b', res)"
  shows "bufioOk ok content final b' \<and> bufioFinal final b' = bufioFinal final b \<and>
    bufioGas gas b' \<le> bufioGas gas b \<and>
    (case bufioContent content b of
       c # cs \<Rightarrow> res = Inr c \<and> bufioContent content b' = cs
     | [] \<Rightarrow> res = Inl (bufioFinal final b) \<and> bufioContent content b' = [])"
proof -
  define b1 where "b1 = (if buf b = [] \<and> berr b = None then fill rd b else b)"
  have ok1: "bufioOk ok content final b1" and c1: "bufioContent content b1 = bufioContent content b"
    and f1: "bufioFinal final b1 = bufioFinal final b"
    and e1: "buf b1 = [] \<Longrightarrow> berr b1 \<noteq> None"
    and g1: "bufioGas gas b1 \<le> bufioGas gas b"
    using b fill_laws [OF b] by (auto simp: b1_def bufSize_def split: if_splits)
  have res: "(case buf b1 of
        c # cs \<Rightarrow> (b1\<lparr>buf := cs\<rparr>, Inr c)
      | [] \<Rightarrow> (case readErr b1 of (b2, e) \<Rightarrow>
               (b2, Inl (case e of Some x \<Rightarrow> x | None \<Rightarrow> NoProgress)))) = (b', res)"
    using r unfolding bufio_ReadByte_def b1_def [symmetric] Let_def .
  show ?thesis
  proof (cases "buf b1")
    case Nil
    then obtain x where x: "berr b1 = Some x" using e1 by auto
    with Nil ok1 have "bufioContent content b = []" "x = bufioFinal final b"
      using c1 f1 by (auto simp: bufio_abs)
    with Nil x res ok1 f1 g1 show ?thesis by (auto simp: readErr_def bufio_abs)
  next
    case (Cons c cs)
    then have "bufioContent content b = c # cs @ content (inner b1)"
      using c1 by (simp add: bufio_abs)
    with Cons res ok1 f1 g1 show ?thesis by (auto simp: bufio_abs)
  qed
qed

end

section \<open>The connection behind a buffer\<close>

type_synonym conn_reader = "inp bufio"

abbreviation crOk :: "conn_reader \<Rightarrow> bool" where
  "crOk \<equiv> bufioOk wf_inp inpContent inpEnd"

abbreviation crContent :: "conn_reader \<Rightarrow> bytes" where
  "crContent \<equiv> bufioContent inpContent"

abbreviation crFinal :: "conn_reader \<Rightarrow> go_error" where
  "crFinal \<equiv> bufioFinal inpEnd"

abbreviation crGas :: "conn_reader \<Rightarrow> nat" where
  "crGas \<equiv> bufioGas inpGas"

definition cr_Read :: "conn_reader readfn" where
  "cr_Read = bufio_Read inp_Read"

interpretation cr: io_reader cr_Read crOk crContent crFinal crGas
  unfolding cr_Read_def by (rule inp.bufio_reader)

lemma newBufio_abs [simp]:
  "wf_inp c \<Longrightarrow> crOk (newBufio c)"
  "crContent (newBufio c) = inpContent c"
  "crFinal (newBufio c) = inpEnd c"
  "crGas (newBufio c) = inpGas c"
  by (simp_all add: newBufio_def bufio_abs)

section \<open>\<open>ReadString('\n')\<close>\<close>

lemma fillLoop_gas:
  "length (buf b) < bufSize \<Longrightarrow> berr (fillLoop inp_Read i b) = None \<Longrightarrow>
   inpGas (inner (fillLoop inp_Read i b)) < inpGas (inner b)"
proof (induction i arbitrary: b)
  case 0
  then show ?case by simp
next
  case (Suc i)
  obtain r' bs e where step: "inp_Read (inner b) (bufSize - length (buf b)) = (r', bs, e)"
    by (cases "inp_Read (inner b) (bufSize - length (buf b))")
  have less: "e = None \<Longrightarrow> inpGas r' < inpGas (inner b)"
    using step Suc.prems(1) by (auto simp: inp_Read_def inpGas_def split: list.splits if_splits)
  let ?b = "b\<lparr>inner := r', buf := buf b @ []\<rparr>"
  show ?case
  proof (cases "e = None \<and> bs = []")
    case True
    then have "fillLoop inp_Read (Suc i) b = fillLoop inp_Read i ?b"
      using step by (simp add: Let_def)
    with True less Suc.IH [of ?b] Suc.prems show ?thesis by simp
  next
    case False
    with step less Suc.prems(2) show ?thesis by (auto simp: Let_def split: option.splits)
  qed
qed

text \<open>
  \<open>ReadString\<close> collects full buffers (4096 bytes) in \<open>acc\<close> until it finds the delimiter or
  meets an error, which it returns with what it has read so far.
\<close>

function readString :: "conn_reader \<Rightarrow> bytes \<Rightarrow> conn_reader \<times> bytes \<times> go_error option" where
  "readString b acc =
     (if newline \<in> set (buf b) then
        (let line = takeWhile (\<lambda>c. c \<noteq> newline) (buf b) @ [newline] in
         (b\<lparr>buf := drop (length line) (buf b)\<rparr>, acc @ line, None))
      else if berr b \<noteq> None then
        (case readErr b of (b', e) \<Rightarrow> (b'\<lparr>buf := []\<rparr>, acc @ buf b, e))
      else if bufSize \<le> length (buf b) then readString (b\<lparr>buf := []\<rparr>) (acc @ buf b)
      else readString (fill inp_Read b) acc)"
  by pat_completeness auto
termination
proof (relation "measures [\<lambda>(b, acc). inpGas (inner b),
    \<lambda>(b, acc). if berr b = None then 1 else 0, \<lambda>(b, acc). length (buf b)]")
  fix b :: conn_reader and acc :: bytes
  assume "\<not> bufSize \<le> length (buf b)" and e: "\<not> berr b \<noteq> None"
  then have small: "length (buf b) < bufSize" by simp
  have "inpGas (inner (fillLoop inp_Read i b)) \<le> inpGas (inner b)" for i
  proof (induction i arbitrary: b)
    case (Suc i)
    obtain r' bs e where step: "inp_Read (inner b) (bufSize - length (buf b)) = (r', bs, e)"
      by (cases "inp_Read (inner b) (bufSize - length (buf b))")
    then have "inpGas r' \<le> inpGas (inner b)"
      by (auto simp: inp_Read_def inpGas_def split: list.splits if_splits)
    with step Suc [of "b\<lparr>inner := r', buf := buf b @ bs\<rparr>"] show ?case
      by (auto simp: Let_def split: option.splits)
  qed simp
  then show "((fill inp_Read b, acc), b, acc) \<in> measures [\<lambda>(b, acc). inpGas (inner b),
      \<lambda>(b, acc). if berr b = None then 1 else 0, \<lambda>(b, acc). length (buf b)]"
    using fillLoop_gas [OF small, of 100] e
    by (cases "berr (fill inp_Read b)") (auto simp: fill_def le_less)
qed (auto simp: bufSize_def)

declare readString.simps [simp del]

definition bufio_ReadString :: "conn_reader \<Rightarrow> conn_reader \<times> bytes \<times> go_error option" where
  "bufio_ReadString b = readString b []"

text \<open>The line at the front of a byte sequence, with its newline, and what follows it.\<close>

definition frontLine :: "bytes \<Rightarrow> bytes" where
  "frontLine s = takeWhile (\<lambda>c. c \<noteq> newline) s @ [newline]"

definition afterLine :: "bytes \<Rightarrow> bytes" where
  "afterLine s = tl (dropWhile (\<lambda>c. c \<noteq> newline) s)"

lemma line_split: "newline \<in> set s \<Longrightarrow> frontLine s @ afterLine s = s"
  by (induction s) (auto simp: frontLine_def afterLine_def)

lemma frontLine_append:
  "newline \<in> set s \<Longrightarrow> frontLine (s @ t) = frontLine s"
  "newline \<in> set s \<Longrightarrow> afterLine (s @ t) = afterLine s @ t"
  "newline \<notin> set s \<Longrightarrow> frontLine (s @ t) = s @ frontLine t"
  "newline \<notin> set s \<Longrightarrow> afterLine (s @ t) = afterLine t"
  by (induction s) (auto simp: frontLine_def afterLine_def)

lemma frontLine_line: "newline \<notin> set s \<Longrightarrow> frontLine (s @ newline # t) = s @ [newline]"
  and afterLine_line: "newline \<notin> set s \<Longrightarrow> afterLine (s @ newline # t) = t"
  by (simp_all add: frontLine_append) (simp_all add: frontLine_def afterLine_def)

lemma drop_frontLine: "newline \<in> set s \<Longrightarrow> drop (length (frontLine s)) s = afterLine s"
  by (metis line_split append_eq_conv_conj)

lemma readString_spec:
  assumes "crOk b"
  shows "\<exists>b'. readString b acc =
      (if newline \<in> set (crContent b) then (b', acc @ frontLine (crContent b), None)
       else (b', acc @ crContent b, Some (crFinal b)))
    \<and> crOk b' \<and> crFinal b' = crFinal b
    \<and> crContent b' = (if newline \<in> set (crContent b) then afterLine (crContent b) else [])"
  using assms
proof (induction b acc rule: readString.induct)
  case (1 b acc)
  have content: "crContent b = buf b @ inpContent (inner b)" by (simp add: bufio_abs)
  consider (found) "newline \<in> set (buf b)"
    | (failed) x where "newline \<notin> set (buf b)" "berr b = Some x"
    | (full) "newline \<notin> set (buf b)" "berr b = None" "bufSize \<le> length (buf b)"
    | (more) "newline \<notin> set (buf b)" "berr b = None" "length (buf b) < bufSize"
    by (cases "berr b") force+
  then show ?case
  proof cases
    case found
    let ?b = "b\<lparr>buf := drop (length (frontLine (buf b))) (buf b)\<rparr>"
    have "readString b acc = (?b, acc @ frontLine (buf b), None)"
      using found by (subst readString.simps) (simp add: frontLine_def Let_def)
    moreover have "length (afterLine (buf b)) \<le> length (buf b)"
      by (simp flip: drop_frontLine [OF found])
    ultimately show ?thesis
      using found "1.prems" by (intro exI [of _ ?b])
         (auto simp: content frontLine_append bufio_abs drop_frontLine simp del: drop_append)
  next
    case failed
    let ?b = "b\<lparr>berr := None, buf := []\<rparr>"
    have "readString b acc = (?b, acc @ buf b, Some x)"
      using failed by (subst readString.simps) (simp add: readErr_def)
    moreover have "inpContent (inner b) = []" "x = crFinal b"
      using failed "1.prems" by (auto simp: bufio_abs)
    ultimately show ?thesis
      using failed "1.prems" by (intro exI [of _ ?b]) (auto simp: content bufio_abs)
  next
    case full
    let ?b = "b\<lparr>buf := []\<rparr>"
    have step: "readString b acc = readString ?b (acc @ buf b)"
      using full by (subst readString.simps) simp
    have "crOk ?b" "crContent b = buf b @ crContent ?b" "crFinal ?b = crFinal b"
      using "1.prems" by (auto simp: bufio_abs)
    with "1.IH"(1) [OF _ _ full(3)] full show ?thesis
      by (auto simp: step frontLine_append)
  next
    case more
    have step: "readString b acc = readString (fill inp_Read b) acc"
      using more by (subst readString.simps) simp
    note laws = inp.fill_laws [OF "1.prems" more(3) more(2)]
    have "\<not> berr b \<noteq> None" "\<not> bufSize \<le> length (buf b)" using more by simp_all
    from "1.IH"(2) [OF more(1) this laws(1)] show ?thesis
      unfolding step laws(2,3) .
  qed
qed

lemma bufio_ReadString_line:
  assumes "crOk b" "newline \<in> set (crContent b)" "bufio_ReadString b = (b', line, e)"
  shows "line = frontLine (crContent b)" "e = None" "crOk b'"
    "crContent b' = afterLine (crContent b)" "crFinal b' = crFinal b"
  using readString_spec [OF assms(1), of "[]"] assms(2,3) by (auto simp: bufio_ReadString_def)

lemma bufio_ReadString_end:
  assumes "crOk b" "newline \<notin> set (crContent b)" "bufio_ReadString b = (b', line, e)"
  shows "line = crContent b" "e = Some (crFinal b)" "crOk b'" "crContent b' = []"
    "crFinal b' = crFinal b"
  using readString_spec [OF assms(1), of "[]"] assms(2,3) by (auto simp: bufio_ReadString_def)

text \<open>
  A line that ends with a chunk leaves the chunks behind it on the connection: nothing of them
  is lost in the buffer.
\<close>

lemma fill_chunk:
  assumes "chunks (inner b) = c # cs" "c \<noteq> []" "cs \<noteq> [] \<or> \<not> early (inner b)" "length (buf b) < bufSize"
  shows "fill inp_Read b =
    (let k = bufSize - length (buf b) in
     b\<lparr>inner := (inner b)\<lparr>chunks := (if length c \<le> k then cs else drop k c # cs)\<rparr>, buf := buf b @ take k c\<rparr>)"
proof -
  let ?k = "bufSize - length (buf b)"
  have "take ?k c \<noteq> []" using assms(2,4) by simp
  moreover have "inp_Read (inner b) ?k =
      ((inner b)\<lparr>chunks := (if length c \<le> ?k then cs else drop ?k c # cs)\<rparr>, take ?k c, None)"
    using assms(1,3) by (auto simp: inp_Read_def)
  ultimately show ?thesis
    unfolding fill_def by (subst fillLoop.simps(2) [of _ 99, simplified]) (simp add: Let_def)
qed

lemma readString_rest:
  "wf_inp (inner b) \<Longrightarrow> chunks (inner b) = pre @ post \<Longrightarrow> post \<noteq> [] \<or> \<not> early (inner b) \<Longrightarrow>
   buf b @ concat pre = line @ [newline] \<Longrightarrow> newline \<notin> set line \<Longrightarrow> berr b = None \<Longrightarrow>
   inner (fst (readString b acc)) = (inner b)\<lparr>chunks := post\<rparr>"
proof (induction b acc arbitrary: pre line rule: readString.induct)
  case (1 b acc)
  show ?case
  proof (cases "newline \<in> set (buf b)")
    case True
    then obtain xs ys where xs: "buf b = xs @ newline # ys" "newline \<notin> set xs"
      by (meson split_list_first)
    have "afterLine (xs @ newline # ys @ concat pre) = afterLine (line @ newline # [])"
      using "1.prems"(4) xs(1) by simp
    then have "concat pre = []"
      using afterLine_line [OF xs(2)] afterLine_line [OF "1.prems"(5)] by simp
    moreover have "[] \<notin> set pre" using "1.prems"(1,2) by (simp add: wf_inp_def)
    ultimately have "pre = []" by (cases pre) auto
    with True "1.prems"(2) show ?thesis by (subst readString.simps) (simp add: Let_def)
  next
    case False
    show ?thesis
    proof (cases "bufSize \<le> length (buf b)")
      case True
      let ?b = "b\<lparr>buf := []\<rparr>"
      from "1.prems"(4) False obtain line' where line: "line = buf b @ line'" "concat pre = line' @ [newline]"
        by (auto simp: append_eq_append_conv2 append_eq_Cons_conv)
      have "readString b acc = readString ?b (acc @ buf b)"
        using False True "1.prems"(6) by (subst readString.simps) simp
      then show ?thesis
        using "1.IH"(1) [OF False _ True, of pre line'] "1.prems" line by simp
    next
      case small: False
      have "pre \<noteq> []" using "1.prems"(4) False by auto
      then obtain c cs where pre: "pre = c # cs" by (cases pre) auto
      have c: "c \<noteq> []" using "1.prems"(1,2) pre by (auto simp: wf_inp_def)
      have rest: "cs @ post \<noteq> [] \<or> \<not> early (inner b)" using "1.prems"(3) by auto
      let ?k = "bufSize - length (buf b)"
      let ?pre = "if length c \<le> ?k then cs else drop ?k c # cs"
      let ?b = "b\<lparr>inner := (inner b)\<lparr>chunks := ?pre @ post\<rparr>, buf := buf b @ take ?k c\<rparr>"
      have fill: "fill inp_Read b = ?b"
        using fill_chunk [of b c "cs @ post"] "1.prems"(2) pre c rest small by (auto simp: Let_def not_le)
      have "readString b acc = readString ?b acc"
        using False small "1.prems"(6) by (subst readString.simps) (simp add: fill)
      moreover have "wf_inp (inner ?b)" using "1.prems"(1,2) pre by (auto simp: wf_inp_def)
      moreover have "concat ?pre = drop ?k c @ concat cs" by simp
      then have "(buf b @ take ?k c) @ concat ?pre = line @ [newline]"
        using "1.prems"(4) pre append_take_drop_id [of ?k c] by (simp only: append_assoc concat.simps) (simp flip: append_assoc)
      ultimately show ?thesis
        using "1.IH"(2) [OF False _ small, unfolded fill, of ?pre line] "1.prems"(3,5,6) by simp
    qed
  qed
qed

lemma bufio_ReadString_rest:
  assumes "wf_inp r" "chunks r = pre @ post" "post \<noteq> [] \<or> \<not> early r"
    and "concat pre = line @ [newline]" "newline \<notin> set line"
  shows "inner (fst (bufio_ReadString (newBufio r))) = r\<lparr>chunks := post\<rparr>"
  using readString_rest [of "newBufio r" pre post line "[]"] assms by (simp add: bufio_ReadString_def newBufio_def)

end
