(* ===== verification/Handshake.thy ===== *)
theory Handshake
  imports MergeProfile Lines
begin

text \<open>
  \<open>internal/protocol/handshake.go\<close>: the mode line, the client handshake and the
  invitation line with the seven data ports.
\<close>

section \<open>Modes, ports and invitations\<close>

type_synonym mode = string

definition ModeSplit :: mode where "ModeSplit = ''split''"
definition ModeMerge :: mode where "ModeMerge = ''merge''"

record data_ports =
  portDoc :: int
  portEC :: int
  portOC :: int
  portEN :: int
  portON :: int
  portCP :: int
  portNP :: int

record invitation =
  invToken :: string
  invMode :: mode
  invPorts :: data_ports

definition parseModeLine :: "string \<Rightarrow> mode result" where
  "parseModeLine line =
     (let m = trimSpace line in
      if m = ModeSplit \<or> m = ModeMerge then Inr m
      else Inl (Quotef ''invalid mode '' line '': want split or merge''))"

definition formatInvitation :: "invitation \<Rightarrow> string" where
  "formatInvitation i =
     invToken i @ '' '' @ invMode i @ '' '' @
     fmtInt (portDoc (invPorts i)) @ '' '' @ fmtInt (portEC (invPorts i)) @ '' '' @
     fmtInt (portOC (invPorts i)) @ '' '' @ fmtInt (portEN (invPorts i)) @ '' '' @
     fmtInt (portON (invPorts i)) @ '' '' @ fmtInt (portCP (invPorts i)) @ '' '' @
     fmtInt (portNP (invPorts i)) @ [newline]"

section \<open>Reading the control channel\<close>

text \<open>
  The readers wrap the connection in a fresh \<open>bufio.Reader\<close>; they return the connection as
  the buffer leaves it and drop the buffer, so bytes it has read ahead are gone.
\<close>

definition noProfile :: merge_profile where
  "noProfile = \<lparr>MissingMask = 0\<rparr>"

definition readProfileFor :: "mode \<Rightarrow> conn_reader \<Rightarrow> inp \<times> (mode \<times> merge_profile) result" where
  "readProfileFor m br =
     (if m = ModeMerge then
        (case bufio_ReadString br of (br, line, err) \<Rightarrow>
           (inner br,
            case err of
              Some e \<Rightarrow> Inl (Wrapf ''read profile line'' e)
            | None \<Rightarrow>
                (case parseProfileLine line of
                   Inl e \<Rightarrow> Inl e
                 | Inr profile \<Rightarrow> Inr (m, profile))))
      else (inner br, Inr (m, noProfile)))"

definition readClientHandshake :: "inp \<Rightarrow> inp \<times> (mode \<times> merge_profile) result" where
  "readClientHandshake r =
     (case bufio_ReadString (newBufio r) of (br, line, err) \<Rightarrow>
        if err \<noteq> None \<and> err \<noteq> Some EOF then (inner br, Inl (Wrapf ''read mode line'' (the err)))
        else if line = [] then (inner br, Inl (Errorf ''empty mode line''))
        else case parseModeLine line of
          Inl e \<Rightarrow> (inner br, Inl e)
        | Inr m \<Rightarrow> readProfileFor m br)"

definition readClientMode :: "inp \<Rightarrow> inp \<times> mode result" where
  "readClientMode r =
     (case bufio_ReadString (newBufio r) of (br, line, err) \<Rightarrow>
        (inner br,
         if err \<noteq> None \<and> err \<noteq> Some EOF then Inl (Wrapf ''read mode line'' (the err))
         else if line = [] then Inl (Errorf ''empty mode line'')
         else parseModeLine line))"

fun parsePorts :: "string list \<Rightarrow> int list result" where
  "parsePorts [] = Inr []"
| "parsePorts (s # ss) =
     (case atoi s of
        Inl e \<Rightarrow> Inl (QuoteWrapf ''parse port '' s '''' e)
      | Inr p \<Rightarrow> (case parsePorts ss of Inl e \<Rightarrow> Inl e | Inr ps \<Rightarrow> Inr (p # ps)))"

definition portsOf :: "int list \<Rightarrow> data_ports" where
  "portsOf ps = \<lparr>portDoc = ps ! 0, portEC = ps ! 1, portOC = ps ! 2, portEN = ps ! 3,
     portON = ps ! 4, portCP = ps ! 5, portNP = ps ! 6\<rparr>"

definition parseInvitation :: "string \<Rightarrow> invitation result" where
  "parseInvitation line =
     (let fs = strFields (trimSpace line) in
      if length fs \<noteq> 9
      then Inl (Errorf (''invitation has '' @ fmtNat 10 (length fs) @ '' fields, want 9''))
      else case parsePorts (drop 2 fs) of
        Inl e \<Rightarrow> Inl e
      | Inr ps \<Rightarrow> Inr \<lparr>invToken = fs ! 0, invMode = fs ! 1, invPorts = portsOf ps\<rparr>)"

definition readInvitation :: "inp \<Rightarrow> inp \<times> invitation result" where
  "readInvitation r =
     (case bufio_ReadString (newBufio r) of (br, line, err) \<Rightarrow>
        (inner br,
         case err of
           Some e \<Rightarrow> Inl (Wrapf ''read invitation'' e)
         | None \<Rightarrow> parseInvitation line))"

definition readMergeProfile :: "inp \<Rightarrow> inp \<times> merge_profile result" where
  "readMergeProfile r =
     (case bufio_ReadString (newBufio r) of (br, line, err) \<Rightarrow>
        (inner br,
         case err of
           Some e \<Rightarrow> Inl (Wrapf ''read profile line'' e)
         | None \<Rightarrow> parseProfileLine line))"

section \<open>The handshake as a function of what the client sent\<close>

definition profileSpec :: "mode \<Rightarrow> bytes \<Rightarrow> go_error \<Rightarrow> (mode \<times> merge_profile) result" where
  "profileSpec m s endErr =
     (if m \<noteq> ModeMerge then Inr (m, noProfile)
      else if newline \<in> set s then
        (case parseProfileLine (frontLine s) of Inl e \<Rightarrow> Inl e | Inr p \<Rightarrow> Inr (m, p))
      else Inl (Wrapf ''read profile line'' endErr))"

definition handshakeSpec :: "bytes \<Rightarrow> go_error \<Rightarrow> (mode \<times> merge_profile) result" where
  "handshakeSpec s endErr =
     (if newline \<in> set s then
        (case parseModeLine (frontLine s) of
           Inl e \<Rightarrow> Inl e
         | Inr m \<Rightarrow> profileSpec m (afterLine s) endErr)
      else if endErr \<noteq> EOF then Inl (Wrapf ''read mode line'' endErr)
      else if s = [] then Inl (Errorf ''empty mode line'')
      else (case parseModeLine s of
           Inl e \<Rightarrow> Inl e
         | Inr m \<Rightarrow> profileSpec m [] endErr))"

lemma readProfileFor_spec:
  assumes "crOk br"
  shows "snd (readProfileFor m br) = profileSpec m (crContent br) (crFinal br)"
proof -
  obtain b' line err where r: "bufio_ReadString br = (b', line, err)"
    by (cases "bufio_ReadString br")
  then show ?thesis
    using bufio_ReadString_line [OF assms _ r] bufio_ReadString_end [OF assms _ r]
    by (cases "newline \<in> set (crContent br)") (simp_all add: readProfileFor_def profileSpec_def)
qed

lemma frontLine_nonempty [simp]: "frontLine s \<noteq> []"
  by (simp add: frontLine_def)

lemma readClientHandshake_eq:
  assumes "wf_inp r"
  shows "snd (readClientHandshake r) = handshakeSpec (inpContent r) (inpEnd r)"
proof -
  let ?b = "newBufio r"
  have ok: "crOk ?b" using assms by simp
  obtain b' line err where r: "bufio_ReadString ?b = (b', line, err)"
    by (cases "bufio_ReadString ?b")
  show ?thesis
  proof (cases "newline \<in> set (inpContent r)")
    case True
    with bufio_ReadString_line [OF ok _ r] have "line = frontLine (inpContent r)" "err = None"
        "crOk b'" "crContent b' = afterLine (inpContent r)" "crFinal b' = inpEnd r"
      by simp_all
    with True show ?thesis
      by (simp add: readClientHandshake_def r handshakeSpec_def readProfileFor_spec
          split: sum.split)
  next
    case False
    with bufio_ReadString_end [OF ok _ r] have "line = inpContent r" "err = Some (inpEnd r)"
        "crOk b'" "crContent b' = []" "crFinal b' = inpEnd r"
      by simp_all
    with False show ?thesis
      by (simp add: readClientHandshake_def r handshakeSpec_def readProfileFor_spec
          split: sum.split)
  qed
qed

text \<open>
  C11: the server's view of a handshake is a function of the bytes the client sent and of how
  the connection ended; it does not depend on how TCP cut the bytes into reads.
\<close>

theorem readClientHandshake_refines:
  assumes "wf_inp r"
  shows "snd (readClientHandshake r) = handshakeSpec (inpContent r) (inpEnd r)"
  using assms by (rule readClientHandshake_eq)

theorem readClientHandshake_refines_witness:
  "wf_inp \<lparr>chunks = [''mer'', ''ge'' @ [newline] @ ''prof'', ''ile 9'' @ [newline]],
     inpEnd = EOF, early = False\<rparr>
   \<and> snd (readClientHandshake \<lparr>chunks = [''mer'', ''ge'' @ [newline] @ ''prof'', ''ile 9'' @ [newline]],
     inpEnd = EOF, early = False\<rparr>) =
     handshakeSpec (''merge'' @ [newline] @ ''profile 9'' @ [newline]) EOF"
proof -
  let ?c = "\<lparr>chunks = [''mer'', ''ge'' @ [newline] @ ''prof'', ''ile 9'' @ [newline]],
     inpEnd = EOF, early = False\<rparr>"
  have wf: "wf_inp ?c" by (simp add: wf_inp_def)
  moreover have "inpContent ?c = ''merge'' @ [newline] @ ''profile 9'' @ [newline]"
    by (simp add: inpContent_def)
  ultimately show ?thesis using readClientHandshake_refines [OF wf] by simp
qed

lemma parseModeLine_known:
  assumes "m = ModeSplit \<or> m = ModeMerge"
  shows "parseModeLine (m @ [newline]) = Inr m" "parseModeLine m = Inr m"
proof -
  have m: "nospace m" "m \<noteq> []" "plain (last m)"
    using assms by (auto simp: ModeSplit_def ModeMerge_def asciiSpace_def plain_def)
  with trimSpace_word [OF this] assms
  show "parseModeLine (m @ [newline]) = Inr m" "parseModeLine m = Inr m"
    by (simp_all add: parseModeLine_def Let_def)
qed

lemma newline_free: "m = ModeSplit \<or> m = ModeMerge \<Longrightarrow> newline \<notin> set m"
  by (auto simp: ModeSplit_def ModeMerge_def)

lemma plain_newline [simp]: "\<not> plain newline"
  by (simp add: plain_def asciiSpace_def)

lemma formatProfileLine_lines:
  "\<exists>w. formatProfileLine p = w @ [newline] \<and> newline \<notin> set w"
proof -
  have "newline \<notin> set (fmtNat 16 (unat (MissingMask p)))"
    using fmtNat_plain [of 16 newline "unat (MissingMask p)"] by auto
  then show ?thesis
    by (intro exI [of _ "''profile '' @ fmtNat 16 (unat (MissingMask p))"])
       (simp add: formatProfileLine_def)
qed

section \<open>Client handshake round trip\<close>

text \<open>The bytes a client writes before it reads the invitation.\<close>

definition clientHello :: "mode \<Rightarrow> merge_profile \<Rightarrow> bytes" where
  "clientHello m p = m @ [newline] @ (if m = ModeMerge then formatProfileLine p else [])"

lemma hello_understood:
  assumes "wf_inp r" "inpContent r = clientHello m p @ rest"
    and "m = ModeSplit \<or> m = ModeMerge" "unat (MissingMask p) < 16"
  shows "snd (readClientHandshake r) = Inr (m, if m = ModeMerge then p else noProfile)"
proof -
  let ?tail = "(if m = ModeMerge then formatProfileLine p else []) @ rest"
  have content: "inpContent r = m @ newline # ?tail"
    using assms(2) by (simp add: clientHello_def)
  obtain w where w: "formatProfileLine p = w @ [newline]" "newline \<notin> set w"
    using formatProfileLine_lines by blast
  have "frontLine (inpContent r) = m @ [newline]" "afterLine (inpContent r) = ?tail"
    unfolding content using newline_free [OF assms(3)]
    by (simp_all add: frontLine_line afterLine_line)
  moreover have "profileSpec m ?tail e = Inr (m, if m = ModeMerge then p else noProfile)" for e
    using assms(4) parse_formatted [of p]
    by (simp add: profileSpec_def w frontLine_line [OF w(2)])
  ultimately show ?thesis
    using readClientHandshake_eq [OF assms(1)] parseModeLine_known [OF assms(3)]
    by (simp add: handshakeSpec_def content)
qed

text \<open>
  C24: the handshake a client writes is the one the server reads, whatever follows it on the
  connection and however TCP cuts it up; a split session reads no profile.
\<close>

theorem client_handshake_understood:
  assumes "wf_inp r" "inpContent r = clientHello m p @ rest"
    and "m = ModeSplit \<or> m = ModeMerge" "unat (MissingMask p) < 16"
  shows "snd (readClientHandshake r) = Inr (m, if m = ModeMerge then p else noProfile)"
  using assms by (rule hello_understood)

theorem client_handshake_understood_witness:
  "snd (readClientHandshake \<lparr>chunks = [clientHello ModeMerge \<lparr>MissingMask = 9\<rparr>], inpEnd = EOF,
     early = False\<rparr>) = Inr (ModeMerge, \<lparr>MissingMask = 9\<rparr>)"
proof -
  let ?c = "\<lparr>chunks = [clientHello ModeMerge \<lparr>MissingMask = 9\<rparr>], inpEnd = EOF, early = False\<rparr>"
  have "wf_inp ?c" "inpContent ?c = clientHello ModeMerge \<lparr>MissingMask = 9\<rparr> @ []"
    by (simp_all add: wf_inp_def inpContent_def clientHello_def)
  from client_handshake_understood [OF this] show ?thesis by simp
qed

section \<open>The invitation line\<close>

definition portList :: "data_ports \<Rightarrow> int list" where
  "portList d = [portDoc d, portEC d, portOC d, portEN d, portON d, portCP d, portNP d]"

lemma portsOf_portList: "portsOf (portList d) = d"
  by (simp add: portsOf_def portList_def)

lemma parsePorts_fmtInt: "\<forall>p \<in> set ps. is_int64 p \<Longrightarrow> parsePorts (map fmtInt ps) = Inr ps"
  by (induction ps) (simp_all add: atoi_fmtInt)

text \<open>The fields of words joined by single spaces.\<close>

fun joinWords :: "string list \<Rightarrow> string" where
  "joinWords [] = []"
| "joinWords [w] = w"
| "joinWords (w # ws) = w @ '' '' @ joinWords ws"

lemma strFields_joinWords:
  "ws \<noteq> [] \<Longrightarrow> strFields (joinWords ws) = concat (map strFields ws)"
proof (induction ws rule: joinWords.induct)
  case (3 w v vs)
  then show ?case
    using strFields_append_space [of "CHR '' ''" w "joinWords (v # vs)"]
    by (simp add: asciiSpace_def)
qed simp_all

lemma joinWords_snoc: "ws \<noteq> [] \<Longrightarrow> joinWords (ws @ [w]) = joinWords ws @ '' '' @ w"
  by (induction ws rule: joinWords.induct) simp_all

lemma formatInvitation_join:
  "formatInvitation i =
     joinWords (invToken i # invMode i # map fmtInt (portList (invPorts i))) @ [newline]"
  by (simp add: formatInvitation_def portList_def)

lemma fields_formatInvitation:
  assumes "invMode i = ModeSplit \<or> invMode i = ModeMerge"
  shows "strFields (trimSpace (formatInvitation i)) =
    strFields (invToken i) @ invMode i # map fmtInt (portList (invPorts i))"
proof -
  let ?ws = "invToken i # invMode i # map fmtInt (portList (invPorts i))"
  obtain ds d where last: "fmtInt (portNP (invPorts i)) = ds @ [d]"
    by (cases "fmtInt (portNP (invPorts i))" rule: rev_cases) auto
  have d: "plain d" using fmtInt_plain [of d "portNP (invPorts i)"] last by simp
  obtain pre where pre: "joinWords ?ws = pre @ [d]"
    using last by (simp add: portList_def)
  have mode: "strFields (invMode i) = [invMode i]"
    using assms by (intro strFields_word) (auto simp: ModeSplit_def ModeMerge_def asciiSpace_def)
  have "strFields (trimSpace (formatInvitation i)) = strFields (joinWords ?ws)"
    unfolding formatInvitation_join pre
    using strFields_trimSpace_line [OF d, of pre] by simp
  also have "\<dots> = concat (map strFields ?ws)"
    by (rule strFields_joinWords) simp
  also have "\<dots> = strFields (invToken i) @ invMode i # map fmtInt (portList (invPorts i))"
    using mode strFields_word [OF nospace_fmtInt fmtInt_nonempty]
    by (simp add: portList_def)
  finally show ?thesis .
qed

lemma readInvitation_formatted:
  assumes "wf_inp r" "inpContent r = formatInvitation i @ rest" "newline \<notin> set (invToken i)"
    and "invMode i = ModeSplit \<or> invMode i = ModeMerge"
    and "\<forall>p \<in> set (portList (invPorts i)). is_int64 p"
  shows "snd (readInvitation r) =
    (case strFields (invToken i) of
       [t] \<Rightarrow> Inr (i\<lparr>invToken := t\<rparr>)
     | ts \<Rightarrow> Inl (Errorf (''invitation has '' @ fmtNat 10 (length ts + 8) @ '' fields, want 9'')))"
proof -
  let ?b = "newBufio r"
  obtain b' line err where br: "bufio_ReadString ?b = (b', line, err)"
    by (cases "bufio_ReadString ?b")
  let ?ws = "invToken i # invMode i # map fmtInt (portList (invPorts i))"
  have "newline \<notin> set (fmtInt p)" for p
    using fmtInt_plain [of newline p] by auto
  then have nl: "newline \<notin> set (joinWords ?ws)"
    using assms(3) newline_free [OF assms(4)] by (simp add: portList_def)
  have content: "inpContent r = joinWords ?ws @ newline # rest"
    unfolding assms(2) formatInvitation_join by simp
  have line: "line = formatInvitation i" "err = None"
    unfolding formatInvitation_join frontLine_line [OF nl, of rest, symmetric] content [symmetric]
    using bufio_ReadString_line [OF _ _ br] assms(1) content by simp_all
  have "length (portList d) = 7" for d by (simp add: portList_def)
  moreover have "parsePorts (map fmtInt (portList (invPorts i))) = Inr (portList (invPorts i))"
    using assms(5) by (rule parsePorts_fmtInt)
  ultimately show ?thesis
    using fields_formatInvitation [OF assms(4)]
    by (simp add: readInvitation_def br line parseInvitation_def Let_def portsOf_portList
        split: list.split)
qed

lemma readInvitation_broken_line:
  assumes "wf_inp r" "inpContent r = formatInvitation i @ rest" "newline \<in> set (invToken i)"
  shows "snd (readInvitation r) = parseInvitation (frontLine (invToken i))"
proof -
  let ?b = "newBufio r"
  obtain b' line err where br: "bufio_ReadString ?b = (b', line, err)"
    by (cases "bufio_ReadString ?b")
  have "newline \<in> set (crContent ?b)" "frontLine (crContent ?b) = frontLine (invToken i)"
    using assms by (simp_all add: formatInvitation_def frontLine_append)
  then have "line = frontLine (invToken i)" "err = None"
    using bufio_ReadString_line [OF _ _ br] assms(1) by simp_all
  then show ?thesis by (simp add: readInvitation_def br)
qed

lemma readInvitation_any:
  assumes "wf_inp r" "inpContent r = formatInvitation i @ rest"
    and "invMode i = ModeSplit \<or> invMode i = ModeMerge"
    and "\<forall>p \<in> set (portList (invPorts i)). is_int64 p"
  shows "snd (readInvitation r) =
    (if newline \<in> set (invToken i) then parseInvitation (frontLine (invToken i))
     else case strFields (invToken i) of
       [t] \<Rightarrow> Inr (i\<lparr>invToken := t\<rparr>)
     | ts \<Rightarrow> Inl (Errorf (''invitation has '' @ fmtNat 10 (length ts + 8) @ '' fields, want 9'')))"
  using readInvitation_broken_line [OF assms(1,2)] readInvitation_formatted [OF assms(1,2) _ assms(3,4)]
  by simp

text \<open>
  C25: what a client gets from an invitation the server formatted, for any token.  If the token
  has no newline, it comes back (trimmed) if it is one word, and any other number of words
  (none, or two and more) makes every client fail with the field count.  If it has a newline,
  the client takes the token's own first line for the whole invitation.  The server accepts all
  these tokens at start-up (only the empty one is refused there).
\<close>

theorem invitation_roundtrip:
  assumes "wf_inp r" "inpContent r = formatInvitation i @ rest"
    and "invMode i = ModeSplit \<or> invMode i = ModeMerge"
    and "\<forall>p \<in> set (portList (invPorts i)). is_int64 p"
  shows "snd (readInvitation r) =
    (if newline \<in> set (invToken i) then parseInvitation (frontLine (invToken i))
     else case strFields (invToken i) of
       [t] \<Rightarrow> Inr (i\<lparr>invToken := t\<rparr>)
     | ts \<Rightarrow> Inl (Errorf (''invitation has '' @ fmtNat 10 (length ts + 8) @ '' fields, want 9'')))"
  using assms by (rule readInvitation_any)

theorem invitation_roundtrip_witness:
  "snd (readInvitation \<lparr>chunks = [formatInvitation
       \<lparr>invToken = ''MY TOKEN'', invMode = ModeSplit, invPorts = portsOf [1, 2, 3, 4, 5, 6, 7]\<rparr>],
     inpEnd = EOF, early = False\<rparr>) = Inl (Errorf (''invitation has 10 fields, want 9''))"
proof -
  let ?i = "\<lparr>invToken = ''MY TOKEN'', invMode = ModeSplit, invPorts = portsOf [1, 2, 3, 4, 5, 6, 7]\<rparr>"
  let ?c = "\<lparr>chunks = [formatInvitation ?i], inpEnd = EOF, early = False\<rparr>"
  have "wf_inp ?c" "inpContent ?c = formatInvitation ?i @ []"
    by (simp_all add: wf_inp_def inpContent_def formatInvitation_def)
  moreover have "strFields ''MY TOKEN'' = [''MY'', ''TOKEN'']"
    by code_simp
  moreover have "fmtNat 10 10 = ''10''"
    by code_simp
  ultimately show ?thesis
    using invitation_roundtrip [of ?c ?i "[]"]
    by (simp add: portList_def portsOf_def is_int64_def)
qed

text \<open>When the invitation ends with a chunk, nothing behind it is lost in the line buffer.\<close>

lemma readInvitation_rest:
  assumes "wf_inp r" "chunks r = pre @ post" "concat pre = formatInvitation i" "post \<noteq> [] \<or> \<not> early r"
    and "newline \<notin> set (invToken i)" "invMode i = ModeSplit \<or> invMode i = ModeMerge"
  shows "fst (readInvitation r) = r\<lparr>chunks := post\<rparr>"
proof -
  let ?ws = "invToken i # invMode i # map fmtInt (portList (invPorts i))"
  have "newline \<notin> set (fmtInt p)" for p
    using fmtInt_plain [of newline p] by auto
  then have "newline \<notin> set (joinWords ?ws)"
    using assms(5) newline_free [OF assms(6)] by (simp add: portList_def)
  with bufio_ReadString_rest [OF assms(1,2,4), of "joinWords ?ws"] assms(3) show ?thesis
    unfolding formatInvitation_join by (auto simp: readInvitation_def split: prod.splits)
qed

end
