(* ===== verification/Tokens.thy ===== *)
theory Tokens
  imports Lines
begin

text \<open>
  The token part of \<open>internal/protocol/session.go\<close>: every data connection starts with the
  session token.  Particle ports consume it when the session is accepted; the document port
  of a split session strips it on the first read.
\<close>

section \<open>\<open>consumeTokenConn\<close>\<close>

text \<open>
  The byte loop shared by \<open>consumeTokenConn\<close> and \<open>StripTokenReader.consumeToken\<close>; a read
  error and a wrong byte are told apart by the callers.
\<close>

datatype token_error = TokenRead go_error | TokenMismatch

fun matchToken :: "string \<Rightarrow> conn_reader \<Rightarrow> conn_reader \<times> token_error option" where
  "matchToken [] br = (br, None)"
| "matchToken (t # ts) br =
     (case bufio_ReadByte inp_Read br of
        (br', Inl e) \<Rightarrow> (br', Some (TokenRead e))
      | (br', Inr b) \<Rightarrow> if b \<noteq> t then (br', Some TokenMismatch) else matchToken ts br')"

definition consumeTokenConn :: "inp \<Rightarrow> string \<Rightarrow> conn_reader result" where
  "consumeTokenConn conn token =
     (case matchToken token (newBufio conn) of
        (br, None) \<Rightarrow> Inr br
      | (br, Some (TokenRead e)) \<Rightarrow> Inl (Wrapf ''read token'' e)
      | (br, Some TokenMismatch) \<Rightarrow> Inl (Errorf ''invalid token prefix''))"

text \<open>\<open>payloadConn.Read\<close> and \<open>hasData\<close>.\<close>

definition payloadConn_Read :: "conn_reader readfn" where
  "payloadConn_Read p k = cr_Read p k"

definition hasData :: "conn_reader \<Rightarrow> conn_reader \<times> bool" where
  "hasData p =
     (if buf p \<noteq> [] then (p, True)
      else case bufio_Peek1 inp_Read p of (p', res) \<Rightarrow> (p', \<not> isl res))"

section \<open>\<open>StripTokenReader\<close>\<close>

record strip_reader =
  stToken :: string
  stR :: conn_reader
  stDone :: bool

definition newStripTokenReader :: "inp \<Rightarrow> string \<Rightarrow> strip_reader" where
  "newStripTokenReader conn token = \<lparr>stToken = token, stR = newBufio conn, stDone = False\<rparr>"

definition consumeToken :: "strip_reader \<Rightarrow> strip_reader \<times> go_error option" where
  "consumeToken s =
     (case matchToken (stToken s) (stR s) of
        (br, None) \<Rightarrow> (s\<lparr>stR := br, stDone := True\<rparr>, None)
      | (br, Some (TokenRead e)) \<Rightarrow> (s\<lparr>stR := br\<rparr>, Some e)
      | (br, Some TokenMismatch) \<Rightarrow> (s\<lparr>stR := br\<rparr>, Some (Errorf ''invalid document port token'')))"

definition strip_Read :: "strip_reader readfn" where
  "strip_Read s k =
     (case (if stDone s then (s, None) else consumeToken s) of
        (s', Some e) \<Rightarrow> (s', [], Some e)
      | (s', None) \<Rightarrow>
          (case cr_Read (stR s') k of (br, bs, e) \<Rightarrow> (s'\<lparr>stR := br\<rparr>, bs, e)))"

section \<open>What the token loop accepts\<close>

definition isPrefix :: "bytes \<Rightarrow> bytes \<Rightarrow> bool" where
  "isPrefix p s \<longleftrightarrow> take (length p) s = p"

lemma matchToken_spec:
  "crOk br \<Longrightarrow> matchToken ts br = (br', res) \<Longrightarrow>
   crOk br' \<and> crFinal br' = crFinal br \<and> crGas br' \<le> crGas br \<and>
   (res = None \<longleftrightarrow> isPrefix ts (crContent br)) \<and>
   (res = None \<longrightarrow> crContent br' = drop (length ts) (crContent br)) \<and>
   (\<forall>e. res = Some (TokenRead e) \<longrightarrow> e = crFinal br \<and> isPrefix (crContent br) ts)"
proof (induction ts arbitrary: br)
  case Nil
  then show ?case by (simp add: isPrefix_def)
next
  case (Cons t ts)
  obtain b1 r where step: "bufio_ReadByte inp_Read br = (b1, r)" by (cases "bufio_ReadByte inp_Read br")
  note spec = inp.bufio_ReadByte_spec [OF Cons.prems(1) step]
  show ?case
  proof (cases "crContent br")
    case Nil
    with spec step Cons.prems(2) show ?thesis by (auto simp: isPrefix_def)
  next
    case (Cons c cs)
    with spec have b1: "r = Inr c" "crContent b1 = cs" "crOk b1" "crFinal b1 = crFinal br" "crGas b1 \<le> crGas br"
      by auto
    show ?thesis
    proof (cases "c = t")
      case True
      with step b1 Cons.prems(2) have "matchToken ts b1 = (br', res)" by simp
      from Cons.IH [OF b1(3) this] b1 True \<open>crContent br = c # cs\<close> show ?thesis
        by (auto simp: isPrefix_def)
    next
      case False
      with step b1 Cons.prems(2) Cons show ?thesis by (auto simp: isPrefix_def)
    qed
  qed
qed

lemma matchToken_mismatch:
  "crOk br \<Longrightarrow> matchToken ts br = (br', Some TokenMismatch) \<Longrightarrow> \<not> isPrefix (crContent br) ts"
proof (induction ts arbitrary: br)
  case (Cons t ts)
  obtain b1 r where step: "bufio_ReadByte inp_Read br = (b1, r)" by (cases "bufio_ReadByte inp_Read br")
  note spec = inp.bufio_ReadByte_spec [OF Cons.prems(1) step]
  show ?case
  proof (cases "crContent br")
    case (Cons c cs)
    with spec step Cons.prems Cons.IH [of b1] show ?thesis
      by (cases "c = t") (auto simp: isPrefix_def)
  qed (use spec step Cons.prems in auto)
qed simp

text \<open>
  C20: a particle connection is authenticated exactly when its stream starts with the token,
  and then what follows the token, and only that, is the particle data; bytes that arrived
  in the same segment as the token are kept.
\<close>

theorem consume_token_exact:
  assumes "wf_inp conn"
  shows "case consumeTokenConn conn token of
      Inr br \<Rightarrow> crOk br \<and> inpContent conn = token @ crContent br \<and> crFinal br = inpEnd conn
    | Inl e \<Rightarrow> \<not> isPrefix token (inpContent conn)"
proof -
  have ok: "crOk (newBufio conn)" using assms by simp
  obtain b' res where m: "matchToken token (newBufio conn) = (b', res)"
    by (cases "matchToken token (newBufio conn)")
  note spec = matchToken_spec [OF ok m]
  have split: "isPrefix token (inpContent conn) \<Longrightarrow>
      inpContent conn = token @ drop (length token) (inpContent conn)"
    unfolding isPrefix_def by (metis append_take_drop_id)
  show ?thesis
    using spec split by (auto simp: consumeTokenConn_def m split: option.split token_error.split)
qed

theorem consume_token_exact_witness:
  "case consumeTokenConn \<lparr>chunks = [''T'', ''Kdata''], inpEnd = EOF, early = False\<rparr> ''TK'' of
     Inr br \<Rightarrow> crContent br = ''data'' | Inl e \<Rightarrow> False"
proof -
  let ?c = "\<lparr>chunks = [''T'', ''Kdata''], inpEnd = EOF, early = False\<rparr>"
  have "wf_inp ?c" by (simp add: wf_inp_def)
  from consume_token_exact [OF this, of "''TK''"] show ?thesis
    by (auto simp: inpContent_def isPrefix_def split: sum.splits)
qed

section \<open>The document port\<close>

definition stripOk :: "strip_reader \<Rightarrow> bool" where
  "stripOk s \<longleftrightarrow> crOk (stR s) \<and> (stDone s \<or> isPrefix (stToken s) (crContent (stR s)))"

definition stripContent :: "strip_reader \<Rightarrow> bytes" where
  "stripContent s =
     (if stDone s then crContent (stR s) else drop (length (stToken s)) (crContent (stR s)))"

definition stripFinal :: "strip_reader \<Rightarrow> go_error" where
  "stripFinal s = crFinal (stR s)"

definition stripGas :: "strip_reader \<Rightarrow> nat" where
  "stripGas s = crGas (stR s)"

lemmas strip_abs = stripOk_def stripContent_def stripFinal_def stripGas_def

text \<open>After the first read, which strips the token, the reader just reads.\<close>

lemma strip_Read_step:
  assumes "stripOk s" "strip_Read s k = (s', bs, e)"
  obtains br where "crOk br" "crContent br = stripContent s" "crFinal br = stripFinal s"
    "crGas br \<le> stripGas s" "stDone s'" "cr_Read br k = (stR s', bs, e)"
proof (cases "stDone s")
  case True
  with assms that show ?thesis by (auto simp: strip_Read_def strip_abs split: prod.splits)
next
  case False
  obtain br res where m: "matchToken (stToken s) (stR s) = (br, res)"
    by (cases "matchToken (stToken s) (stR s)")
  have "crOk (stR s)" using assms(1) by (simp add: stripOk_def)
  from matchToken_spec [OF this m] assms(1) False
  have "res = None" "crOk br" "crFinal br = stripFinal s" "crContent br = stripContent s"
      "crGas br \<le> stripGas s"
    by (auto simp: strip_abs)
  with assms(2) that False m show ?thesis
    by (auto simp: strip_Read_def consumeToken_def split: prod.splits)
qed

lemma strip_reader_laws:
  assumes "stripOk s" "strip_Read s k = (s', bs, e)"
  shows "stripOk s' \<and> length bs \<le> k \<and> stripContent s = bs @ stripContent s' \<and>
    stripFinal s' = stripFinal s \<and> stripGas s' + length bs \<le> stripGas s \<and>
    (\<forall>x. e = Some x \<longrightarrow> x = stripFinal s \<and> stripContent s' = []) \<and>
    (0 < k \<and> e = None \<longrightarrow> stripGas s' < stripGas s)"
proof -
  obtain br where br: "crOk br" "crContent br = stripContent s" "crFinal br = stripFinal s"
      "crGas br \<le> stripGas s" "stDone s'" "cr_Read br k = (stR s', bs, e)"
    using strip_Read_step [OF assms] by blast
  with cr.rd_step [OF br(1,6)] show ?thesis by (auto simp: strip_abs)
qed

interpretation strip: io_reader strip_Read stripOk stripContent stripFinal stripGas
  by unfold_locales (use strip_reader_laws in blast)+

text \<open>
  The document port.  If the client's bytes start with the token, the encoder reads
  exactly what follows it; if they do not, its first read fails and delivers nothing.
\<close>

theorem document_after_token:
  assumes "wf_inp conn" "\<forall>k \<in> set ks. 0 < k" "inpGas conn < length ks"
  shows "\<exists>s' e. drain strip_Read ks (newStripTokenReader conn token) =
    (if isPrefix token (inpContent conn)
     then (s', drop (length token) (inpContent conn), Some (inpEnd conn))
     else (s', [], Some e))"
proof (cases "isPrefix token (inpContent conn)")
  case True
  let ?s = "newStripTokenReader conn token"
  have "stripOk ?s" "stripContent ?s = drop (length token) (inpContent conn)"
      "stripFinal ?s = inpEnd conn" "stripGas ?s = inpGas conn"
    using True assms(1) by (simp_all add: strip_abs newStripTokenReader_def)
  with strip.drain_all [OF this(1) assms(2)] assms(3) True show ?thesis by auto
next
  case False
  obtain br res where m: "matchToken token (newBufio conn) = (br, res)"
    by (cases "matchToken token (newBufio conn)")
  have "crOk (newBufio conn)" using assms(1) by simp
  from matchToken_spec [OF this m] False obtain x where "res = Some x" by auto
  with m have read: "\<exists>s' e. strip_Read (newStripTokenReader conn token) k = (s', [], Some e)" for k
    by (cases x) (auto simp: strip_Read_def consumeToken_def newStripTokenReader_def)
  obtain k ks' where "ks = k # ks'" using assms(3) by (cases ks) auto
  with read [of k] False show ?thesis by auto
qed

theorem document_after_token_witness:
  "\<exists>s'. drain strip_Read [4, 4, 4, 4, 4, 4, 4, 4, 4]
     (newStripTokenReader \<lparr>chunks = [''TKd'', ''oc''], inpEnd = EOF, early = False\<rparr> ''TK'')
     = (s', ''doc'', Some EOF)"
proof -
  let ?c = "\<lparr>chunks = [''TKd'', ''oc''], inpEnd = EOF, early = False\<rparr>"
  have "wf_inp ?c" "inpContent ?c = ''TKdoc''" "inpGas ?c < length [4, 4, 4, 4, 4, 4, 4, 4, 4 :: nat]"
    by (simp_all add: wf_inp_def inpContent_def inpGas_def)
  with document_after_token [of ?c "[4, 4, 4, 4, 4, 4, 4, 4, 4]" "''TK''"] show ?thesis
    by (simp add: isPrefix_def)
qed

end
