(* ===== verification/Writer.thy ===== *)
theory Writer
  imports Prelude
begin

text \<open>
  Go's \<open>io.Writer\<close> as an interface, and the sending half of a connection.
\<close>

text \<open>
  \<open>io.Writer\<close>: the new state, the number of bytes written and the error.  Its documented
  contract: a write that takes fewer bytes than it was given returns an error.
\<close>

type_synonym 'w writefn = "'w \<Rightarrow> bytes \<Rightarrow> 'w \<times> nat \<times> go_error option"

locale io_writer =
  fixes wr :: "'w writefn"
    and written :: "'w \<Rightarrow> bytes"
    and room :: "'w \<Rightarrow> nat"
  assumes wr_written [io_laws]: "wr w p = (w', n, e) \<Longrightarrow> written w' = written w @ take n p"
    and wr_count: "wr w p = (w', n, e) \<Longrightarrow> n \<le> length p"
    and wr_room: "length p \<le> room w \<Longrightarrow> \<exists>w'. wr w p = (w', length p, None) \<and> room w - length p \<le> room w'"
    and wr_short: "wr w p = (w', n, None) \<Longrightarrow> n = length p"

text \<open>The sending half of a connection, which takes \<open>quota\<close> more bytes before it fails.\<close>

record outp =
  sent :: bytes
  quota :: nat
  outErr :: go_error

definition outp_Write :: "outp writefn" where
  "outp_Write w p =
     (if length p \<le> quota w
      then (w\<lparr>sent := sent w @ p, quota := quota w - length p\<rparr>, length p, None)
      else (w\<lparr>sent := sent w @ take (quota w) p, quota := 0\<rparr>, quota w, Some (outErr w)))"

interpretation out: io_writer outp_Write sent quota
  by unfold_locales (auto simp: outp_Write_def split: if_splits)

text \<open>A write for which there is room.\<close>

definition wroteTo :: "outp \<Rightarrow> bytes \<Rightarrow> outp" where
  "wroteTo w p = w\<lparr>sent := sent w @ p, quota := quota w - length p\<rparr>"

lemma wroteTo_simps [simp]:
  "sent (wroteTo w p) = sent w @ p" "quota (wroteTo w p) = quota w - length p"
  by (simp_all add: wroteTo_def)

lemma outp_Write_fits: "length p \<le> quota w \<Longrightarrow> outp_Write w p = (wroteTo w p, length p, None)"
  by (simp add: outp_Write_def wroteTo_def)

lemma wroteTo_twice: "wroteTo (wroteTo w p) q = wroteTo w (p @ q)"
  by (simp add: wroteTo_def)

end
