(* ===== verification/Limits.thy ===== *)
theory Limits
  imports Tokens GoText Writer
begin

text \<open>
  The size limits of \<open>internal/server\<close>: \<open>maxSizeReader\<close> (\<open>split.go\<close>) caps what a split
  session reads, \<open>maxSizeWriter\<close> (\<open>merge.go\<close>) what a merge session writes.  Counters are
  \<open>int64\<close>; the arithmetic that can leave the width is wrapped.
\<close>

definition limitErr :: "int \<Rightarrow> go_error" where
  "limitErr lim = Errorf (''object exceeds max size '' @ fmtInt lim)"

definition sliceBounds :: go_error where
  "sliceBounds = Panic ''slice bounds out of range''"

section \<open>The limiting reader\<close>

record 'r max_reader =
  mxR :: 'r
  mxMax :: int
  mxRead :: int
  mxExceed :: bool

definition max_Read :: "'r readfn \<Rightarrow> 'r max_reader readfn" where
  "max_Read rd m k =
     (if mxExceed m then (m, [], Some (limitErr (mxMax m)))
      else if mxMax m \<le> mxRead m
      then (m\<lparr>mxExceed := True\<rparr>, [], Some (limitErr (mxMax m)))
      else
        let remain = wrap64 (mxMax m - mxRead m); cap = wrap64 (remain + 1) in
        if cap < int k \<and> cap < 0 then (m, [], Some sliceBounds)
        else case rd (mxR m) (if cap < int k then nat cap else k) of (r', bs, err) \<Rightarrow>
          let m' = m\<lparr>mxR := r', mxRead := wrap64 (mxRead m + int (length bs))\<rparr> in
          if mxMax m' < mxRead m' then (m', bs, Some (limitErr (mxMax m')))
          else (m', bs, err))"

datatype 'r doc_reader = Unlimited 'r | Limited "'r max_reader"

definition limitedDocReader :: "'r \<Rightarrow> int \<Rightarrow> 'r doc_reader" where
  "limitedDocReader r maxSize =
     (if maxSize \<le> 0 then Unlimited r
      else Limited \<lparr>mxR = r, mxMax = maxSize, mxRead = 0, mxExceed = False\<rparr>)"

fun doc_Read :: "'r readfn \<Rightarrow> 'r doc_reader readfn" where
  "doc_Read rd (Unlimited r) k = (case rd r k of (r', bs, e) \<Rightarrow> (Unlimited r', bs, e))"
| "doc_Read rd (Limited m) k = (case max_Read rd m k of (m', bs, e) \<Rightarrow> (Limited m', bs, e))"

lemma drain_Unlimited:
  "drain (doc_Read rd) ks (Unlimited r) = (case drain rd ks r of (r', bs, e) \<Rightarrow> (Unlimited r', bs, e))"
  by (induction ks arbitrary: r) (auto split: prod.splits option.splits)

lemma drain_Limited:
  "drain (doc_Read rd) ks (Limited m) =
     (case drain (max_Read rd) ks m of (m', bs, e) \<Rightarrow> (Limited m', bs, e))"
  by (induction ks arbitrary: m) (auto split: prod.splits option.splits)

text \<open>A reader whose final error comes by itself, as on a TCP connection.\<close>

locale late_reader = io_reader +
  assumes rd_late: "ok r \<Longrightarrow> rd r k = (r', bs, Some x) \<Longrightarrow> bs = []"
begin

text \<open>A read below the limit, which asks for at most one byte more than is left.\<close>

lemma max_Read_below:
  assumes "ok (mxR m)" "\<not> mxExceed m" "0 \<le> mxRead m" "mxRead m < mxMax m" "mxMax m < 2 ^ 63 - 1" "0 < k"
    and k': "k' = (if mxMax m - mxRead m + 1 < int k then nat (mxMax m - mxRead m + 1) else k)"
    and step: "rd (mxR m) k' = (r', bs, err)"
  shows "0 < k'" "mxRead m + int (length bs) \<le> mxMax m + 1"
    "max_Read rd m k =
       (let m' = m\<lparr>mxR := r', mxRead := mxRead m + int (length bs)\<rparr> in
        if mxMax m < mxRead m' then (m', bs, Some (limitErr (mxMax m))) else (m', bs, err))"
proof -
  let ?cap = "mxMax m - mxRead m + 1"
  have w: "wrap64 (mxMax m - mxRead m) = mxMax m - mxRead m" "wrap64 ?cap = ?cap"
    using assms(3-5) by (simp_all add: wrap64_id is_int64_def)
  have pos: "0 < k'" "int k' \<le> ?cap" using assms(4,6) by (auto simp: k')
  then show "0 < k'" by simp
  have "length bs \<le> k'" using rd_step [OF assms(1) step] by blast
  with pos show n: "mxRead m + int (length bs) \<le> mxMax m + 1" by linarith
  then have n1: "wrap64 (mxRead m + int (length bs)) = mxRead m + int (length bs)"
    using assms(3,5) by (intro wrap64_id) (simp add: is_int64_def)
  have kk: "(if ?cap < int k then nat (wrap64 ?cap) else k) = k'" by (simp add: k' w)
  have "max_Read rd m k = (case rd (mxR m) k' of (r', bs, err) \<Rightarrow>
      let m' = m\<lparr>mxR := r', mxRead := wrap64 (mxRead m + int (length bs))\<rparr> in
      if mxMax m' < mxRead m' then (m', bs, Some (limitErr (mxMax m'))) else (m', bs, err))"
    using assms(2,4) pos by (simp add: max_Read_def Let_def w kk split del: if_split)
  then show "max_Read rd m k =
       (let m' = m\<lparr>mxR := r', mxRead := mxRead m + int (length bs)\<rparr> in
        if mxMax m < mxRead m' then (m', bs, Some (limitErr (mxMax m))) else (m', bs, err))"
    using step n1 by (simp add: Let_def)
qed

lemma max_drain:
  "ok (mxR m) \<Longrightarrow> \<not> mxExceed m \<Longrightarrow> 0 \<le> mxRead m \<Longrightarrow> mxRead m \<le> mxMax m \<Longrightarrow> mxMax m < 2 ^ 63 - 1 \<Longrightarrow>
   \<forall>k \<in> set ks. 0 < k \<Longrightarrow> gas (mxR m) < length ks \<Longrightarrow>
   \<exists>m' bs rest. content (mxR m) = bs @ rest \<and> mxRead m + int (length bs) \<le> mxMax m + 1 \<and>
     drain (max_Read rd) ks m =
       (if mxRead m + int (length (content (mxR m))) < mxMax m
        then (m', content (mxR m), Some (final (mxR m)))
        else (m', bs, Some (limitErr (mxMax m))))"
proof (induction ks arbitrary: m)
  case Nil
  then show ?case by simp
next
  case (Cons k ks)
  show ?case
  proof (cases "mxMax m \<le> mxRead m")
    case True
    with Cons.prems(2,4) show ?thesis
      by (intro exI [of _ "m\<lparr>mxExceed := True\<rparr>"] exI [of _ "[]"]
          exI [of _ "content (mxR m)"]) (simp add: max_Read_def)
  next
    case False
    define k' where "k' = (if mxMax m - mxRead m + 1 < int k then nat (mxMax m - mxRead m + 1) else k)"
    obtain r' bs err where step: "rd (mxR m) k' = (r', bs, err)" by (cases "rd (mxR m) k'")
    note laws = rd_step [OF Cons.prems(1) step]
    let ?m = "m\<lparr>mxR := r', mxRead := mxRead m + int (length bs)\<rparr>"
    have "mxRead m < mxMax m" "0 < k" using False Cons.prems(6) by simp_all
    note below = max_Read_below [OF Cons.prems(1,2,3) this(1) Cons.prems(5) this(2) k'_def step]
    then have k': "0 < k'" and n: "mxRead m + int (length bs) \<le> mxMax m + 1" by simp_all
    have read: "max_Read rd m k =
        (if mxMax m < mxRead m + int (length bs) then (?m, bs, Some (limitErr (mxMax m))) else (?m, bs, err))"
      using below(3) by (simp add: Let_def)
    show ?thesis
    proof (cases "mxMax m < mxRead m + int (length bs)")
      case True
      with read laws n show ?thesis by (auto intro!: exI [of _ ?m] exI [of _ bs])
    next
      case small: False
      show ?thesis
      proof (cases err)
        case (Some x)
        with rd_late [OF Cons.prems(1), of k' r' bs x] step have "bs = []" by simp
        with Some laws read small False
        show ?thesis by (auto intro!: exI [of _ ?m] exI [of _ "[]"])
      next
        case None
        have "ok (mxR ?m)" "gas (mxR ?m) < length ks" "mxRead ?m \<le> mxMax ?m"
          using None laws k' Cons.prems(7) small by auto
        then obtain m' cs rest where IH: "content r' = cs @ rest"
            "mxRead ?m + int (length cs) \<le> mxMax m + 1"
            "drain (max_Read rd) ks ?m =
               (if mxRead ?m + int (length (content r')) < mxMax m
                then (m', content r', Some (final r')) else (m', cs, Some (limitErr (mxMax m))))"
          using Cons.IH [of ?m] Cons.prems by auto
        then show ?thesis
          using None laws read small
          by (intro exI [of _ m'] exI [of _ "bs @ cs"] exI [of _ rest]) (auto simp: add.assoc)
      qed
    qed
  qed
qed

end

section \<open>The document of a split session is such a reader\<close>

lemma fillLoop_early: "early (inner (fillLoop inp_Read i b)) = early (inner b)"
proof (induction i arbitrary: b)
  case (Suc i)
  obtain r' bs e where step: "inp_Read (inner b) (bufSize - length (buf b)) = (r', bs, e)"
    by (cases "inp_Read (inner b) (bufSize - length (buf b))")
  then have "early r' = early (inner b)"
    by (auto simp: inp_Read_def split: list.splits if_splits)
  with step Suc [of "b\<lparr>inner := r', buf := buf b @ bs\<rparr>"] show ?case
    by (auto simp: Let_def split: option.splits)
qed simp

lemma matchToken_early: "matchToken ts br = (br', res) \<Longrightarrow> early (inner br') = early (inner br)"
proof (induction ts arbitrary: br)
  case (Cons t ts)
  obtain b1 r where step: "bufio_ReadByte inp_Read br = (b1, r)"
    by (cases "bufio_ReadByte inp_Read br")
  then have "early (inner b1) = early (inner br)"
    by (auto simp: bufio_ReadByte_def Let_def readErr_def fill_def fillLoop_early
        split: list.splits if_splits)
  with step Cons show ?case by (auto split: sum.splits if_splits)
qed simp

lemma inp_Read_early:
  "inp_Read c k = (c', bs, e) \<Longrightarrow> early c' = early c \<and> (\<not> early c \<and> e \<noteq> None \<longrightarrow> bs = [])"
  by (auto simp: inp_Read_def split: list.splits if_splits)

lemma cr_Read_early:
  assumes "cr_Read b k = (b', bs, e)"
  shows "early (inner b') = early (inner b) \<and> (\<not> early (inner b) \<and> e \<noteq> None \<longrightarrow> bs = [])"
  using assms unfolding cr_Read_def
  by (cases rule: bufio_Read_cases) (auto dest: inp_Read_early)

definition stripLate :: "strip_reader \<Rightarrow> bool" where
  "stripLate s \<longleftrightarrow> stripOk s \<and> \<not> early (inner (stR s))"

lemma strip_Read_late:
  assumes "stripLate s" "strip_Read s k = (s', bs, e)"
  shows "\<not> early (inner (stR s')) \<and> (e \<noteq> None \<longrightarrow> bs = [])"
proof -
  obtain s1 x where pre: "(if stDone s then (s, None) else consumeToken s) = (s1, x)"
    by (cases "if stDone s then (s, None) else consumeToken s")
  then have "early (inner (stR s1)) = early (inner (stR s))"
    by (auto simp: consumeToken_def dest: matchToken_early
        split: if_splits prod.splits option.splits token_error.splits)
  then show ?thesis
    using assms pre by (auto simp: strip_Read_def stripLate_def dest: cr_Read_early
        split: option.splits prod.splits)
qed

interpretation late: late_reader strip_Read stripLate stripContent stripFinal stripGas
proof
  fix s k s' bs e
  assume "stripLate s" "strip_Read s k = (s', bs, e)"
  then show "stripLate s'" "length bs \<le> k" "stripContent s = bs @ stripContent s'"
      "stripFinal s' = stripFinal s" "stripGas s' + length bs \<le> stripGas s"
    using strip_reader_laws [of s k s' bs e] strip_Read_late [of s k s' bs e]
    by (auto simp: stripLate_def)
next
  fix s k s' bs x
  assume s: "stripLate s" "strip_Read s k = (s', bs, Some x)"
  then show "x = stripFinal s \<and> stripContent s' = []"
    using strip_reader_laws [of s k s' bs "Some x"] by (simp add: stripLate_def)
  from s show "bs = []" using strip_Read_late [of s k s' bs "Some x"] by simp
next
  fix s k s' bs
  assume "stripLate s" "0 < k" "strip_Read s k = (s', bs, None)"
  then show "stripGas s' < stripGas s"
    using strip_reader_laws [of s k s' bs None] by (simp add: stripLate_def)
qed

lemma newStrip_late:
  assumes "wf_inp conn" "\<not> early conn" "isPrefix token (inpContent conn)"
  shows "stripLate (newStripTokenReader conn token)"
    and "stripContent (newStripTokenReader conn token) = drop (length token) (inpContent conn)"
    and "stripFinal (newStripTokenReader conn token) = inpEnd conn"
    and "stripGas (newStripTokenReader conn token) = inpGas conn"
  using assms by (simp_all add: stripLate_def strip_abs newStripTokenReader_def)
    (simp_all add: newBufio_def)

text \<open>
  C29: the size limit of a split session.  A document shorter than the limit is read as
  sent; from the limit on, and already at exactly the limit, the encoder is given the limit
  error after at most one byte more than the limit.
\<close>

theorem split_size_limit:
  assumes "wf_inp conn" "\<not> early conn" "isPrefix token (inpContent conn)"
    and "0 < lim" "lim < 2 ^ 63 - 1" "\<forall>k \<in> set ks. 0 < k" "inpGas conn < length ks"
  shows "\<exists>d' bs rest. drop (length token) (inpContent conn) = bs @ rest \<and> int (length bs) \<le> lim + 1 \<and>
    drain (doc_Read strip_Read) ks (limitedDocReader (newStripTokenReader conn token) lim) =
      (if int (length (inpContent conn)) < int (length token) + lim
       then (d', drop (length token) (inpContent conn), Some (inpEnd conn))
       else (d', bs, Some (limitErr lim)))"
proof -
  let ?s = "newStripTokenReader conn token"
  let ?m = "\<lparr>mxR = ?s, mxMax = lim, mxRead = 0, mxExceed = False\<rparr>"
  have len: "length token \<le> length (inpContent conn)"
    using assms(3) by (auto simp: isPrefix_def dest: arg_cong [where f = length])
  note strip = newStrip_late [OF assms(1-3)]
  have "\<exists>m' bs rest. drop (length token) (inpContent conn) = bs @ rest \<and>
      int (length bs) \<le> lim + 1 \<and>
      drain (max_Read strip_Read) ks ?m =
        (if int (length (drop (length token) (inpContent conn))) < lim
         then (m', drop (length token) (inpContent conn), Some (inpEnd conn))
         else (m', bs, Some (limitErr lim)))"
    using late.max_drain [of ?m ks] strip assms(4-7) by (simp cong: if_cong)
  then obtain m' bs rest where split: "drop (length token) (inpContent conn) = bs @ rest"
      "int (length bs) \<le> lim + 1" and run:
      "drain (max_Read strip_Read) ks ?m =
        (if int (length (drop (length token) (inpContent conn))) < lim
         then (m', drop (length token) (inpContent conn), Some (inpEnd conn))
         else (m', bs, Some (limitErr lim)))"
    by blast
  have "int (length (drop (length token) (inpContent conn))) < lim \<longleftrightarrow>
      int (length (inpContent conn)) < int (length token) + lim"
    using len by auto
  with run assms(4) show ?thesis
    by - (rule exI [of _ "Limited m'"], rule exI [of _ bs], rule exI [of _ rest],
        intro conjI split, simp add: limitedDocReader_def drain_Limited del: length_drop)
qed

theorem split_size_limit_witness:
  "\<exists>d' bs. drain (doc_Read strip_Read) [8, 8, 8, 8, 8, 8, 8, 8, 8, 8]
     (limitedDocReader (newStripTokenReader
        \<lparr>chunks = [''TKd'', ''oc''], inpEnd = EOF, early = False\<rparr> ''TK'') 3)
     = (d', bs, Some (limitErr 3))"
proof -
  let ?c = "\<lparr>chunks = [''TKd'', ''oc''], inpEnd = EOF, early = False\<rparr>"
  have "wf_inp ?c" "inpContent ?c = ''TKdoc''" "inpGas ?c < length [8, 8, 8, 8, 8, 8, 8, 8, 8, 8 :: nat]"
    by (simp_all add: wf_inp_def inpContent_def inpGas_def)
  with split_size_limit [of ?c "''TK''" 3 "[8, 8, 8, 8, 8, 8, 8, 8, 8, 8]"] show ?thesis
    by (auto simp: isPrefix_def)
qed

text \<open>
  At the largest limit the configuration accepts, \<open>2^63 - 1\<close>, the bound of the slice
  expression overflows and the first read of every split session panics.
\<close>

theorem largest_limit_panics:
  "doc_Read rd (limitedDocReader r (2 ^ 63 - 1)) k =
     (limitedDocReader r (2 ^ 63 - 1), [], Some sliceBounds)"
  by (simp add: limitedDocReader_def max_Read_def Let_def wrap64_def)

section \<open>The limiting writer\<close>

record 'w max_writer =
  mwW :: 'w
  mwMax :: int
  mwWrote :: int

definition max_Write :: "'w writefn \<Rightarrow> 'w max_writer writefn" where
  "max_Write wr m p =
     (if mwMax m \<le> mwWrote m then (m, 0, Some (limitErr (mwMax m)))
      else
        let remain = wrap64 (mwMax m - mwWrote m);
            p' = (if remain < int (length p) then take (nat remain) p else p)
        in case wr (mwW m) p' of (w', n, err) \<Rightarrow>
          let m' = m\<lparr>mwW := w', mwWrote := wrap64 (mwWrote m + int n)\<rparr> in
          if mwMax m' < mwWrote m' then (m', n, Some (limitErr (mwMax m')))
          else (m', n, err))"

datatype 'w doc_writer = UnlimitedW 'w | LimitedW "'w max_writer"

definition limitedDocWriter :: "'w \<Rightarrow> int \<Rightarrow> 'w doc_writer" where
  "limitedDocWriter w maxSize =
     (if maxSize \<le> 0 then UnlimitedW w
      else LimitedW \<lparr>mwW = w, mwMax = maxSize, mwWrote = 0\<rparr>)"

fun doc_Write :: "'w writefn \<Rightarrow> 'w doc_writer writefn" where
  "doc_Write wr (UnlimitedW w) p = (case wr w p of (w', n, e) \<Rightarrow> (UnlimitedW w', n, e))"
| "doc_Write wr (LimitedW m) p = (case max_Write wr m p of (m', n, e) \<Rightarrow> (LimitedW m', n, e))"

fun underW :: "'w doc_writer \<Rightarrow> 'w" where
  "underW (UnlimitedW w) = w"
| "underW (LimitedW m) = mwW m"

text \<open>A run of writes with what each of them returned, and what a limit does to it.\<close>

fun writes :: "'w writefn \<Rightarrow> bytes list \<Rightarrow> 'w \<Rightarrow> 'w \<times> (nat \<times> go_error option) list" where
  "writes wr [] w = (w, [])"
| "writes wr (p # ps) w =
     (case wr w p of (w', n, e) \<Rightarrow> (case writes wr ps w' of (w'', rs) \<Rightarrow> (w'', (n, e) # rs)))"

fun limitedResults :: "go_error \<Rightarrow> nat \<Rightarrow> bytes list \<Rightarrow> (nat \<times> go_error option) list" where
  "limitedResults x left [] = []"
| "limitedResults x left (p # ps) =
     (if left = 0 then (0, Some x) else (min (length p) left, None)) #
     limitedResults x (left - length p) ps"

lemma writes_LimitedW:
  "writes (doc_Write wr) ps (LimitedW m) =
     (case writes (max_Write wr) ps m of (m', rs) \<Rightarrow> (LimitedW m', rs))"
  by (induction ps arbitrary: m) (auto split: prod.splits)

context io_writer
begin

lemma max_Write_step:
  assumes "0 \<le> mwWrote m" "mwWrote m \<le> mwMax m" "is_int64 (mwMax m)"
    and "nat (mwMax m - mwWrote m) \<le> room (mwW m)"
  defines "left \<equiv> nat (mwMax m - mwWrote m)"
  obtains m' where
    "max_Write wr m p =
       (m', if left = 0 then (0, Some (limitErr (mwMax m))) else (min (length p) left, None))"
    "written (mwW m') = written (mwW m) @ take left p" "mwMax m' = mwMax m" "0 \<le> mwWrote m'"
    "mwWrote m' \<le> mwMax m" "nat (mwMax m - mwWrote m') = left - length p"
    "left - length p \<le> room (mwW m')"
proof (cases "left = 0")
  case True
  then have "mwMax m \<le> mwWrote m" by (simp add: left_def)
  with assms(1,2) True that [of m] show ?thesis by (simp add: max_Write_def left_def)
next
  case False
  let ?p = "take left p"
  have left: "int left = mwMax m - mwWrote m" "left \<le> room (mwW m)" "0 < left"
    using assms False by auto
  then obtain w' where w: "wr (mwW m) ?p = (w', length ?p, None)" "room (mwW m) - length ?p \<le> room w'"
    using wr_room [of ?p "mwW m"] by (metis length_take min.coboundedI2)
  define j where "j = min (length p) left"
  have j: "length ?p = j" "j \<le> left" "left - j = left - length p" by (auto simp: j_def)
  let ?m = "m\<lparr>mwW := w', mwWrote := mwWrote m + int j\<rparr>"
  have wrap: "wrap64 (int left) = int left" "wrap64 (mwWrote m + int j) = mwWrote m + int j"
    using assms(1,3) left j(2) by (auto intro!: wrap64_id simp: is_int64_def)
  have cut: "(if wrap64 (int left) < int (length p) then take (nat (wrap64 (int left))) p else p) = ?p"
    by (simp add: wrap(1))
  have le: "mwWrote m + int j \<le> mwMax m" and notfull: "(mwMax m \<le> mwWrote m) = False"
    using left j by auto
  have w': "wr (mwW m) ?p = (w', j, None)" using w(1) j(1) by simp
  have "max_Write wr m p = (?m, j, None)"
    unfolding max_Write_def Let_def left(1) [symmetric] notfull if_False cut w'
    using le by (simp add: wrap(2))
  moreover have "written w' = written (mwW m) @ ?p" using wr_written [OF w'] j(1) by (metis order_refl take_all)
  moreover have "nat (mwMax m - (mwWrote m + int j)) = left - length p" using left(1) j by linarith
  moreover have "left - length p \<le> room (mwW m) - j" using j left(2) by linarith
  ultimately show ?thesis
    using that [of ?m] w(2) j le assms(1) False by (simp add: j_def [symmetric])
qed

lemma max_writes:
  "0 \<le> mwWrote m \<Longrightarrow> mwWrote m \<le> mwMax m \<Longrightarrow> is_int64 (mwMax m) \<Longrightarrow>
   nat (mwMax m - mwWrote m) \<le> room (mwW m) \<Longrightarrow>
   \<exists>m'. writes (max_Write wr) ps m =
       (m', limitedResults (limitErr (mwMax m)) (nat (mwMax m - mwWrote m)) ps) \<and>
     written (mwW m') = written (mwW m) @ take (nat (mwMax m - mwWrote m)) (concat ps)"
proof (induction ps arbitrary: m)
  case Nil
  then show ?case by simp
next
  case (Cons p ps)
  obtain m1 where m1:
    "max_Write wr m p = (m1, if nat (mwMax m - mwWrote m) = 0 then (0, Some (limitErr (mwMax m)))
                             else (min (length p) (nat (mwMax m - mwWrote m)), None))"
    "written (mwW m1) = written (mwW m) @ take (nat (mwMax m - mwWrote m)) p"
    "mwMax m1 = mwMax m" "0 \<le> mwWrote m1" "mwWrote m1 \<le> mwMax m"
    "nat (mwMax m - mwWrote m1) = nat (mwMax m - mwWrote m) - length p"
    "nat (mwMax m - mwWrote m) - length p \<le> room (mwW m1)"
    using max_Write_step [OF Cons.prems] by blast
  from m1 Cons.prems Cons.IH [of m1] obtain m' where
    "writes (max_Write wr) ps m1 =
       (m', limitedResults (limitErr (mwMax m)) (nat (mwMax m - mwWrote m) - length p) ps)"
    "written (mwW m') = written (mwW m1) @ take (nat (mwMax m - mwWrote m) - length p) (concat ps)"
    by auto
  with m1 show ?case by (intro exI [of _ m']) simp
qed

end

text \<open>
  C30: the size limit of a merge session, over a connection that takes the bytes.  The client
  receives the first \<open>lim\<close> bytes of the document, never more; a write is answered with the
  limit error only when the limit was reached before it, and a write that crosses the limit
  is cut short and answered with no error.
\<close>

theorem merge_size_limit:
  assumes "0 < lim" "is_int64 lim" "nat lim \<le> quota w"
  shows "case writes (doc_Write outp_Write) ps (limitedDocWriter w lim) of (d', rs) \<Rightarrow>
    sent (underW d') = sent w @ take (nat lim) (concat ps) \<and>
    rs = limitedResults (limitErr lim) (nat lim) ps"
  using out.max_writes [of "\<lparr>mwW = w, mwMax = lim, mwWrote = 0\<rparr>" ps] assms
  by (auto simp: limitedDocWriter_def writes_LimitedW)

theorem merge_size_limit_witness:
  "case writes (doc_Write outp_Write) [''abc'', ''de''] (limitedDocWriter \<lparr>sent = [], quota = 9, outErr = EOF\<rparr> 4)
   of (d', rs) \<Rightarrow> sent (underW d') = ''abcd'' \<and> rs = [(3, None), (1, None)]"
  using merge_size_limit [of 4 "\<lparr>sent = [], quota = 9, outErr = EOF\<rparr>" "[''abc'', ''de'']"]
  by (simp add: is_int64_def split: prod.splits)

lemma limitedResults_silent:
  "ps \<noteq> [] \<Longrightarrow> (\<forall>(n, e) \<in> set (limitedResults x left ps). e = None) \<longleftrightarrow>
     length (concat (butlast ps)) < left"
  by (induction ps arbitrary: left) auto

text \<open>
  Silent truncation.  When the limit falls inside the decoder's last write, every write
  returns without error although the client has not received the whole document.
\<close>

theorem merge_limit_silent:
  assumes "0 < lim" "is_int64 lim" "nat lim \<le> quota w" "ps \<noteq> []"
  shows "(\<forall>(n, e) \<in> set (snd (writes (doc_Write outp_Write) ps (limitedDocWriter w lim))). e = None)
    \<longleftrightarrow> int (length (concat (butlast ps))) < lim"
  using out.max_writes [of "\<lparr>mwW = w, mwMax = lim, mwWrote = 0\<rparr>" ps] assms
    limitedResults_silent [OF assms(4), of "limitErr lim" "nat lim"]
  by (auto simp: limitedDocWriter_def writes_LimitedW zless_nat_eq_int_zless)

theorem merge_limit_silent_witness:
  "list_all (\<lambda>r. snd r = None) (snd (writes (doc_Write outp_Write) [''abc'', ''de'']
      (limitedDocWriter \<lparr>sent = [], quota = 9, outErr = EOF\<rparr> 4)))"
  using merge_limit_silent [of 4 "\<lparr>sent = [], quota = 9, outErr = EOF\<rparr>" "[''abc'', ''de'']"]
  by (auto simp: is_int64_def list_all_iff)

end
