(* ===== verification/SessionNet.thy ===== *)
theory SessionNet
  imports Handshake Limits
begin

text \<open>
  The connections of one session (\<open>internal/protocol/session.go\<close>): the seven ephemeral
  listeners, the accepted or dialled connections, what is closed on each way out, and the
  half-close of \<open>internal/server/session.go\<close>.

  \<open>net_state\<close> holds which of the seven listeners and which of the seven connections of this
  endpoint are open; both are named by their index in the code's slices.  What the network
  answers (a port number, a connection, an error) is an argument of each operation.
\<close>

record net_state =
  listeners :: "nat set"
  conns :: "nat set"

definition noNet :: net_state where
  "noNet = \<lparr>listeners = {}, conns = {}\<rparr>"

section \<open>Listening\<close>

fun listenLoop :: "(nat \<Rightarrow> int result) \<Rightarrow> nat list \<Rightarrow> net_state \<Rightarrow> int list
    \<Rightarrow> net_state \<times> int list result" where
  "listenLoop listen [] st ports = (st, Inr ports)"
| "listenLoop listen (i # is) st ports =
     (case listen i of
        Inl e \<Rightarrow> (st\<lparr>listeners := listeners st - {j. j < i}\<rparr>,
                  Inl (Wrapf ''listen ephemeral port'' e))
      | Inr p \<Rightarrow> listenLoop listen is (st\<lparr>listeners := insert i (listeners st)\<rparr>) (ports @ [p]))"

definition allocatePorts :: "(nat \<Rightarrow> int result) \<Rightarrow> net_state \<Rightarrow> net_state \<times> data_ports result" where
  "allocatePorts listen st =
     (case listenLoop listen [0..<7] st [] of
        (st', Inl e) \<Rightarrow> (st', Inl e)
      | (st', Inr ports) \<Rightarrow> (st', Inr (portsOf ports)))"

section \<open>Accepting\<close>

text \<open>
  What a call of an accept function leads to: it blocks for ever (\<open>None\<close>), it fails, or it
  yields a connection, which may stall after any number of bytes.  On success the function
  closes its listener; on failure it does not.
\<close>

type_synonym accept_outcome = "inp result option"

datatype payload = Payload conn_reader | RawConn inp

record session_ports =
  spDoc :: inp
  spEC :: payload
  spOC :: payload
  spEN :: payload
  spON :: payload
  spCP :: payload
  spNP :: payload

definition acceptOne :: "nat \<Rightarrow> accept_outcome \<Rightarrow> net_state \<Rightarrow> net_state" where
  "acceptOne i a st =
     (case a of
        Some (Inr c) \<Rightarrow> st\<lparr>listeners := listeners st - {i}, conns := insert i (conns st)\<rparr>
      | _ \<Rightarrow> st)"

text \<open>The seven goroutines, finishing in the order \<open>order\<close>.\<close>

definition acceptAll :: "nat list \<Rightarrow> accept_outcome list \<Rightarrow> net_state \<Rightarrow> net_state" where
  "acceptAll order accs st = fold (\<lambda>i. acceptOne i (accs ! i)) order st"

fun firstError :: "nat \<Rightarrow> accept_outcome list \<Rightarrow> (nat \<times> go_error) option" where
  "firstError i [] = None"
| "firstError i (Some (Inl e) # as) = Some (i, e)"
| "firstError i (a # as) = firstError (Suc i) as"

definition closeAll :: "nat set \<Rightarrow> net_state \<Rightarrow> net_state" where
  "closeAll cs st = st\<lparr>conns := conns st - cs\<rparr>"

definition accepted :: "accept_outcome list \<Rightarrow> nat set" where
  "accepted accs = {i. i < length accs \<and> (\<exists>c. accs ! i = Some (Inr c))}"

fun authPorts :: "string \<Rightarrow> nat \<Rightarrow> (bool \<times> inp) list \<Rightarrow> payload list result" where
  "authPorts token i [] = Inr []"
| "authPorts token i ((validate, conn) # rest) =
     (case (if validate
            then (case consumeTokenConn conn token of
                    Inl e \<Rightarrow> Inl (Wrapf (''port '' @ fmtInt (int i) @ '' token auth'') e)
                  | Inr pc \<Rightarrow> Inr (Payload pc))
            else Inr (RawConn conn)) of
        Inl e \<Rightarrow> Inl e
      | Inr p \<Rightarrow> (case authPorts token (Suc i) rest of Inl e \<Rightarrow> Inl e | Inr ps \<Rightarrow> Inr (p # ps)))"

fun connOf :: "payload \<Rightarrow> inp" where
  "connOf (Payload pc) = inner pc"
| "connOf (RawConn c) = c"

definition portSet :: "payload list \<Rightarrow> session_ports" where
  "portSet ps = \<lparr>spDoc = connOf (ps ! 0), spEC = ps ! 1, spOC = ps ! 2, spEN = ps ! 3,
     spON = ps ! 4, spCP = ps ! 5, spNP = ps ! 6\<rparr>"

text \<open>
  The result is \<open>None\<close> when the call does not return: an accept that blocks, or a connection that
  stalls inside the token.
\<close>

definition acceptSession :: "string \<Rightarrow> nat list \<Rightarrow> accept_outcome list \<Rightarrow> bool \<Rightarrow> net_state
    \<Rightarrow> (net_state \<times> session_ports result) option" where
  "acceptSession token order accs validateDoc st =
     (if length accs \<noteq> 7
      then Some (st, Inl (Errorf (''want 7 accept funcs, got '' @ fmtInt (int (length accs)))))
      else if None \<in> set accs then None
      else
        let st1 = acceptAll order accs st in
        case firstError 0 accs of
          Some (i, e) \<Rightarrow>
            Some (closeAll (accepted accs) st1, Inl (Wrapf (''accept port '' @ fmtInt (int i)) e))
        | None \<Rightarrow>
            let cs = map (\<lambda>a. projr (the a)) accs in
            case authPorts token 0 (zip [validateDoc, True, True, True, True, True, True] cs) of
              Inl e \<Rightarrow> if endless e then None else Some (closeAll (accepted accs) st1, Inl e)
            | Inr ps \<Rightarrow> Some (st1, Inr (portSet ps)))"

section \<open>Dialling\<close>

text \<open>
  \<open>DialSession\<close>: \<open>opened\<close> is the slice \<open>conns\<close>, an entry of which is set only after the token
  has been written.
\<close>

definition setConns :: "outp option list \<Rightarrow> nat \<Rightarrow> nat set" where
  "setConns opened n = {j. j < n \<and> j < length opened \<and> opened ! j \<noteq> None}"

fun dialLoop :: "string \<Rightarrow> string \<Rightarrow> (nat \<Rightarrow> outp result) \<Rightarrow> (nat \<times> int) list \<Rightarrow> outp option list
    \<Rightarrow> net_state \<Rightarrow> net_state \<times> outp option list result" where
  "dialLoop host token dial [] opened st = (st, Inr opened)"
| "dialLoop host token dial ((i, port) # ports) opened st =
     (let addr = host @ '':'' @ fmtInt port in
      case dial i of
        Inl e \<Rightarrow> (closeAll (setConns opened i) st, Inl (Wrapf (''dial '' @ addr) e))
      | Inr conn \<Rightarrow>
          let st1 = st\<lparr>conns := insert i (conns st)\<rparr> in
          case outp_Write conn token of
            (conn', n, Some e) \<Rightarrow>
              (closeAll (setConns opened (i + 1)) st1, Inl (Wrapf (''write token to '' @ addr) e))
          | (conn', n, None) \<Rightarrow> dialLoop host token dial ports (opened[i := Some conn']) st1)"

definition portListOf :: "data_ports \<Rightarrow> int list" where
  "portListOf p = [portDoc p, portEC p, portOC p, portEN p, portON p, portCP p, portNP p]"

definition dialSession :: "string \<Rightarrow> invitation \<Rightarrow> (nat \<Rightarrow> outp result) \<Rightarrow> net_state
    \<Rightarrow> net_state \<times> outp option list result" where
  "dialSession host i dial st =
     dialLoop host (invToken i) dial (zip [0..<7] (portListOf (invPorts i))) (replicate 7 None) st"

text \<open>\<open>SessionPortSet.Close\<close> closes all seven connections.\<close>

definition closePorts :: "net_state \<Rightarrow> net_state" where
  "closePorts st = closeAll {0..<7} st"

definition particleKinds :: "particle_kind list" where
  "particleKinds = [EvenCypher, OddCypher, EvenNoise, OddNoise, CypherParity, NoiseParity]"

text \<open>
  The six particle connections by kind (\<open>internal/client/split.go\<close>): what is read from them, and
  what is written to them.  \<open>conn\<close> gives the connections of a session in the order of its ports.
\<close>

definition particleReaders :: "(nat \<Rightarrow> 'r) \<Rightarrow> (particle_kind \<rightharpoonup> 'r)" where
  "particleReaders conn = [EvenCypher \<mapsto> conn 1, OddCypher \<mapsto> conn 2, EvenNoise \<mapsto> conn 3,
     OddNoise \<mapsto> conn 4, CypherParity \<mapsto> conn 5, NoiseParity \<mapsto> conn 6]"

definition particleWriters :: "(nat \<Rightarrow> 'w) \<Rightarrow> (particle_kind \<rightharpoonup> 'w)" where
  "particleWriters conn = [EvenCypher \<mapsto> conn 1, OddCypher \<mapsto> conn 2, EvenNoise \<mapsto> conn 3,
     OddNoise \<mapsto> conn 4, CypherParity \<mapsto> conn 5, NoiseParity \<mapsto> conn 6]"

lemma length_particleKinds [simp]: "length particleKinds = 6"
  by (simp add: particleKinds_def)

lemma particleReaders_nth:
  assumes "i < 6"
  shows "particleReaders conn (particleKinds ! i) = Some (conn (Suc i))"
    and "particleWriters conn (particleKinds ! i) = Some (conn (Suc i))"
proof -
  have "i = 0 \<or> i = 1 \<or> i = 2 \<or> i = 3 \<or> i = 4 \<or> i = 5" using assms by linarith
  then show "particleReaders conn (particleKinds ! i) = Some (conn (Suc i))"
      "particleWriters conn (particleKinds ! i) = Some (conn (Suc i))"
    by (auto simp: particleReaders_def particleWriters_def particleKinds_def eval_nat_numeral)
qed

lemma all_kinds_nth: "k \<in> all_kinds \<Longrightarrow> \<exists>i < 6. particleKinds ! i = k"
proof -
  assume "k \<in> all_kinds"
  then have "k \<in> set particleKinds" by (auto simp: all_kinds_def particleKinds_def)
  then obtain i where "i < length particleKinds" "particleKinds ! i = k" by (auto simp: in_set_conv_nth)
  then show ?thesis by auto
qed

lemma particleWriters_SomeD:
  assumes "particleWriters conn k = Some c"
  shows "\<exists>i < 6. k = particleKinds ! i \<and> c = conn (Suc i)"
proof -
  have "k \<in> all_kinds" using assms by (auto simp: particleWriters_def all_kinds_def split: if_splits)
  then obtain i where "i < 6" "particleKinds ! i = k" using all_kinds_nth by blast
  with assms particleReaders_nth(2) [of i conn] show ?thesis by auto
qed

section \<open>Half-closing\<close>

text \<open>
  \<open>closeWriteConn\<close> asks for a method \<open>CloseWrite\<close>.  A TCP connection has it; a \<open>payloadConn\<close>
  embeds the interface \<open>net.Conn\<close>, which has not.  The result is whether the sending half
  was closed.
\<close>

fun hasCloseWrite :: "payload \<Rightarrow> bool" where
  "hasCloseWrite (Payload pc) = False"
| "hasCloseWrite (RawConn c) = True"

definition closeWriteConn :: "nat \<Rightarrow> payload \<Rightarrow> nat set \<Rightarrow> nat set" where
  "closeWriteConn i c halfClosed = (if hasCloseWrite c then insert i halfClosed else halfClosed)"

definition closeWriteParticlePorts :: "session_ports \<Rightarrow> nat set \<Rightarrow> nat set" where
  "closeWriteParticlePorts sp h =
     closeWriteConn 6 (spNP sp) (closeWriteConn 5 (spCP sp) (closeWriteConn 4 (spON sp)
       (closeWriteConn 3 (spEN sp) (closeWriteConn 2 (spOC sp) (closeWriteConn 1 (spEC sp) h)))))"

text \<open>\<open>ReaderHasData\<close>: only a \<open>payloadConn\<close> is asked; any other reader counts as having data.\<close>

fun readerHasData :: "payload \<Rightarrow> payload \<times> bool" where
  "readerHasData (Payload pc) = (case hasData pc of (pc', b) \<Rightarrow> (Payload pc', b))"
| "readerHasData (RawConn c) = (RawConn c, True)"

section \<open>Authentication and release\<close>

lemma consumeTokenConn_iff:
  assumes "wf_inp conn"
  shows "isl (consumeTokenConn conn token) \<longleftrightarrow> \<not> isPrefix token (inpContent conn)"
proof -
  have ok: "crOk (newBufio conn)" using assms by simp
  obtain b' res where m: "matchToken token (newBufio conn) = (b', res)"
    by (cases "matchToken token (newBufio conn)")
  from matchToken_spec [OF ok m] show ?thesis
    by (auto simp: consumeTokenConn_def m split: option.split token_error.split)
qed

text \<open>
  A checked connection makes the check wait when it stalls with a part of the token; the first
  connection without the whole token decides.
\<close>

fun authWaits :: "string \<Rightarrow> (bool \<times> inp) list \<Rightarrow> bool" where
  "authWaits token [] \<longleftrightarrow> False"
| "authWaits token ((v, c) # vcs) \<longleftrightarrow>
     (if v \<and> \<not> isPrefix token (inpContent c)
      then endless (inpEnd c) \<and> isPrefix (inpContent c) token
      else authWaits token vcs)"

lemma consumeTokenConn_endless:
  assumes "wf_inp conn" "consumeTokenConn conn token = Inl e"
  shows "endless e \<longleftrightarrow> endless (inpEnd conn) \<and> isPrefix (inpContent conn) token"
proof -
  have ok: "crOk (newBufio conn)" using assms(1) by simp
  obtain b' res where m: "matchToken token (newBufio conn) = (b', res)"
    by (cases "matchToken token (newBufio conn)")
  note spec = matchToken_spec [OF ok m]
  show ?thesis
  proof (cases res)
    case None
    with assms(2) m show ?thesis by (simp add: consumeTokenConn_def)
  next
    case (Some x)
    show ?thesis
    proof (cases x)
      case (TokenRead y)
      with Some spec assms(2) m show ?thesis by (auto simp: consumeTokenConn_def)
    next
      case TokenMismatch
      with Some matchToken_mismatch [OF ok] m assms(2) show ?thesis by (auto simp: consumeTokenConn_def)
    qed
  qed
qed

lemma authPorts_endless:
  "\<forall>(v, c) \<in> set vcs. wf_inp c \<Longrightarrow>
   (\<exists>e. authPorts token i vcs = Inl e \<and> endless e) \<longleftrightarrow> authWaits token vcs"
proof (induction vcs arbitrary: i)
  case (Cons vc vcs)
  obtain v c where vc: "vc = (v, c)" by (cases vc)
  with Cons.prems have wf: "wf_inp c" by simp
  have IH: "(\<exists>e. authPorts token (Suc i) vcs = Inl e \<and> endless e) \<longleftrightarrow> authWaits token vcs"
    using Cons by auto
  show ?case
  proof (cases "v \<and> isl (consumeTokenConn c token)")
    case True
    then obtain e where "v" "consumeTokenConn c token = Inl e" by (cases "consumeTokenConn c token") auto
    with consumeTokenConn_iff [OF wf, of token] consumeTokenConn_endless [OF wf] show ?thesis by (simp add: vc)
  next
    case False
    with consumeTokenConn_iff [OF wf, of token] IH show ?thesis
      by (cases "consumeTokenConn c token"; cases "authPorts token (Suc i) vcs") (auto simp: vc)
  qed
qed simp

lemma authWaits_refuses:
  "\<forall>(v, c) \<in> set vcs. wf_inp c \<Longrightarrow> authWaits token vcs \<Longrightarrow> isl (authPorts token i vcs)"
  using authPorts_endless [of vcs token i] by (metis sum.disc(1))

lemma authPorts_iff:
  "\<forall>(v, c) \<in> set vcs. wf_inp c \<Longrightarrow>
   isl (authPorts token i vcs) \<longleftrightarrow> \<not> (\<forall>(v, c) \<in> set vcs. v \<longrightarrow> isPrefix token (inpContent c))"
proof (induction vcs arbitrary: i)
  case (Cons vc vcs)
  obtain v c where vc: "vc = (v, c)" by (cases vc)
  with Cons have "isl (authPorts token (Suc i) vcs) \<longleftrightarrow>
      \<not> (\<forall>(v, c) \<in> set vcs. v \<longrightarrow> isPrefix token (inpContent c))" "wf_inp c" by auto
  with consumeTokenConn_iff [of c token] vc show ?case
    by (cases "consumeTokenConn c token"; cases "authPorts token (Suc i) vcs") auto
qed simp

lemma authPorts_payload:
  "authPorts token i vcs = Inr ps \<Longrightarrow> j < length vcs \<Longrightarrow> fst (vcs ! j) \<Longrightarrow> \<exists>pc. ps ! j = Payload pc"
  by (induction vcs arbitrary: i j ps) (auto simp: nth_Cons split: sum.splits if_splits nat.splits)

lemma acceptAll_ok:
  "\<forall>i \<in> set order. i < length cs \<Longrightarrow>
   acceptAll order (map (\<lambda>c. Some (Inr c)) cs) st =
     st\<lparr>listeners := listeners st - set order, conns := conns st \<union> set order\<rparr>"
proof (induction order arbitrary: st)
  case (Cons i order)
  then show ?case
    using Diff_insert2 [of "listeners st" i "set order"]
    by (simp add: acceptAll_def acceptOne_def)
qed (simp add: acceptAll_def)

lemma firstError_ok: "firstError i (map (\<lambda>c. Some (Inr c)) cs) = None"
  by (induction cs arbitrary: i) auto

lemma firstError_none: "firstError i as = None \<longleftrightarrow> (\<forall>a \<in> set as. \<not> (a \<noteq> None \<and> isl (the a)))"
  by (induction i as rule: firstError.induct) auto

lemma accepted_ok: "accepted (map (\<lambda>c. Some (Inr c)) cs) = {0..<length cs}"
  by (auto simp: accepted_def)

lemma acceptSession_ok:
  assumes "length cs = 7" "set order = {0..<7}"
  shows "acceptSession token order (map (\<lambda>c. Some (Inr c)) cs) validateDoc st =
    (case authPorts token 0 (zip [validateDoc, True, True, True, True, True, True] cs) of
        Inl e \<Rightarrow> if endless e then None
          else Some (st\<lparr>listeners := listeners st - {0..<7}, conns := conns st - {0..<7}\<rparr>, Inl e)
      | Inr ps \<Rightarrow> Some (st\<lparr>listeners := listeners st - {0..<7}, conns := conns st \<union> {0..<7}\<rparr>, Inr (portSet ps)))"
proof -
  have acc: "acceptAll order (map (\<lambda>c. Some (Inr c)) cs) st =
      st\<lparr>listeners := listeners st - {0..<7}, conns := conns st \<union> {0..<7}\<rparr>"
    using acceptAll_ok [of order cs st] assms by auto
  have proj: "map (\<lambda>a. projr (the a)) (map (\<lambda>c. Some (Inr c)) cs) = cs"
    by (simp add: o_def)
  have "conns st \<union> {0..<7} - {0..<7} = conns st - {0..<7}" by auto
  moreover have "None \<notin> set (map (\<lambda>c. Some (Inr c)) cs :: accept_outcome list)" by auto
  ultimately show ?thesis
    unfolding acceptSession_def Let_def acc firstError_ok accepted_ok proj closeAll_def
    using assms(1) by (simp split: sum.split)
qed

lemma accept_session_outcome:
  assumes "length cs = 7" "set order = {0..<7}" "\<forall>c \<in> set cs. wf_inp c"
  shows "if authWaits token (zip [validateDoc, True, True, True, True, True, True] cs)
    then acceptSession token order (map (\<lambda>c. Some (Inr c)) cs) validateDoc st = None
    else \<exists>st' r. acceptSession token order (map (\<lambda>c. Some (Inr c)) cs) validateDoc st = Some (st', r) \<and>
    (isl r \<longleftrightarrow> \<not> (\<forall>i < 7. (i = 0 \<longrightarrow> validateDoc) \<longrightarrow> isPrefix token (inpContent (cs ! i)))) \<and>
    conns st' = (if isl r then conns st - {0..<7} else conns st \<union> {0..<7}) \<and>
    listeners st' = listeners st - {0..<7}"
proof -
  let ?vcs = "zip [validateDoc, True, True, True, True, True, True] cs"
  obtain c0 c1 c2 c3 c4 c5 c6 where cs: "cs = [c0, c1, c2, c3, c4, c5, c6]"
    using assms(1) by (auto simp: length_Suc_conv eval_nat_numeral)
  have all7: "(\<forall>i < 7. P i) \<longleftrightarrow> P 0 \<and> P 1 \<and> P 2 \<and> P 3 \<and> P 4 \<and> P 5 \<and> P 6" for P :: "nat \<Rightarrow> bool"
    by (auto simp: All_less_Suc eval_nat_numeral)
  have "isl (authPorts token 0 ?vcs) \<longleftrightarrow>
      \<not> (\<forall>i < 7. (i = 0 \<longrightarrow> validateDoc) \<longrightarrow> isPrefix token (inpContent (cs ! i)))"
    using authPorts_iff [of ?vcs token 0] assms(3) unfolding all7 by (simp add: cs)
  moreover have "\<forall>(v, c) \<in> set ?vcs. wf_inp c" using assms(3) by (auto dest: set_zip_rightD)
  note authPorts_endless [OF this, of token 0]
  ultimately show ?thesis
    unfolding acceptSession_ok [OF assms(1,2)] by (cases "authPorts token 0 ?vcs") auto
qed

text \<open>
  C13: a session is authenticated as a whole.  Once seven connections are there, it is
  established exactly when every connection that is checked starts with the token (the
  document connection is not checked in split mode); if it is refused, none of the seven
  connections stays open.  The listeners are closed either way.  It is neither, and the call
  does not return, exactly when the first checked connection without the token stalls inside it.
\<close>

theorem accept_session_authenticated:
  assumes "length cs = 7" "set order = {0..<7}" "\<forall>c \<in> set cs. wf_inp c"
  shows "if authWaits token (zip [validateDoc, True, True, True, True, True, True] cs)
    then acceptSession token order (map (\<lambda>c. Some (Inr c)) cs) validateDoc st = None
    else \<exists>st' r. acceptSession token order (map (\<lambda>c. Some (Inr c)) cs) validateDoc st = Some (st', r) \<and>
    (isl r \<longleftrightarrow> \<not> (\<forall>i < 7. (i = 0 \<longrightarrow> validateDoc) \<longrightarrow> isPrefix token (inpContent (cs ! i)))) \<and>
    conns st' = (if isl r then conns st - {0..<7} else conns st \<union> {0..<7}) \<and>
    listeners st' = listeners st - {0..<7}"
  by (rule accept_session_outcome [OF assms])

theorem accept_session_authenticated_witness:
  "\<exists>st' e. acceptSession ''T'' [3, 1, 2, 0, 4, 5, 6]
     (map (\<lambda>c. Some (Inr c)) (replicate 6 \<lparr>chunks = [''T''], inpEnd = EOF, early = False\<rparr> @
        [\<lparr>chunks = [''U''], inpEnd = EOF, early = False\<rparr>])) False noNet = Some (st', Inl e) \<and> conns st' = {}"
proof -
  let ?c = "\<lambda>b. \<lparr>chunks = [b], inpEnd = EOF, early = False\<rparr>"
  let ?cs = "replicate 6 (?c ''T'') @ [?c ''U'']"
  have cs: "length ?cs = 7" "set [3, 1, 2, 0, 4, 5, 6 :: nat] = {0..<7}" "\<forall>c \<in> set ?cs. wf_inp c"
    by (auto simp: wf_inp_def)
  have waits: "\<not> authWaits ''T'' (zip [False, True, True, True, True, True, True] ?cs)"
    by (simp add: numeral_eq_Suc isPrefix_def inpContent_def)
  obtain st' r where r: "acceptSession ''T'' [3, 1, 2, 0, 4, 5, 6] (map (\<lambda>c. Some (Inr c)) ?cs) False noNet
      = Some (st', r)" "isl r \<longleftrightarrow> \<not> (\<forall>i < 7. (i = 0 \<longrightarrow> False) \<longrightarrow> isPrefix ''T'' (inpContent (?cs ! i)))"
      "conns st' = (if isl r then conns noNet - {0..<7} else conns noNet \<union> {0..<7})"
    using accept_session_authenticated [OF cs, of "''T''" False noNet, unfolded if_not_P [OF waits]] by blast
  have "\<not> isPrefix ''T'' (inpContent (?cs ! 6))"
    by (simp add: nth_append isPrefix_def inpContent_def)
  then have "\<not> (\<forall>i < 7. (i = 0 \<longrightarrow> False) \<longrightarrow> isPrefix ''T'' (inpContent (?cs ! i)))" by force
  with r obtain e where "r = Inl e" by (cases r) auto
  with r show ?thesis by (auto simp: noNet_def)
qed

text \<open>
  The half-close after a split does nothing.  Every particle connection of an accepted
  session is a \<open>payloadConn\<close>, on which no \<open>CloseWrite\<close> can be found; the clients see the end
  of the particle streams only when the session is closed.
\<close>

theorem half_close_has_no_effect:
  assumes "length cs = 7" "set order = {0..<7}"
    and "acceptSession token order (map (\<lambda>c. Some (Inr c)) cs) validateDoc st = Some (st', Inr sp)"
  shows "closeWriteParticlePorts sp h = h"
proof -
  let ?vcs = "zip [validateDoc, True, True, True, True, True, True] cs"
  obtain ps where ps: "authPorts token 0 ?vcs = Inr ps" "sp = portSet ps"
    using assms(3) unfolding acceptSession_ok [OF assms(1,2)] by (auto split: sum.splits if_splits)
  have "\<exists>pc. ps ! j = Payload pc" if "0 < j" "j < 7" for j
  proof -
    have "j = 1 \<or> j = 2 \<or> j = 3 \<or> j = 4 \<or> j = 5 \<or> j = 6" using that by linarith
    then have "fst (?vcs ! j)" using assms(1) by (elim disjE) simp_all
    then show ?thesis using authPorts_payload [OF ps(1), of j] that assms(1) by simp
  qed
  then have none: "hasCloseWrite (ps ! j) = False" if "0 < j" "j < 7" for j
    using that hasCloseWrite.simps(1) by metis
  have "hasCloseWrite (ps ! 1) = False" "hasCloseWrite (ps ! 2) = False" "hasCloseWrite (ps ! 3) = False"
      "hasCloseWrite (ps ! 4) = False" "hasCloseWrite (ps ! 5) = False" "hasCloseWrite (ps ! 6) = False"
    by (rule none; simp)+
  then show ?thesis
    by (simp add: ps(2) portSet_def closeWriteParticlePorts_def closeWriteConn_def)
qed

theorem half_close_has_no_effect_witness:
  "\<exists>st' sp. acceptSession ''T'' [3, 1, 2, 0, 4, 5, 6]
     (map (\<lambda>c. Some (Inr c)) (replicate 7 \<lparr>chunks = [''Tx''], inpEnd = EOF, early = False\<rparr>)) False noNet
       = Some (st', Inr sp) \<and> closeWriteParticlePorts sp {} = {}"
proof -
  let ?cs = "replicate 7 \<lparr>chunks = [''Tx''], inpEnd = EOF, early = False\<rparr>"
  let ?vcs = "zip [False, True, True, True, True, True, True] ?cs"
  have 7: "length ?cs = 7" "set [3, 1, 2, 0, 4, 5, 6 :: nat] = {0..<7}" by auto
  have "\<forall>(v, c) \<in> set ?vcs. wf_inp c \<and> isPrefix ''T'' (inpContent c)"
    by (auto dest!: set_zip_rightD simp: wf_inp_def inpContent_def isPrefix_def)
  then have "\<not> isl (authPorts ''T'' 0 ?vcs)"
    by (subst authPorts_iff) auto
  then obtain ps where "authPorts ''T'' 0 ?vcs = Inr ps" by (cases "authPorts ''T'' 0 ?vcs") auto
  then obtain st' sp where "acceptSession ''T'' [3, 1, 2, 0, 4, 5, 6] (map (\<lambda>c. Some (Inr c)) ?cs) False noNet
      = Some (st', Inr sp)"
    unfolding acceptSession_ok [OF 7] by auto
  with half_close_has_no_effect [OF 7 this] show ?thesis by blast
qed

lemma dialLoop_ok_prefix:
  assumes "\<forall>i < n. \<exists>c c' m. dial i = Inr c \<and> outp_Write c token = (c', m, None)"
  shows "i \<le> n \<Longrightarrow> n \<le> length opened \<Longrightarrow> length opened \<le> length ports \<Longrightarrow>
    (\<forall>j < length opened. opened ! j \<noteq> None \<longleftrightarrow> j < i) \<Longrightarrow>
    \<exists>opened'. length opened' = length opened \<and> (\<forall>j < length opened'. opened' ! j \<noteq> None \<longleftrightarrow> j < n) \<and>
    dialLoop host token dial (drop i (zip [0..<length ports] ports)) opened st =
    dialLoop host token dial (drop n (zip [0..<length ports] ports)) opened'
      (st\<lparr>conns := conns st \<union> {i..<n}\<rparr>)"
proof (induction "n - i" arbitrary: i opened st)
  case 0
  then show ?case by (intro exI [of _ opened]) auto
next
  case (Suc d)
  then have i: "i < n" "i < length ports" by auto
  obtain c c' m where c: "dial i = Inr c" "outp_Write c token = (c', m, None)" using assms i by blast
  have "drop i (zip [0..<length ports] ports) = (i, ports ! i) # drop (Suc i) (zip [0..<length ports] ports)"
    using i by (subst Cons_nth_drop_Suc [symmetric]) auto
  moreover obtain opened' where "length opened' = length opened"
      "\<forall>j < length opened'. opened' ! j \<noteq> None \<longleftrightarrow> j < n"
      "dialLoop host token dial (drop (Suc i) (zip [0..<length ports] ports)) (opened[i := Some c'])
         (st\<lparr>conns := insert i (conns st)\<rparr>) =
       dialLoop host token dial (drop n (zip [0..<length ports] ports)) opened'
         (st\<lparr>conns := insert i (conns st) \<union> {Suc i..<n}\<rparr>)"
  proof -
    have "n - Suc i = d" "Suc i \<le> n" using Suc.hyps(2) i by auto
    moreover have "\<forall>j < length (opened[i := Some c']). (opened[i := Some c']) ! j \<noteq> None \<longleftrightarrow> j < Suc i"
      using Suc.prems(2,4) i by (auto simp: nth_list_update less_Suc_eq)
    ultimately show ?thesis
      using Suc.hyps(1) [of "Suc i" "opened[i := Some c']" "st\<lparr>conns := insert i (conns st)\<rparr>"]
        Suc.prems(2,3) that by auto
  qed
  moreover have "insert i (conns st) \<union> {Suc i..<n} = conns st \<union> {i..<n}"
    using i by auto
  ultimately show ?case using c by (intro exI [of _ opened']) (simp add: Let_def)
qed

text \<open>
  A leak in \<open>DialSession\<close>.  When the token cannot be written to the connection just
  dialled, the earlier connections are closed and this one stays open: it is not in the
  slice yet when the slice is closed.
\<close>

theorem dial_session_leaks:
  assumes "\<forall>i < n. \<exists>c c' m. dial i = Inr c \<and> outp_Write c (invToken inv') = (c', m, None)"
    and "n < 7" "dial n = Inr c" "outp_Write c (invToken inv') = (c', m, Some e)"
  shows "case dialSession host inv' dial noNet of
      (st', Inl e') \<Rightarrow> conns st' = {n} \<and>
        e' = Wrapf (''write token to '' @ host @ '':'' @ fmtInt (portListOf (invPorts inv') ! n)) e
    | (st', Inr cs) \<Rightarrow> False"
proof -
  let ?ports = "portListOf (invPorts inv')"
  have len: "length ?ports = 7" by (simp add: portListOf_def)
  obtain opened' :: "outp option list" where o: "length opened' = 7"
      "\<forall>j < length opened'. opened' ! j \<noteq> None \<longleftrightarrow> j < n"
      "dialSession host inv' dial noNet =
       dialLoop host (invToken inv') dial (drop n (zip [0..<7] ?ports)) opened' (noNet\<lparr>conns := {0..<n}\<rparr>)"
    using dialLoop_ok_prefix [OF assms(1), of 0 "replicate 7 None" ?ports host noNet] assms(2) len
    by (auto simp: dialSession_def noNet_def)
  have "drop n (zip [0..<7] ?ports) = (n, ?ports ! n) # drop (Suc n) (zip [0..<7] ?ports)"
    using assms(2) len by (subst Cons_nth_drop_Suc [symmetric]) auto
  moreover have "setConns opened' (n + 1) = {0..<n}"
    using o(1,2) assms(2) by (auto simp: setConns_def less_Suc_eq)
  moreover have "insert n {0..<n} - {0..<n} = {n}" by auto
  ultimately show ?thesis
    using assms(3,4) by (simp add: o(3) Let_def closeAll_def)
qed

theorem dial_session_leaks_witness:
  "case dialSession ''h'' \<lparr>invToken = ''T'', invMode = ModeSplit,
       invPorts = \<lparr>portDoc = 1, portEC = 2, portOC = 3, portEN = 4, portON = 5, portCP = 6, portNP = 7\<rparr>\<rparr>
     (\<lambda>i. Inr \<lparr>sent = [], quota = (if i = 2 then 0 else 9), outErr = OSError ''broken pipe''\<rparr>) noNet of
     (st', Inl e) \<Rightarrow> conns st' = {2} | (st', Inr cs) \<Rightarrow> False"
proof -
  let ?inv = "\<lparr>invToken = ''T'', invMode = ModeSplit,
       invPorts = \<lparr>portDoc = 1, portEC = 2, portOC = 3, portEN = 4, portON = 5, portCP = 6, portNP = 7\<rparr>\<rparr>"
  let ?dial = "\<lambda>i :: nat. Inr \<lparr>sent = [], quota = (if i = 2 then 0 else 9), outErr = OSError ''broken pipe''\<rparr>
     :: outp result"
  have A: "\<forall>i < 2. \<exists>c c' m. ?dial i = Inr c \<and> outp_Write c (invToken ?inv) = (c', m, None)"
    by (simp add: outp_Write_def)
  have B: "outp_Write \<lparr>sent = [], quota = 0, outErr = OSError ''broken pipe''\<rparr> (invToken ?inv) =
      (\<lparr>sent = [], quota = 0, outErr = OSError ''broken pipe''\<rparr>, 0, Some (OSError ''broken pipe''))"
    by (simp add: outp_Write_def)
  have "case dialSession ''h'' ?inv ?dial noNet of
      (st', Inl e') \<Rightarrow> conns st' = {2} \<and>
        e' = Wrapf (''write token to '' @ ''h'' @ '':'' @ fmtInt (portListOf (invPorts ?inv) ! 2))
          (OSError ''broken pipe'')
    | (st', Inr cs) \<Rightarrow> False"
    by (rule dial_session_leaks [OF A _ _ B]) simp_all
  then show ?thesis by (auto split: prod.splits sum.splits)
qed

end
