(* ===== verification/Steps.thy ===== *)
theory Steps
  imports Prelude
begin

text \<open>
  Step relations with an inductive invariant: what every concurrent part of the program
  (the accept loop with its shutdown, the upload goroutines) supplies, and what it gets.
\<close>

lemma step_to: "rtranclp r s0 s \<Longrightarrow> r s s' \<Longrightarrow> s' = s'' \<Longrightarrow> rtranclp r s0 s''"
  by simp

text \<open>A relation that terminates has, from every state, a run to one where it is stuck.\<close>

lemma run_ends:
  assumes "wfp (\<lambda>s' s. r s s')"
  shows "\<exists>s'. rtranclp r s s' \<and> (\<forall>t. \<not> r s' t)"
  using assms
proof (induction s rule: wfp_induct_rule)
  case (less s)
  then show ?case by (cases "\<exists>t. r s t") (blast intro: converse_rtranclp_into_rtranclp)+
qed

locale invariant_system =
  fixes step :: "'s \<Rightarrow> 's \<Rightarrow> bool"
    and start :: "'s \<Rightarrow> bool"
    and invar :: "'s \<Rightarrow> bool"
  assumes start_invar: "start s \<Longrightarrow> invar s"
    and step_invar: "invar s \<Longrightarrow> step s s' \<Longrightarrow> invar s'"
begin

lemma run_invar: "rtranclp step s s' \<Longrightarrow> invar s \<Longrightarrow> invar s'"
  by (induction rule: rtranclp_induct) (auto intro: step_invar)

lemma reachable_invar: "start s0 \<Longrightarrow> rtranclp step s0 s \<Longrightarrow> invar s"
  using run_invar start_invar by blast

end

end
