(* ===== verification/Upload.thy ===== *)
theory Upload
  imports ClientPlan SessionNet Steps
begin

text \<open>
  The client's side of a session: opening it (\<open>internal/client/client.go\<close>) and uploading the
  particle streams of a merge (\<open>merge.go\<close>), where one goroutine per stream works in each of
  two phases.
\<close>

section \<open>Opening a session\<close>

record client_session =
  csOut :: outp
  csIn :: inp
  csData :: "outp option list"

text \<open>\<open>WriteMergeProfile\<close>.\<close>

definition writeMergeProfile :: "outp \<Rightarrow> merge_profile \<Rightarrow> outp \<times> go_error option" where
  "writeMergeProfile w p = (case outp_Write w (formatProfileLine p) of (w', n, err) \<Rightarrow> (w', err))"

text \<open>
  \<open>openSession\<close>: the result tells whether the control connection is still open, which data
  connections are, and the session or the error.
\<close>

definition openSession :: "client_config \<Rightarrow> mode \<Rightarrow> merge_profile \<Rightarrow> (outp \<times> inp) result
    \<Rightarrow> (nat \<Rightarrow> outp result) \<Rightarrow> net_state \<Rightarrow> bool \<times> net_state \<times> client_session result" where
  "openSession c mode profile dialControl dial st =
     (case dialControl of
        Inl e \<Rightarrow> (False, st, Inl (Wrapf ''dial control'' e))
      | Inr (w, r) \<Rightarrow>
          (case outp_Write w (mode @ [newline]) of
             (w1, n1, Some e) \<Rightarrow> (False, st, Inl (Wrapf ''write mode'' e))
           | (w1, n1, None) \<Rightarrow>
               (case (if mode = ModeMerge then writeMergeProfile w1 profile else (w1, None)) of
                  (w2, Some e) \<Rightarrow> (False, st, Inl (Wrapf ''write merge profile'' e))
                | (w2, None) \<Rightarrow>
                    (case readInvitation r of
                       (r', Inl e) \<Rightarrow> (False, st, Inl (Wrapf ''read invitation'' e))
                     | (r', Inr i) \<Rightarrow>
                         if Token c \<noteq> [] \<and> invToken i \<noteq> Token c
                         then (False, st, Inl (Quotef ''unexpected token '' (invToken i) ''''))
                         else
                           (let host = (if Host c = [] then ''127.0.0.1'' else Host c) in
                            case dialSession host i dial st of
                              (st', Inl e) \<Rightarrow> (False, st', Inl (Wrapf ''dial session'' e))
                            | (st', Inr conns') \<Rightarrow>
                                (True, st', Inr \<lparr>csOut = w2, csIn = r', csData = conns'\<rparr>))))))"

definition openMergeSession :: "client_config \<Rightarrow> merge_profile \<Rightarrow> (outp \<times> inp) result
    \<Rightarrow> (nat \<Rightarrow> outp result) \<Rightarrow> net_state \<Rightarrow> bool \<times> net_state \<times> client_session result" where
  "openMergeSession c profile = openSession c ModeMerge profile"

definition openPlainSession :: "client_config \<Rightarrow> mode \<Rightarrow> (outp \<times> inp) result
    \<Rightarrow> (nat \<Rightarrow> outp result) \<Rightarrow> net_state \<Rightarrow> bool \<times> net_state \<times> client_session result" where
  "openPlainSession c mode = openSession c mode noProfile"

text \<open>\<open>Session.Close\<close>: whether the control connection is open, and the data connections.\<close>

definition sessionClose :: "bool \<times> net_state \<Rightarrow> bool \<times> net_state" where
  "sessionClose s = (False, closePorts (snd s))"

lemma outp_Write_sent: "outp_Write w p = (w', n, None) \<Longrightarrow> sent w' = sent w @ p"
  by (auto simp: outp_Write_def split: if_splits)

text \<open>What an opened session has sent is the hello of the handshake theory.\<close>

lemma openSession_hello:
  assumes "openSession c mode profile (Inr (w, r)) dial st = (b, st', Inr s)"
    "mode = ModeSplit \<or> mode = ModeMerge"
  shows "sent (csOut s) = sent w @ clientHello mode profile \<and> b"
  using assms
  by (auto simp: openSession_def writeMergeProfile_def clientHello_def Let_def ModeSplit_def ModeMerge_def dest!: outp_Write_sent
      split: prod.splits option.splits sum.splits if_splits)

text \<open>Opening a session over connections that take the bytes.\<close>

lemma dialLoop_ok:
  "\<forall>(n, p) \<in> set ps. dial n = Inr (c n) \<and> length token \<le> quota (c n) \<Longrightarrow>
   dialLoop host token dial ps opened st = (st\<lparr>conns := conns st \<union> fst ` set ps\<rparr>,
     Inr (fold (\<lambda>(n, p) os. os[n := Some (wroteTo (c n) token)]) ps opened))"
proof (induction ps arbitrary: opened st)
  case (Cons np ps)
  obtain n p where np: "np = (n, p)" by (cases np)
  with Cons show ?case by (simp add: outp_Write_fits Let_def)
qed simp

lemma dialSession_ok:
  assumes "\<forall>n < 7. dial n = Inr (c n) \<and> length (invToken i) \<le> quota (c n)"
  shows "dialSession host i dial st = (st\<lparr>conns := conns st \<union> {0..<7}\<rparr>,
    Inr (map (\<lambda>n. Some (wroteTo (c n) (invToken i))) [0..<7]))"
proof -
  let ?ps = "zip [0..<7] (portListOf (invPorts i))"
  have upt: "[0..<7] = [0, 1, 2, 3, 4, 5, 6 :: nat]" by (simp add: upt_rec)
  have fst: "map fst ?ps = [0..<7]" by (simp add: portListOf_def)
  have "fst ` set ?ps = {0..<7}" using fst by (metis list.set_map set_upt)
  moreover have "\<forall>(n, p) \<in> set ?ps. dial n = Inr (c n) \<and> length (invToken i) \<le> quota (c n)"
    using assms by (auto dest: set_zip_leftD)
  moreover have "fold (\<lambda>(n, p) os. os[n := Some (wroteTo (c n) (invToken i))]) ?ps (replicate 7 None) =
      map (\<lambda>n. Some (wroteTo (c n) (invToken i))) [0..<7]"
    unfolding upt portListOf_def by (simp add: numeral_eq_Suc)
  ultimately show ?thesis
    unfolding dialSession_def by (simp add: dialLoop_ok)
qed

lemma openSession_ok:
  assumes "mode = ModeSplit \<or> mode = ModeMerge" "length (clientHello mode profile) \<le> quota w"
    and "snd (readInvitation r) = Inr i" "Token c = [] \<or> invToken i = Token c"
    and "\<forall>n < 7. dial n = Inr (d n) \<and> length (invToken i) \<le> quota (d n)"
  shows "openSession c mode profile (Inr (w, r)) dial noNet =
    (True, \<lparr>listeners = {}, conns = {0..<7}\<rparr>,
     Inr \<lparr>csOut = wroteTo w (clientHello mode profile), csIn = fst (readInvitation r),
       csData = map (\<lambda>n. Some (wroteTo (d n) (invToken i))) [0..<7]\<rparr>)"
proof -
  obtain r' where r: "readInvitation r = (r', Inr i)" using assms(3) by (cases "readInvitation r") auto
  have "noNet\<lparr>conns := conns noNet \<union> {0..<7}\<rparr> = \<lparr>listeners = {}, conns = {0..<7}\<rparr>"
    by (simp add: noNet_def)
  with dialSession_ok [OF assms(5)] show ?thesis
    using assms(1,2,4) r
    by (auto simp: openSession_def writeMergeProfile_def clientHello_def Let_def outp_Write_fits wroteTo_twice
        ModeSplit_def ModeMerge_def)
qed

lemma dialLoop_net:
  "dialLoop host token dial ps opened st = (st', r) \<Longrightarrow>
   listeners st' = listeners st \<and> conns st' \<subseteq> conns st \<union> fst ` set ps"
proof (induction ps arbitrary: opened st)
  case (Cons np ps)
  obtain n p where np: "np = (n, p)" by (cases np)
  show ?case
  proof (cases "dial n")
    case (Inl e)
    with Cons.prems np show ?thesis by (auto simp: closeAll_def Let_def)
  next
    case (Inr c)
    obtain c' m e where w: "outp_Write c token = (c', m, e)" by (cases "outp_Write c token")
    with Cons.prems Cons.IH [of "opened[n := Some c']" "st\<lparr>conns := insert n (conns st)\<rparr>"] np Inr show ?thesis
      by (cases e) (auto simp: closeAll_def Let_def)
  qed
qed simp

lemma openSession_net:
  assumes "openSession c mode profile dialControl dial noNet = (b, st, Inr s)"
  shows "b" "listeners st = {}" "conns st \<subseteq> {0..<7}"
proof -
  have "\<exists>host i cs. dialSession host i dial noNet = (st, Inr cs) \<and> b"
    using assms by (auto simp: openSession_def Let_def split: sum.splits prod.splits option.splits if_splits)
  then obtain host i cs where d: "dialSession host i dial noNet = (st, Inr cs)" and b: "b" by blast
  have "fst ` set (zip [0..<7] (portListOf (invPorts i))) \<subseteq> {0..<7}"
    by (auto dest: set_zip_leftD)
  with dialLoop_net [OF d [unfolded dialSession_def]] show "listeners st = {}" "conns st \<subseteq> {0..<7}"
    by (auto simp: noNet_def)
  show "b" by (rule b)
qed

section \<open>Uploading\<close>

definition parityParticleKinds :: "particle_kind list" where
  "parityParticleKinds = [CypherParity, NoiseParity]"

text \<open>
  A goroutine of the upload: it has written so many bytes of its stream, has written them
  all, has closed the stream, or has put an error into the channel.
\<close>

datatype task = Writing nat | Written | Closed | Failed

text \<open>The upload first closes the streams it does not send, then runs its two phases.\<close>

datatype upload_phase =
    ClosingOmitted "particle_kind list"
  | CorePhase
  | ParityPhase
  | UploadReturned "go_error option"

record upload =
  phase :: upload_phase
  task :: "particle_kind \<Rightarrow> task"
  errCh :: "go_error list"
  stream :: "particle_kind \<Rightarrow> bytes"
  closed :: "particle_kind \<Rightarrow> bool"

definition newUpload :: "pcs_module \<Rightarrow> upload" where
  "newUpload M = \<lparr>phase = ClosingOmitted (CoreParticleKinds M @ parityParticleKinds),
     task = (\<lambda>k. Writing 0), errCh = [], stream = (\<lambda>k. []), closed = (\<lambda>k. False)\<rparr>"

definition phaseKinds :: "pcs_module \<Rightarrow> upload_phase \<Rightarrow> particle_kind list" where
  "phaseKinds M p =
     (case p of CorePhase \<Rightarrow> CoreParticleKinds M | ParityPhase \<Rightarrow> parityParticleKinds | _ \<Rightarrow> [])"

text \<open>\<open>wg.Wait()\<close> returns when every goroutine of the phase has closed its stream or failed.\<close>

definition phaseDone :: "pcs_module \<Rightarrow> (particle_kind \<Rightarrow> bool) \<Rightarrow> upload \<Rightarrow> bool" where
  "phaseDone M send u \<longleftrightarrow>
     (\<forall>k \<in> set (phaseKinds M (phase u)). send k \<longrightarrow> task u k = Closed \<or> task u k = Failed)"

definition firstErr :: "go_error list \<Rightarrow> go_error option" where
  "firstErr es = (case es of [] \<Rightarrow> None | e # _ \<Rightarrow> Some e)"

text \<open>
  One step of an upload that sends \<open>data k\<close> on the streams of \<open>send\<close>: of the main goroutine
  or of any of the goroutines of the current phase.  A stream is written in pieces of any
  size; \<open>x\<close> in \<open>put_fails\<close> is the error of the write or of opening and closing the file the
  bytes come from.  The relation says what the program can do when no call blocks, and any call
  may fail: it holds the runs of the upload, whatever the connections do.  When a write has to
  wait for the server, and so whether an upload returns, is not in it; \<open>Backpressure\<close> adds it.
\<close>

inductive upload_step :: "pcs_module \<Rightarrow> (particle_kind \<Rightarrow> bool) \<Rightarrow> (particle_kind \<Rightarrow> bytes)
    \<Rightarrow> upload \<Rightarrow> upload \<Rightarrow> bool" for M send data where
  keep: "phase u = ClosingOmitted (k # ks) \<Longrightarrow> send k \<Longrightarrow>
    upload_step M send data u (u\<lparr>phase := ClosingOmitted ks\<rparr>)"
| omit: "phase u = ClosingOmitted (k # ks) \<Longrightarrow> \<not> send k \<Longrightarrow>
    upload_step M send data u (u\<lparr>phase := ClosingOmitted ks, closed := (closed u)(k := True)\<rparr>)"
| omit_fails: "phase u = ClosingOmitted (k # ks) \<Longrightarrow> \<not> send k \<Longrightarrow>
    upload_step M send data u
      (u\<lparr>phase := UploadReturned (Some (Wrapf (''close '' @ kindString M k) e))\<rparr>)"
| omitted: "phase u = ClosingOmitted [] \<Longrightarrow> upload_step M send data u (u\<lparr>phase := CorePhase\<rparr>)"
| put: "k \<in> set (phaseKinds M (phase u)) \<Longrightarrow> send k \<Longrightarrow> task u k = Writing n \<Longrightarrow>
    n < m \<Longrightarrow> m \<le> length (data k) \<Longrightarrow>
    upload_step M send data u
      (u\<lparr>task := (task u)(k := Writing m), stream := (stream u)(k := take m (data k))\<rparr>)"
| put_fails: "k \<in> set (phaseKinds M (phase u)) \<Longrightarrow> send k \<Longrightarrow> task u k = Writing n \<Longrightarrow>
    upload_step M send data u
      (u\<lparr>task := (task u)(k := Failed), errCh := errCh u @ [x]\<rparr>)"
| put_all: "k \<in> set (phaseKinds M (phase u)) \<Longrightarrow> send k \<Longrightarrow> task u k = Writing (length (data k)) \<Longrightarrow>
    upload_step M send data u (u\<lparr>task := (task u)(k := Written)\<rparr>)"
| close_stream: "k \<in> set (phaseKinds M (phase u)) \<Longrightarrow> send k \<Longrightarrow> task u k = Written \<Longrightarrow>
    upload_step M send data u
      (u\<lparr>task := (task u)(k := Closed), closed := (closed u)(k := True)\<rparr>)"
| close_fails: "k \<in> set (phaseKinds M (phase u)) \<Longrightarrow> send k \<Longrightarrow> task u k = Written \<Longrightarrow>
    upload_step M send data u
      (u\<lparr>task := (task u)(k := Failed), errCh := errCh u @ [Wrapf (''close '' @ kindString M k) e]\<rparr>)"
| cores_done: "phase u = CorePhase \<Longrightarrow> phaseDone M send u \<Longrightarrow>
    upload_step M send data u
      (u\<lparr>phase := (if errCh u = [] then ParityPhase else UploadReturned (firstErr (errCh u)))\<rparr>)"
| parities_done: "phase u = ParityPhase \<Longrightarrow> phaseDone M send u \<Longrightarrow>
    upload_step M send data u (u\<lparr>phase := UploadReturned (firstErr (errCh u))\<rparr>)"

inductive_cases upload_stepE: "upload_step M send data u u'"

text \<open>An upload does not look at the data of a kind it does not send.\<close>

lemma upload_step_cong:
  assumes "upload_step M send data u u'" "\<forall>k. send k \<longrightarrow> data k = data' k"
  shows "upload_step M send data' u u'"
  using assms(1)
proof (cases rule: upload_step.cases)
  case (put k n m)
  with assms(2) have "data k = data' k" by blast
  with put show ?thesis by (simp add: upload_step.put)
next
  case (put_all k)
  with assms(2) have "data k = data' k" by blast
  with put_all show ?thesis by (simp add: upload_step.put_all)
qed (hypsubst, (rule upload_step.intros; assumption))+

lemma upload_cong:
  assumes "\<forall>k. send k \<longrightarrow> data k = data' k"
  shows "rtranclp (upload_step M send data) u u' \<Longrightarrow> rtranclp (upload_step M send data') u u'"
  by (erule rtranclp_mono [THEN predicate2D, rotated]) (use upload_step_cong assms in blast)

section \<open>Invariants of the upload\<close>

definition streams_invar :: "(particle_kind \<Rightarrow> bytes) \<Rightarrow> upload \<Rightarrow> bool" where
  "streams_invar data u \<longleftrightarrow>
     (\<forall>k. case task u k of
        Writing n \<Rightarrow> stream u k = take n (data k)
      | Failed \<Rightarrow> \<exists>n. stream u k = take n (data k)
      | _ \<Rightarrow> stream u k = data k)"

definition closed_invar :: "(particle_kind \<Rightarrow> bool) \<Rightarrow> upload \<Rightarrow> bool" where
  "closed_invar send u \<longleftrightarrow>
     (\<forall>k. task u k = Closed \<longrightarrow> closed u k) \<and> (\<forall>k. closed u k \<and> send k \<longrightarrow> task u k = Closed) \<and>
     (\<forall>k. \<not> send k \<longrightarrow> task u k = Writing 0) \<and> ((\<exists>k. task u k = Failed) \<longrightarrow> errCh u \<noteq> [])"

definition omitted_invar :: "pcs_module \<Rightarrow> (particle_kind \<Rightarrow> bool) \<Rightarrow> upload \<Rightarrow> bool" where
  "omitted_invar M send u \<longleftrightarrow>
     (\<forall>k \<in> set (CoreParticleKinds M @ parityParticleKinds). \<not> send k \<longrightarrow>
        (case phase u of
           ClosingOmitted ks \<Rightarrow> closed u k \<or> k \<in> set ks
         | UploadReturned (Some e) \<Rightarrow> True
         | _ \<Rightarrow> closed u k))"

definition order_invar :: "pcs_module \<Rightarrow> (particle_kind \<Rightarrow> bool) \<Rightarrow> upload \<Rightarrow> bool" where
  "order_invar M send u \<longleftrightarrow>
     ((\<exists>k \<in> set parityParticleKinds. task u k \<noteq> Writing 0) \<or> phase u = ParityPhase \<or>
        phase u = UploadReturned None \<longrightarrow>
      (\<forall>k \<in> set (CoreParticleKinds M). send k \<longrightarrow> task u k = Closed)) \<and>
     (phase u = UploadReturned None \<longrightarrow> (\<forall>k \<in> set parityParticleKinds. send k \<longrightarrow> task u k = Closed))"

text \<open>An error comes from a goroutine that failed, or from a stream that could not be closed.\<close>

definition error_invar :: "pcs_module \<Rightarrow> (particle_kind \<Rightarrow> bool) \<Rightarrow> upload \<Rightarrow> bool" where
  "error_invar M send u \<longleftrightarrow>
     (errCh u \<noteq> [] \<longrightarrow>
        (\<exists>k \<in> set (CoreParticleKinds M @ parityParticleKinds). send k \<and> task u k = Failed)) \<and>
     (case phase u of
        ClosingOmitted ks \<Rightarrow> distinct ks \<and> (\<forall>k \<in> set ks. \<not> closed u k) \<and>
          set ks \<subseteq> set (CoreParticleKinds M @ parityParticleKinds) \<and> (\<forall>k. task u k = Writing 0)
      | UploadReturned (Some e) \<Rightarrow>
          (\<exists>k \<in> set (CoreParticleKinds M @ parityParticleKinds). \<not> closed u k) \<and>
          ((\<forall>k \<in> set (CoreParticleKinds M @ parityParticleKinds). \<not> send k \<longrightarrow> closed u k) \<or>
           (\<forall>k. task u k = Writing 0))
      | _ \<Rightarrow> True)"

lemma take_whole: "\<exists>n. xs = take n xs"
  by (rule exI [of _ "length xs"]) simp

lemma streams_step: "streams_invar data u \<Longrightarrow> upload_step M send data u u' \<Longrightarrow> streams_invar data u'"
  by (erule upload_stepE) (auto simp: streams_invar_def take_whole split: task.splits)

lemma closed_step: "closed_invar send u \<Longrightarrow> upload_step M send data u u' \<Longrightarrow> closed_invar send u'"
  by (erule upload_stepE) (auto simp: closed_invar_def)

lemma omitted_step: "omitted_invar M send u \<Longrightarrow> upload_step M send data u u' \<Longrightarrow> omitted_invar M send u'"
  by (erule upload_stepE)
     (auto simp: omitted_invar_def firstErr_def split: upload_phase.splits option.splits list.splits)

lemma phaseKinds_sub: "k \<in> set (phaseKinds M p) \<Longrightarrow> k \<in> set (CoreParticleKinds M @ parityParticleKinds)"
  by (auto simp: phaseKinds_def split: upload_phase.splits)

lemma failed_not_closed:
  assumes "closed_invar send u" "error_invar M send u" "errCh u \<noteq> []"
  shows "\<exists>k \<in> set (CoreParticleKinds M @ parityParticleKinds). \<not> closed u k"
  using assms by (fastforce simp: closed_invar_def error_invar_def)

text \<open>A step of a goroutine leaves the others' failures, and a failure of its own is in the channel.\<close>

lemma error_task:
  assumes "error_invar M send u" "k \<in> set (phaseKinds M (phase u))" "send k" "task u k \<noteq> Failed"
    and "task u' = (task u)(k := t)" "phase u' = phase u" "errCh u' = errCh u \<or> t = Failed"
  shows "error_invar M send u'"
proof -
  have run: "phase u = CorePhase \<or> phase u = ParityPhase"
    using assms(2) by (cases "phase u") (auto simp: phaseKinds_def)
  have "\<exists>k \<in> set (CoreParticleKinds M @ parityParticleKinds). send k \<and> task u' k = Failed"
    if err: "errCh u' \<noteq> []"
  proof (cases "t = Failed")
    case True
    then show ?thesis using phaseKinds_sub [OF assms(2)] assms(3,5) by (intro bexI [of _ k]) auto
  next
    case False
    then obtain j where "j \<in> set (CoreParticleKinds M @ parityParticleKinds)" "send j" "task u j = Failed"
      using assms(1,7) err unfolding error_invar_def by auto
    then show ?thesis using assms(4,5) by (intro bexI [of _ j]) auto
  qed
  with run assms(6) show ?thesis by (auto simp: error_invar_def)
qed

lemma error_step:
  assumes "closed_invar send u" "error_invar M send u" "omitted_invar M send u" "upload_step M send data u u'"
  shows "error_invar M send u'"
  using assms(4)
proof (cases rule: upload_step.cases)
  case put
  then show ?thesis by (intro error_task [OF assms(2) put(2,3)]) simp_all
next
  case put_fails
  then show ?thesis by (intro error_task [OF assms(2) put_fails(2,3)]) simp_all
next
  case put_all
  then show ?thesis by (intro error_task [OF assms(2) put_all(2,3)]) simp_all
next
  case close_stream
  then show ?thesis by (intro error_task [OF assms(2) close_stream(2,3)]) simp_all
next
  case close_fails
  then show ?thesis by (intro error_task [OF assms(2) close_fails(2,3)]) simp_all
next
  case cores_done
  with assms(2,3) failed_not_closed [OF assms(1,2)] show ?thesis
    by (auto simp: error_invar_def omitted_invar_def firstErr_def split: list.split)
next
  case parities_done
  with assms(2,3) failed_not_closed [OF assms(1,2)] show ?thesis
    by (auto simp: error_invar_def omitted_invar_def firstErr_def split: list.split)
next
  case (omit k ks)
  with assms(2) show ?thesis by (auto simp: error_invar_def)
next
  case (omit_fails k ks e)
  with assms(2) show ?thesis by (auto simp: error_invar_def)
next
  case (keep k ks)
  with assms(2) show ?thesis by (auto simp: error_invar_def)
next
  case omitted
  with assms(2) show ?thesis by (auto simp: error_invar_def)
qed

text \<open>A step of a goroutine changes the task of one stream of the current phase.\<close>

lemma order_task:
  assumes "pcs_contract M" "order_invar M send u" "k \<in> set (phaseKinds M (phase u))" "send k"
    and "task u k \<noteq> Closed" "task u' = (task u)(k := t)" "phase u' = phase u"
  shows "order_invar M send u'"
proof -
  have running: "phase u = CorePhase \<and> k \<in> set (CoreParticleKinds M) \<or>
      phase u = ParityPhase \<and> k \<in> set parityParticleKinds"
    using assms(3) by (cases "phase u") (auto simp: phaseKinds_def)
  have disj: "k \<in> set (CoreParticleKinds M) \<Longrightarrow> k \<notin> set parityParticleKinds"
    using pcs_contract_core [OF assms(1)] by (auto simp: core_kinds_def parityParticleKinds_def)
  from running show ?thesis
  proof
    assume core: "phase u = CorePhase \<and> k \<in> set (CoreParticleKinds M)"
    then have "\<forall>p \<in> set parityParticleKinds. task u p = Writing 0"
      using assms(2,4,5) by (auto simp: order_invar_def)
    with core disj assms(6,7) show ?thesis by (auto simp: order_invar_def)
  next
    assume parity: "phase u = ParityPhase \<and> k \<in> set parityParticleKinds"
    then have "\<forall>c \<in> set (CoreParticleKinds M). send c \<longrightarrow> task u c = Closed"
      using assms(2) by (simp add: order_invar_def)
    with parity disj assms(6,7) show ?thesis by (auto simp: order_invar_def)
  qed
qed

lemma phaseDone_closed:
  "phaseDone M send u \<Longrightarrow> closed_invar send u \<Longrightarrow> errCh u = [] \<Longrightarrow>
   \<forall>k \<in> set (phaseKinds M (phase u)). send k \<longrightarrow> task u k = Closed"
  by (auto simp: phaseDone_def closed_invar_def)

lemma firstErr_None: "firstErr es = None \<longleftrightarrow> es = []"
  by (auto simp: firstErr_def split: list.split)

lemma order_step:
  assumes "pcs_contract M" "closed_invar send u" "order_invar M send u" "upload_step M send data u u'"
  shows "order_invar M send u'"
  using assms(4)
proof (cases rule: upload_step.cases)
  case (cores_done)
  then have "errCh u = [] \<longrightarrow> (\<forall>k \<in> set (CoreParticleKinds M). send k \<longrightarrow> task u k = Closed)"
    using phaseDone_closed [OF _ assms(2)] by (auto simp: phaseKinds_def)
  with cores_done assms(3) show ?thesis by (auto simp: order_invar_def firstErr_def split: list.splits)
next
  case (parities_done)
  then have "errCh u = [] \<longrightarrow> (\<forall>k \<in> set parityParticleKinds. send k \<longrightarrow> task u k = Closed)"
    using phaseDone_closed [OF _ assms(2)] by (auto simp: phaseKinds_def)
  with parities_done assms(3) show ?thesis by (auto simp: order_invar_def firstErr_None)
next
  case put
  then show ?thesis by (intro order_task [OF assms(1,3) put(2,3)]) simp_all
next
  case put_fails
  then show ?thesis by (intro order_task [OF assms(1,3) put_fails(2,3)]) simp_all
next
  case put_all
  then show ?thesis by (intro order_task [OF assms(1,3) put_all(2,3)]) simp_all
next
  case close_stream
  then show ?thesis by (intro order_task [OF assms(1,3) close_stream(2,3)]) simp_all
next
  case close_fails
  then show ?thesis by (intro order_task [OF assms(1,3) close_fails(2,3)]) simp_all
next
  case keep
  with assms(3) show ?thesis by (simp add: order_invar_def)
next
  case omit
  with assms(3) show ?thesis by (simp add: order_invar_def)
next
  case omit_fails
  with assms(3) show ?thesis by (simp add: order_invar_def)
next
  case omitted
  with assms(3) show ?thesis by (simp add: order_invar_def)
qed

definition upload_invar :: "pcs_module \<Rightarrow> (particle_kind \<Rightarrow> bool) \<Rightarrow> (particle_kind \<Rightarrow> bytes) \<Rightarrow> upload \<Rightarrow> bool" where
  "upload_invar M send data u \<longleftrightarrow> pcs_contract M \<longrightarrow>
     streams_invar data u \<and> closed_invar send u \<and> omitted_invar M send u \<and> order_invar M send u \<and>
     error_invar M send u"

lemma pcs_contract_distinct: "pcs_contract M \<Longrightarrow> distinct (CoreParticleKinds M @ parityParticleKinds)"
  by (auto simp: pcs_contract_def core_kinds_def parityParticleKinds_def)

interpretation upload: invariant_system "upload_step M send data" "\<lambda>u. u = newUpload M" "upload_invar M send data"
  for M send data
proof
  show "u = newUpload M \<Longrightarrow> upload_invar M send data u" for u
    using pcs_contract_distinct [of M]
    by (auto simp: upload_invar_def newUpload_def streams_invar_def closed_invar_def omitted_invar_def
        order_invar_def error_invar_def)
  show "upload_invar M send data u \<Longrightarrow> upload_step M send data u u' \<Longrightarrow> upload_invar M send data u'" for u u'
    unfolding upload_invar_def by (auto intro: streams_step closed_step omitted_step order_step error_step)
qed

section \<open>What an upload achieves\<close>

lemma upload_run:
  assumes "pcs_contract M" "rtranclp (upload_step M send data) (newUpload M) u"
  shows "streams_invar data u" "closed_invar send u" "omitted_invar M send u" "order_invar M send u"
    "error_invar M send u"
  using upload.reachable_invar [OF refl assms(2)] assms(1) by (simp_all add: upload_invar_def)

lemma all_kinds_upload:
  "pcs_contract M \<Longrightarrow> k \<in> all_kinds \<longleftrightarrow> k \<in> set (CoreParticleKinds M @ parityParticleKinds)"
  by (auto simp: pcs_contract_core all_kinds_def core_kinds_def parityParticleKinds_def)

lemma closed_stream_complete: "streams_invar data u \<Longrightarrow> task u k = Closed \<Longrightarrow> stream u k = data k"
  by (auto simp: streams_invar_def split: task.splits)

lemma idle_stream_empty: "streams_invar data u \<Longrightarrow> task u k = Writing 0 \<Longrightarrow> stream u k = []"
proof -
  assume u: "streams_invar data u" and k: "task u k = Writing 0"
  from u have "case task u k of Writing n \<Rightarrow> stream u k = take n (data k)
      | Failed \<Rightarrow> \<exists>n. stream u k = take n (data k) | _ \<Rightarrow> stream u k = data k"
    unfolding streams_invar_def by blast
  with k show ?thesis by simp
qed

lemma upload_streams:
  assumes "pcs_contract M" "rtranclp (upload_step M send data) (newUpload M) u"
    and "phase u = UploadReturned None" "k \<in> all_kinds"
  shows "closed u k \<and> stream u k = (if send k then data k else [])"
proof -
  note inv = upload_run [OF assms(1,2)]
  have k: "k \<in> set (CoreParticleKinds M @ parityParticleKinds)"
    using assms(4) all_kinds_upload [OF assms(1)] by blast
  show ?thesis
  proof (cases "send k")
    case True
    then have "task u k = Closed"
      using inv(4) assms(3) k by (auto simp: order_invar_def)
    with True inv(2) closed_stream_complete [OF inv(1)] show ?thesis
      by (simp add: closed_invar_def)
  next
    case False
    then have "task u k = Writing 0" using inv(2) by (simp add: closed_invar_def)
    moreover have "closed u k"
      using inv(3) k False assms(3) by (auto simp: omitted_invar_def)
    ultimately show ?thesis using False idle_stream_empty [OF inv(1)] by simp
  qed
qed

text \<open>
  An upload that returns without error has written every stream of the plan completely,
  nothing on the others, and has closed all six.
\<close>

theorem upload_complete:
  assumes "pcs_contract M" "rtranclp (upload_step M send data) (newUpload M) u"
    and "phase u = UploadReturned None" "k \<in> all_kinds"
  shows "closed u k \<and> stream u k = (if send k then data k else [])"
  using assms by (rule upload_streams)

text \<open>
  C18: the order of the phases.  When the first byte of a parity stream is written, every
  core stream of the plan has been written completely and closed.
\<close>

theorem parity_after_cores:
  assumes "pcs_contract M" "rtranclp (upload_step M send data) (newUpload M) u"
    and "p = CypherParity \<or> p = NoiseParity" "stream u p \<noteq> []" "c \<in> core_kinds" "send c"
  shows "closed u c \<and> stream u c = data c"
proof -
  note inv = upload_run [OF assms(1,2)]
  have "task u p \<noteq> Writing 0" using idle_stream_empty [OF inv(1)] assms(4) by blast
  then have "task u c = Closed"
    using inv(4) assms(3,5,6) pcs_contract_core [OF assms(1)]
    by (auto simp: order_invar_def parityParticleKinds_def)
  with inv(2) closed_stream_complete [OF inv(1)] show ?thesis by (simp add: closed_invar_def)
qed

text \<open>What a returned upload leaves, whatever failed.\<close>

lemma closed_whole:
  assumes "streams_invar data u" "closed_invar send u" "closed u k"
  shows "stream u k = (if send k then data k else [])"
proof (cases "send k")
  case True
  then have "task u k = Closed" using assms(2,3) by (simp add: closed_invar_def)
  with True closed_stream_complete [OF assms(1)] show ?thesis by simp
next
  case False
  then have "task u k = Writing 0" using assms(2) by (simp add: closed_invar_def)
  with False idle_stream_empty [OF assms(1)] show ?thesis by simp
qed

lemma core_open_no_parity:
  assumes "pcs_contract M" "rtranclp (upload_step M send data) (newUpload M) u"
    and "phase u = UploadReturned (Some e)" "c \<in> core_kinds" "\<not> closed u c"
    and p: "p = CypherParity \<or> p = NoiseParity"
  shows "stream u p = []"
proof -
  note inv = upload_run [OF assms(1,2)]
  have cores: "set (CoreParticleKinds M) = core_kinds" using pcs_contract_core [OF assms(1)] .
  have "task u p = Writing 0"
  proof (cases "send c")
    case True
    then have "task u c \<noteq> Closed" using inv(2) assms(5) by (auto simp: closed_invar_def)
    with True p show ?thesis
      using inv(4) assms(4) by (auto simp: order_invar_def parityParticleKinds_def cores)
  next
    case False
    then have "\<forall>k. task u k = Writing 0"
      using inv(5) assms(3-5) by (auto simp: error_invar_def cores)
    then show ?thesis ..
  qed
  then show ?thesis using idle_stream_empty [OF inv(1)] by blast
qed

lemma returned_upload:
  assumes "pcs_contract M" "rtranclp (upload_step M send data) (newUpload M) u"
    and "phase u = UploadReturned r"
  shows "r = None \<longleftrightarrow> (\<forall>k \<in> all_kinds. closed u k)"
    and "closed u k \<Longrightarrow> stream u k = (if send k then data k else [])"
    and "c \<in> core_kinds \<Longrightarrow> \<not> closed u c \<Longrightarrow> p = CypherParity \<or> p = NoiseParity \<Longrightarrow> stream u p = []"
proof -
  note inv = upload_run [OF assms(1,2)]
  show iff: "r = None \<longleftrightarrow> (\<forall>k \<in> all_kinds. closed u k)"
  proof (cases r)
    case None
    with upload_streams [OF assms(1,2)] assms(3) show ?thesis by simp
  next
    case (Some e)
    with inv(5) assms(3) all_kinds_upload [OF assms(1)] show ?thesis by (auto simp: error_invar_def)
  qed
  show "closed u k \<Longrightarrow> stream u k = (if send k then data k else [])"
    by (rule closed_whole [OF inv(1,2)])
  assume c: "c \<in> core_kinds" "\<not> closed u c" and p: "p = CypherParity \<or> p = NoiseParity"
  then have "c \<in> all_kinds" by (auto simp: core_kinds_def all_kinds_def)
  with c(2) iff obtain e where "r = Some e" by (cases r) auto
  then show "stream u p = []"
    using core_open_no_parity [OF assms(1,2) _ c p] assms(3) by simp
qed

text \<open>
  C16: what an upload that returned, with or without error, has done.  It reports success
  exactly if it has closed all six streams.  A stream it has closed is whole: the data of its
  kind, or nothing if the plan leaves it out.  (The deferred \<open>Session.Close\<close> ends the others
  afterwards, where they are.)  And if a core stream is not closed, nothing of a parity stream
  has been sent.
\<close>

theorem upload_outcome:
  assumes "pcs_contract M" "rtranclp (upload_step M send data) (newUpload M) u"
    and "phase u = UploadReturned r"
  shows "(r = None \<longleftrightarrow> (\<forall>k \<in> all_kinds. closed u k)) \<and>
    (\<forall>k. closed u k \<longrightarrow> stream u k = (if send k then data k else [])) \<and>
    ((\<exists>c \<in> core_kinds. \<not> closed u c) \<longrightarrow> stream u CypherParity = [] \<and> stream u NoiseParity = [])"
  using returned_upload [OF assms] by blast

section \<open>The steps of an upload get fewer\<close>

text \<open>The steps left: of the phases, then of the goroutines.\<close>

fun phaseLeft :: "upload_phase \<Rightarrow> nat" where
  "phaseLeft (ClosingOmitted ks) = 3 + length ks"
| "phaseLeft CorePhase = 2"
| "phaseLeft ParityPhase = 1"
| "phaseLeft (UploadReturned e) = 0"

fun taskLeft :: "bytes \<Rightarrow> task \<Rightarrow> nat" where
  "taskLeft d (Writing n) = 2 + (length d - n)"
| "taskLeft d Written = 1"
| "taskLeft d Closed = 0"
| "taskLeft d Failed = 0"

definition tasksLeft :: "pcs_module \<Rightarrow> (particle_kind \<Rightarrow> bytes) \<Rightarrow> upload \<Rightarrow> nat" where
  "tasksLeft M data u =
     (\<Sum>k \<in> set (CoreParticleKinds M @ parityParticleKinds). taskLeft (data k) (task u k))"

lemma tasksLeft_less:
  assumes "k \<in> set (phaseKinds M p)" "taskLeft (data k) t < taskLeft (data k) (task u k)"
    and "task u' = (task u)(k := t)"
  shows "tasksLeft M data u' < tasksLeft M data u"
proof -
  have k: "k \<in> set (CoreParticleKinds M @ parityParticleKinds)"
    using assms(1) by (auto simp: phaseKinds_def split: upload_phase.splits)
  show ?thesis
    unfolding tasksLeft_def
    by (rule sum_strict_mono_ex1) (use k assms(2) in \<open>auto simp: assms(3)\<close>)
qed

lemma upload_step_decreases:
  assumes "upload_step M send data u u'"
  shows "phaseLeft (phase u') < phaseLeft (phase u) \<or>
    phaseLeft (phase u') = phaseLeft (phase u) \<and> tasksLeft M data u' < tasksLeft M data u"
  using assms
proof (cases rule: upload_step.cases)
  case put
  then show ?thesis using tasksLeft_less [OF put(2), where u' = u'] by simp
next
  case put_fails
  then show ?thesis using tasksLeft_less [OF put_fails(2), where u' = u'] by simp
next
  case put_all
  then show ?thesis using tasksLeft_less [OF put_all(2), where u' = u'] by simp
next
  case close_stream
  then show ?thesis using tasksLeft_less [OF close_stream(2), where u' = u'] by simp
next
  case close_fails
  then show ?thesis using tasksLeft_less [OF close_fails(2), where u' = u'] by simp
qed auto

section \<open>A concrete upload\<close>

text \<open>A plan with the even cypher and the cypher parity stream, of one byte each.\<close>

definition two_streams :: "particle_kind \<Rightarrow> bool" where
  "two_streams k \<longleftrightarrow> k = EvenCypher \<or> k = CypherParity"

definition one_byte :: "particle_kind \<Rightarrow> bytes" where
  "one_byte k = (if k = EvenCypher then ''d'' else ''p'')"

lemma two_streams_simps [simp]:
  "two_streams EvenCypher" "\<not> two_streams OddCypher" "\<not> two_streams EvenNoise" "\<not> two_streams OddNoise"
  "two_streams CypherParity" "\<not> two_streams NoiseParity"
  by (simp_all add: two_streams_def)

abbreviation two_step :: "upload \<Rightarrow> upload \<Rightarrow> bool" where
  "two_step \<equiv> upload_step sample_module two_streams one_byte"

text \<open>After the omitted streams are closed, and after the core phase.\<close>

definition afterOmit :: upload where
  "afterOmit = (newUpload sample_module)\<lparr>phase := CorePhase,
     closed := (\<lambda>k. False)(OddCypher := True, EvenNoise := True, OddNoise := True, NoiseParity := True)\<rparr>"

definition afterCores :: upload where
  "afterCores = afterOmit\<lparr>phase := ParityPhase, task := (\<lambda>k. Writing 0)(EvenCypher := Closed),
     stream := (\<lambda>k. [])(EvenCypher := ''d''), closed := (closed afterOmit)(EvenCypher := True)\<rparr>"

lemma run_omit: "rtranclp two_step (newUpload sample_module) afterOmit"
proof -
  have M: "CoreParticleKinds sample_module @ parityParticleKinds =
      [EvenCypher, OddCypher, EvenNoise, OddNoise, CypherParity, NoiseParity]"
    by (simp add: sample_module_def parityParticleKinds_def)
  let ?u = "\<lambda>ks c. (newUpload sample_module)\<lparr>phase := ClosingOmitted ks, closed := c\<rparr>"
  let ?c1 = "(\<lambda>k. False)(OddCypher := True)"
  let ?c2 = "?c1(EvenNoise := True)"
  let ?c3 = "?c2(OddNoise := True)"
  let ?c4 = "?c3(NoiseParity := True)"
  have "newUpload sample_module =
      ?u [EvenCypher, OddCypher, EvenNoise, OddNoise, CypherParity, NoiseParity] (\<lambda>k. False)"
    by (simp add: newUpload_def M)
  then have "rtranclp two_step (newUpload sample_module)
      (?u [EvenCypher, OddCypher, EvenNoise, OddNoise, CypherParity, NoiseParity] (\<lambda>k. False))"
    by simp
  then have "rtranclp two_step (newUpload sample_module)
      (?u [OddCypher, EvenNoise, OddNoise, CypherParity, NoiseParity] (\<lambda>k. False))"
    by (rule step_to) (rule upload_step.keep, simp+)
  then have "rtranclp two_step (newUpload sample_module)
      (?u [EvenNoise, OddNoise, CypherParity, NoiseParity] ?c1)"
    by (rule step_to) (rule upload_step.omit, simp+)
  then have "rtranclp two_step (newUpload sample_module) (?u [OddNoise, CypherParity, NoiseParity] ?c2)"
    by (rule step_to) (rule upload_step.omit, simp+)
  then have "rtranclp two_step (newUpload sample_module) (?u [CypherParity, NoiseParity] ?c3)"
    by (rule step_to) (rule upload_step.omit, simp+)
  then have "rtranclp two_step (newUpload sample_module) (?u [NoiseParity] ?c3)"
    by (rule step_to) (rule upload_step.keep, simp+)
  then have "rtranclp two_step (newUpload sample_module) (?u [] ?c4)"
    by (rule step_to) (rule upload_step.omit, simp+)
  then show ?thesis
    by (rule step_to) (rule upload_step.omitted, simp, simp add: afterOmit_def)
qed

text \<open>One stream of the current phase, from its first byte to its close.\<close>

lemma run_stream:
  assumes "rtranclp (upload_step M send data) u0 u" "k \<in> set (phaseKinds M (phase u))" "send k"
    and "task u k = Writing 0" "data k \<noteq> []"
  shows "rtranclp (upload_step M send data) u0
      (u\<lparr>task := (task u)(k := Writing (length (data k))), stream := (stream u)(k := data k)\<rparr>)"
    and "rtranclp (upload_step M send data) u0
      (u\<lparr>task := (task u)(k := Closed), stream := (stream u)(k := data k), closed := (closed u)(k := True)\<rparr>)"
proof -
  let ?u1 = "u\<lparr>task := (task u)(k := Writing (length (data k))), stream := (stream u)(k := data k)\<rparr>"
  show 1: "rtranclp (upload_step M send data) u0 ?u1"
    using assms(1)
    by (rule step_to) (rule upload_step.put [where m = "length (data k)" and k = k and n = 0],
      use assms(2-5) in simp_all)
  have "rtranclp (upload_step M send data) u0 (?u1\<lparr>task := (task ?u1)(k := Written)\<rparr>)"
    using 1 by (rule step_to) (rule upload_step.put_all [of k], use assms(2,3) in simp_all)
  then show "rtranclp (upload_step M send data) u0
      (u\<lparr>task := (task u)(k := Closed), stream := (stream u)(k := data k), closed := (closed u)(k := True)\<rparr>)"
    by (rule step_to) (rule upload_step.close_stream [of k], use assms(2,3) in simp_all)
qed

lemma run_cores: "rtranclp two_step (newUpload sample_module) afterCores"
proof -
  have "rtranclp two_step (newUpload sample_module)
      (afterOmit\<lparr>task := (task afterOmit)(EvenCypher := Closed),
        stream := (stream afterOmit)(EvenCypher := one_byte EvenCypher),
        closed := (closed afterOmit)(EvenCypher := True)\<rparr>)"
    by (rule run_stream(2) [OF run_omit]) (simp_all add: afterOmit_def newUpload_def phaseKinds_def sample_module_def one_byte_def)
  then show ?thesis
    by (rule step_to) (rule upload_step.cores_done,
       auto simp: afterOmit_def afterCores_def newUpload_def phaseDone_def phaseKinds_def sample_module_def
         one_byte_def)
qed

lemma run_parity:
  "\<exists>u. rtranclp two_step (newUpload sample_module) u \<and> stream u CypherParity = ''p''"
  "\<exists>u. rtranclp two_step (newUpload sample_module) u \<and> phase u = UploadReturned None"
proof -
  have k: "CypherParity \<in> set (phaseKinds sample_module (phase afterCores))"
      "task afterCores CypherParity = Writing 0"
    by (simp_all add: afterCores_def phaseKinds_def parityParticleKinds_def)
  have "one_byte CypherParity \<noteq> []" by (simp add: one_byte_def)
  note run = run_stream [OF run_cores k(1) two_streams_simps(5) k(2) this]
  show "\<exists>u. rtranclp two_step (newUpload sample_module) u \<and> stream u CypherParity = ''p''"
    using run(1) by (intro exI conjI) (assumption, simp add: one_byte_def)
  show "\<exists>u. rtranclp two_step (newUpload sample_module) u \<and> phase u = UploadReturned None"
    by (intro exI conjI, rule step_to [OF run(2)], rule upload_step.parities_done)
       (auto simp: afterCores_def phaseDone_def phaseKinds_def parityParticleKinds_def firstErr_def
         afterOmit_def newUpload_def)
qed

theorem upload_complete_witness:
  "\<exists>u :: upload. phase u = UploadReturned None \<and> closed u EvenCypher \<and> stream u EvenCypher = ''d'' \<and>
     closed u OddNoise \<and> stream u OddNoise = []"
proof -
  obtain u where u: "rtranclp two_step (newUpload sample_module) u" "phase u = UploadReturned None"
    using run_parity(2) by blast
  from upload_complete [OF sample_module_contract u, of EvenCypher]
    upload_complete [OF sample_module_contract u, of OddNoise] u(2)
  show ?thesis by - (rule exI [of _ u], simp add: all_kinds_def one_byte_def)
qed

theorem parity_after_cores_witness:
  "\<exists>u :: upload. stream u CypherParity = ''p'' \<and> closed u EvenCypher \<and> stream u EvenCypher = ''d''"
proof -
  obtain u where u: "rtranclp two_step (newUpload sample_module) u" "stream u CypherParity = ''p''"
    using run_parity(1) by blast
  from parity_after_cores [OF sample_module_contract u(1), of CypherParity EvenCypher] u(2)
  show ?thesis by - (rule exI [of _ u], simp add: core_kinds_def one_byte_def)
qed

text \<open>The even cypher stream breaks before its first byte: the upload fails without a byte of parity.\<close>

theorem upload_outcome_witness:
  "\<exists>u :: upload. phase u = UploadReturned (Some UnexpectedEOF) \<and> \<not> closed u EvenCypher \<and>
     closed u OddNoise \<and> stream u OddNoise = [] \<and> stream u CypherParity = []"
proof -
  let ?u1 = "afterOmit\<lparr>task := (task afterOmit)(EvenCypher := Failed), errCh := errCh afterOmit @ [UnexpectedEOF]\<rparr>"
  let ?u2 = "?u1\<lparr>phase := UploadReturned (Some UnexpectedEOF)\<rparr>"
  have "rtranclp two_step (newUpload sample_module) ?u1"
    by (rule step_to [OF run_omit], rule upload_step.put_fails [of EvenCypher])
       (auto simp: afterOmit_def newUpload_def phaseKinds_def sample_module_def)
  then have run: "rtranclp two_step (newUpload sample_module) ?u2"
    by (rule step_to) (rule upload_step.cores_done,
       auto simp: afterOmit_def newUpload_def phaseDone_def phaseKinds_def sample_module_def firstErr_def)
  have "\<not> closed ?u2 EvenCypher" "closed ?u2 OddNoise" by (simp_all add: afterOmit_def)
  moreover have "EvenCypher \<in> core_kinds" by (simp add: core_kinds_def)
  ultimately have "stream ?u2 OddNoise = []" "stream ?u2 CypherParity = []"
    using upload_outcome [OF sample_module_contract run, of "Some UnexpectedEOF"] by auto
  then show ?thesis by (intro exI [of _ ?u2]) (simp add: afterOmit_def)
qed

end
