(* ===== verification/Copy.thy ===== *)
theory Copy
  imports Reader Writer
begin

text \<open>
  \<open>io.CopyBuffer\<close> and \<open>io.ReadAll\<close>, the loops of the client that move documents and particles
  (\<open>internal/client/client.go\<close>: \<open>CopyBuffer\<close>).  The loops are written as they are, without a
  bound: \<open>None\<close> is a loop that does not end.  The fast paths \<open>io.CopyBuffer\<close> takes for some
  pairs of a reader and a writer move the same bytes.
\<close>

definition copyBufferSize :: nat where "copyBufferSize = 32 * 2 ^ 10"

definition errShortWrite :: go_error where "errShortWrite = Errorf ''short write''"
definition errInvalidWrite :: go_error where "errInvalidWrite = Errorf ''invalid write result''"

text \<open>What the loop makes of one write: the count and the error that ends it.\<close>

definition copyWrite :: "'w writefn \<Rightarrow> 'w \<Rightarrow> bytes \<Rightarrow> 'w \<times> nat \<times> go_error option" where
  "copyWrite wr w bs =
     (case wr w bs of (w', nw, ew) \<Rightarrow>
        if length bs < nw then (w', 0, Some (case ew of None \<Rightarrow> errInvalidWrite | Some e \<Rightarrow> e))
        else case ew of
          Some e \<Rightarrow> (w', nw, Some e)
        | None \<Rightarrow> if nw \<noteq> length bs then (w', nw, Some errShortWrite) else (w', nw, None))"

partial_function (option) copyLoop :: "'r readfn \<Rightarrow> 'w writefn \<Rightarrow> nat \<Rightarrow> nat \<Rightarrow> 'r \<Rightarrow> 'w
    \<Rightarrow> ('r \<times> 'w \<times> nat \<times> go_error option) option" where
  "copyLoop rd wr k n r w =
     (case rd r k of (r', bs, er) \<Rightarrow>
        (case (if bs = [] then (w, 0, None) else copyWrite wr w bs) of (w', nw, ew) \<Rightarrow>
           if ew \<noteq> None then Some (r', w', n + nw, ew)
           else if er \<noteq> None then Some (r', w', n + nw, if er = Some EOF then None else er)
           else copyLoop rd wr k (n + nw) r' w'))"

definition copyBuffer :: "'r readfn \<Rightarrow> 'w writefn \<Rightarrow> 'r \<Rightarrow> 'w
    \<Rightarrow> ('r \<times> 'w \<times> nat \<times> go_error option) option" where
  "copyBuffer rd wr r w = copyLoop rd wr copyBufferSize 0 r w"

text \<open>
  \<open>io.ReadAll\<close>; \<open>room n\<close> is the free capacity of its buffer when it holds \<open>n\<close> bytes, which the
  runtime chooses and which is never 0.
\<close>

partial_function (option) readAll :: "'r readfn \<Rightarrow> (nat \<Rightarrow> nat) \<Rightarrow> bytes \<Rightarrow> 'r
    \<Rightarrow> ('r \<times> bytes \<times> go_error option) option" where
  "readAll rd room acc r =
     (case rd r (room (length acc)) of (r', bs, e) \<Rightarrow>
        if e \<noteq> None then Some (r', acc @ bs, if e = Some EOF then None else e)
        else readAll rd room (acc @ bs) r')"

section \<open>What the loops do\<close>

text \<open>How a stream that ends with \<open>e\<close> is reported by a loop that reads to its end.\<close>

definition endError :: "go_error \<Rightarrow> go_error option" where
  "endError e = (if e = EOF then None else Some e)"

context io_reader
begin

lemma readAll_spec:
  assumes room: "\<And>n. 0 < room n"
  shows "ok r \<Longrightarrow> \<exists>r'. readAll rd room acc r = Some (r', acc @ content r, endError (final r)) \<and>
    content r' = []"
proof (induction "gas r" arbitrary: r acc rule: less_induct)
  case less
  obtain r' bs e where step: "rd r (room (length acc)) = (r', bs, e)" by (cases "rd r (room (length acc))")
  note laws = rd_step [OF less.prems step]
  show ?case
  proof (cases e)
    case None
    then have "gas r' < gas r" "ok r'" using laws room by auto
    from less.hyps [OF this, of "acc @ bs"] laws step None show ?thesis
      by (subst readAll.simps) simp
  next
    case (Some x)
    with laws step show ?thesis by (subst readAll.simps) (auto simp: endError_def)
  qed
qed

end

text \<open>
  A copy from a reader to a writer: it ends; what arrives is a prefix of what the reader has to
  deliver; without an error it is all of it; and with room for all of it, the error is the
  reader's own.
\<close>

locale copying = R: io_reader rd ok content final gas + W: io_writer wr written room
  for rd :: "'r readfn" and ok content final gas and wr :: "'w writefn" and written room
begin

lemma copyWrite_eq: "copyWrite wr w bs = wr w bs"
proof -
  obtain w' nw ew where "wr w bs = (w', nw, ew)" by (cases "wr w bs")
  moreover from this have "nw \<le> length bs" "ew = None \<Longrightarrow> nw = length bs"
    using W.wr_count W.wr_short by blast+
  ultimately show ?thesis by (auto simp: copyWrite_def split: option.split)
qed

lemma copy_put:
  assumes "(if bs = [] then (w, 0, None) else copyWrite wr w bs) = (w', nw, ew)"
  shows "written w' = written w @ take nw bs" "nw \<le> length bs" "ew = None \<Longrightarrow> nw = length bs"
    "length bs \<le> room w \<Longrightarrow> ew = None \<and> room w - length bs \<le> room w'"
proof -
  have "written w' = written w @ take nw bs \<and> nw \<le> length bs \<and> (ew = None \<longrightarrow> nw = length bs) \<and>
      (length bs \<le> room w \<longrightarrow> ew = None \<and> room w - length bs \<le> room w')"
  proof (cases "bs = []")
    case False
    then have wr: "wr w bs = (w', nw, ew)" using assms by (simp add: copyWrite_eq)
    show ?thesis
      using W.wr_written [OF wr] W.wr_count [OF wr] W.wr_short [of w bs w' nw] W.wr_room [of bs w] wr
      by auto
  qed (use assms in simp)
  then show "written w' = written w @ take nw bs" "nw \<le> length bs" "ew = None \<Longrightarrow> nw = length bs"
    "length bs \<le> room w \<Longrightarrow> ew = None \<and> room w - length bs \<le> room w'"
    by blast+
qed

lemma copyLoop_spec:
  assumes "0 < k"
  shows "ok r \<Longrightarrow> \<exists>r' w' m e. copyLoop rd wr k n r w = Some (r', w', n + m, e) \<and>
    written w' = written w @ take m (content r) \<and> m \<le> length (content r) \<and>
    (e = None \<longrightarrow> m = length (content r) \<and> final r = EOF) \<and>
    (length (content r) \<le> room w \<longrightarrow>
       m = length (content r) \<and> e = endError (final r) \<and> room w - m \<le> room w')"
proof (induction "gas r" arbitrary: r w n rule: less_induct)
  case less
  obtain r' bs er where step: "rd r k = (r', bs, er)" by (cases "rd r k")
  note laws = R.rd_step [OF less.prems step]
  obtain w' nw ew where put: "(if bs = [] then (w, 0, None) else copyWrite wr w bs) = (w', nw, ew)"
    by (cases "if bs = [] then (w, 0, None) else copyWrite wr w bs")
  note got = copy_put [OF put]
  have content: "content r = bs @ content r'" using laws by blast
  have unfold: "copyLoop rd wr k n r w =
      (if ew \<noteq> None then Some (r', w', n + nw, ew)
       else if er \<noteq> None then Some (r', w', n + nw, if er = Some EOF then None else er)
       else copyLoop rd wr k (n + nw) r' w')"
    using put step by (subst copyLoop.simps) simp
  have take_bs: "take m (content r) = take m bs" if "m \<le> length bs" for m
    using that content by simp
  consider (stop) "ew \<noteq> None" | (last) "ew = None" "er \<noteq> None" | (more) "ew = None" "er = None" by blast
  then show ?case
  proof cases
    case stop
    have "\<not> length (content r) \<le> room w" using stop got(4) content by auto
    with stop got(1,2) content take_bs [OF got(2)] show ?thesis
      by (intro exI [of _ r'] exI [of _ w'] exI [of _ nw] exI [of _ ew]) (auto simp: unfold)
  next
    case last
    then obtain x where x: "er = Some x" "x = final r" "content r' = []" using laws by blast
    with content have "content r = bs" by simp
    with last got x show ?thesis
      by (intro exI [of _ r'] exI [of _ w'] exI [of _ nw] exI [of _ "endError (final r)"])
        (auto simp: unfold endError_def)
  next
    case more
    then have "gas r' < gas r" "ok r'" and nw: "nw = length bs" using laws assms got(3) by auto
    from less.hyps [OF this(1,2), of "n + nw" w'] obtain r'' w'' m e where IH:
      "copyLoop rd wr k (n + nw) r' w' = Some (r'', w'', n + nw + m, e)"
      "written w'' = written w' @ take m (content r')" "m \<le> length (content r')"
      "e = None \<longrightarrow> m = length (content r') \<and> final r' = EOF"
      "length (content r') \<le> room w' \<longrightarrow>
         m = length (content r') \<and> e = endError (final r') \<and> room w' - m \<le> room w''"
      by blast
    have len: "length (content r) = nw + length (content r')" using content nw by simp
    have "take (nw + m) (content r) = bs @ take m (content r')" using content nw by simp
    then have "written w'' = written w @ take (nw + m) (content r)" using IH(2) got(1) nw by simp
    moreover have "final r' = final r" using laws by blast
    moreover have "length (content r') \<le> room w' \<and> room w - nw \<le> room w'" if "length (content r) \<le> room w"
      using that got(4) len nw by auto
    ultimately show ?thesis
      using more IH len
      by (intro exI [of _ r''] exI [of _ w''] exI [of _ "nw + m"] exI [of _ e]) (auto simp: unfold)
  qed
qed

lemma copyBuffer_spec:
  "ok r \<Longrightarrow> \<exists>r' w' m e. copyBuffer rd wr r w = Some (r', w', m, e) \<and>
    written w' = written w @ take m (content r) \<and> m \<le> length (content r) \<and>
    (e = None \<longrightarrow> m = length (content r) \<and> final r = EOF) \<and>
    (length (content r) \<le> room w \<longrightarrow>
       m = length (content r) \<and> e = endError (final r) \<and> room w - m \<le> room w')"
  using copyLoop_spec [of copyBufferSize r 0 w] by (simp add: copyBuffer_def copyBufferSize_def)

end

text \<open>A copy to a connection or a file that takes \<open>quota\<close> more bytes: what it has written and returns.\<close>

definition copied :: "bytes \<Rightarrow> outp \<Rightarrow> outp" where
  "copied bs w = wroteTo w (take (quota w) bs)"

definition copyError :: "bytes \<Rightarrow> go_error \<Rightarrow> outp \<Rightarrow> go_error option" where
  "copyError bs e w = (if length bs \<le> quota w then endError e else Some (outErr w))"

lemma outp_Write_copied:
  "outp_Write w p = (copied p w, min (quota w) (length p), if length p \<le> quota w then None else Some (outErr w))"
  by (auto simp: outp_Write_def copied_def wroteTo_def min_def)

lemma copied_append: "length bs \<le> quota w \<Longrightarrow> copied cs (copied bs w) = copied (bs @ cs) w"
  by (simp add: copied_def wroteTo_def)

lemma copyError_append: "length bs \<le> quota w \<Longrightarrow> copyError cs e (copied bs w) = copyError (bs @ cs) e w"
  by (auto simp: copyError_def copied_def wroteTo_def)

lemma copied_Nil [simp]: "copied [] w = w"
  by (simp add: copied_def wroteTo_def)

lemma sent_copied [simp]: "sent (copied bs w) = sent w @ take (quota w) bs"
  by (simp add: copied_def)

context io_reader
begin

lemma copyLoop_outp:
  assumes "0 < k"
  shows "ok r \<Longrightarrow> \<exists>r' m. copyLoop rd outp_Write k n r w =
    Some (r', copied (content r) w, m, copyError (content r) (final r) w)"
proof (induction "gas r" arbitrary: r w n rule: less_induct)
  case less
  obtain r' bs er where step: "rd r k = (r', bs, er)" by (cases "rd r k")
  note laws = rd_step [OF less.prems step]
  have content: "content r = bs @ content r'" using laws by blast
  have "copyWrite outp_Write w bs = outp_Write w bs"
    by (auto simp: copyWrite_def outp_Write_copied)
  then have put: "(if bs = [] then (w, 0, None) else copyWrite outp_Write w bs) =
      (copied bs w, min (quota w) (length bs), if length bs \<le> quota w then None else Some (outErr w))"
    by (auto simp: outp_Write_copied)
  have unfold: "copyLoop rd outp_Write k n r w =
      (if \<not> length bs \<le> quota w then Some (r', copied bs w, n + min (quota w) (length bs), Some (outErr w))
       else if er \<noteq> None then Some (r', copied bs w, n + min (quota w) (length bs), if er = Some EOF then None else er)
       else copyLoop rd outp_Write k (n + min (quota w) (length bs)) r' (copied bs w))"
    unfolding copyLoop.simps [of rd outp_Write k n r w] step prod.case put by simp
  consider (full) "\<not> length bs \<le> quota w" | (last) "length bs \<le> quota w" "er \<noteq> None"
    | (more) "length bs \<le> quota w" "er = None" by blast
  then show ?case
  proof cases
    case full
    then have "copied bs w = copied (content r) w" "Some (outErr w) = copyError (content r) (final r) w"
      by (simp_all add: content copied_def copyError_def)
    with full show ?thesis by (simp add: unfold)
  next
    case last
    then obtain x where x: "er = Some x" "x = final r" "content r' = []" using laws by blast
    with content last show ?thesis by (simp add: unfold copyError_def endError_def)
  next
    case more
    then have "gas r' < gas r" "ok r'" and final: "final r' = final r" using laws assms by auto
    from less.hyps [OF this(1,2), of "n + min (quota w) (length bs)" "copied bs w"] more final show ?thesis
      by (simp add: unfold content copied_append copyError_append)
  qed
qed

lemma copyBuffer_outp:
  "ok r \<Longrightarrow> \<exists>r' m. copyBuffer rd outp_Write r w =
    Some (r', copied (content r) w, m, copyError (content r) (final r) w)"
  using copyLoop_outp [of copyBufferSize r 0 w] by (simp add: copyBuffer_def copyBufferSize_def)

end

text \<open>The copies of the client: from a connection or a file to a connection, a file or nowhere.\<close>

text \<open>\<open>io.Discard\<close> takes everything; its state is what it was given.\<close>

definition discard_Write :: "bytes writefn" where
  "discard_Write w p = (w @ p, length p, None)"

interpretation download: copying inp_Read wf_inp inpContent inpEnd inpGas outp_Write sent quota
  by unfold_locales

interpretation drained: copying inp_Read wf_inp inpContent inpEnd inpGas discard_Write "\<lambda>w. w" "\<lambda>_. N" for N
  by unfold_locales (auto simp: discard_Write_def)

end
