(* ===== verification/UploadFiles.thy ===== *)
theory UploadFiles
  imports Upload Copy
begin

text \<open>
  The goroutine of one particle stream (\<open>internal/client/merge.go\<close>: the closures \<open>upload\<close> of
  \<open>UploadParticlesMemory\<close> and \<open>uploadParticlesFromFiles\<close>), and that it does what the step
  relation of the upload allows.  The result is the stream's connection afterwards, whether
  it has been closed, and the error; \<open>None\<close> is a goroutine that does not return.
\<close>

section \<open>The goroutines\<close>

definition closeStream :: "pcs_module \<Rightarrow> (particle_kind \<Rightarrow> go_error option) \<Rightarrow> particle_kind \<Rightarrow> outp
    \<Rightarrow> outp \<times> bool \<times> go_error option" where
  "closeStream M closeConn kind w =
     (case closeConn kind of
        Some e \<Rightarrow> (w, False, Some (Wrapf (''close '' @ kindString M kind) e))
      | None \<Rightarrow> (w, True, None))"

definition uploadMemory :: "pcs_module \<Rightarrow> (particle_kind \<rightharpoonup> bytes) \<Rightarrow> (particle_kind \<Rightarrow> bool)
    \<Rightarrow> (particle_kind \<Rightarrow> go_error option) \<Rightarrow> particle_kind \<Rightarrow> outp
    \<Rightarrow> (outp \<times> bool \<times> go_error option) option" where
  "uploadMemory M core send closeConn kind w =
     (if \<not> send kind then Some (w, False, None)
      else
        let data = (case core kind of None \<Rightarrow> [] | Some d \<Rightarrow> d) in
        case outp_Write w data of
          (w', n, Some e) \<Rightarrow> Some (w', False, Some (Wrapf (''write '' @ kindString M kind) e))
        | (w', n, None) \<Rightarrow> Some (closeStream M closeConn kind w'))"

definition uploadFile :: "pcs_module \<Rightarrow> fs \<Rightarrow> (string \<Rightarrow> inp result) \<Rightarrow> string \<Rightarrow> string
    \<Rightarrow> (particle_kind \<Rightarrow> bool) \<Rightarrow> (particle_kind \<Rightarrow> go_error option)
    \<Rightarrow> (particle_kind \<Rightarrow> go_error option) \<Rightarrow> particle_kind \<Rightarrow> outp
    \<Rightarrow> (outp \<times> bool \<times> go_error option) option" where
  "uploadFile M f osOpen dir base send closeFile closeConn kind w =
     (if \<not> send kind then Some (w, False, None)
      else
        let path = particlePath M dir base kind in
        case openParticleFile M f osOpen path of
          Inl e \<Rightarrow> Some (w, False, Some e)
        | Inr r \<Rightarrow>
            (case copyBuffer inp_Read outp_Write r w of
               None \<Rightarrow> None
             | Some (r', w', n, Some e) \<Rightarrow>
                 Some (w', False, Some (Wrapf (''write '' @ kindString M kind) e))
             | Some (r', w', n, None) \<Rightarrow>
                 (case closeFile kind of
                    Some e \<Rightarrow> Some (w', False, Some e)
                  | None \<Rightarrow> Some (closeStream M closeConn kind w'))))"

section \<open>The goroutines take steps of the upload\<close>

text \<open>
  \<open>delivers\<close>: what the goroutine of stream \<open>k\<close> did, seen in the state of the upload: it sent the
  front part \<open>xs\<close> of its data, closed the stream or not, and ended with the error or without.
\<close>

definition delivers :: "pcs_module \<Rightarrow> (particle_kind \<Rightarrow> bool) \<Rightarrow> (particle_kind \<Rightarrow> bytes) \<Rightarrow> particle_kind
    \<Rightarrow> upload \<Rightarrow> bytes \<Rightarrow> bool \<Rightarrow> go_error option \<Rightarrow> bool" where
  "delivers M send data k u xs closes err \<longleftrightarrow>
     rtranclp (upload_step M send data) u
       (u\<lparr>stream := (stream u)(k := xs),
          task := (task u)(k := (if err = None then Closed else Failed)),
          errCh := (case err of None \<Rightarrow> errCh u | Some e \<Rightarrow> errCh u @ [e]),
          closed := (if closes then (closed u)(k := True) else closed u)\<rparr>)"

definition ready :: "pcs_module \<Rightarrow> (particle_kind \<Rightarrow> bool) \<Rightarrow> particle_kind \<Rightarrow> upload \<Rightarrow> bool" where
  "ready M send k u \<longleftrightarrow> k \<in> set (phaseKinds M (phase u)) \<and> send k \<and> task u k = Writing 0 \<and> stream u k = []"

lemma put_to:
  assumes "ready M send k u" "m \<le> length (data k)"
  shows "rtranclp (upload_step M send data) u
    (u\<lparr>task := (task u)(k := Writing m), stream := (stream u)(k := take m (data k))\<rparr>)"
proof (cases "m = 0")
  case True
  then have "u\<lparr>task := (task u)(k := Writing m), stream := (stream u)(k := take m (data k))\<rparr> = u"
    using assms(1) by (simp add: ready_def fun_upd_idem)
  then show ?thesis by simp
next
  case False
  then show ?thesis using assms by (intro r_into_rtranclp upload_step.put) (auto simp: ready_def)
qed

lemma upload_putFails:
  assumes "ready M send k u" "m \<le> length (data k)"
  shows "delivers M send data k u (take m (data k)) False (Some e)"
proof -
  let ?u = "u\<lparr>task := (task u)(k := Writing m), stream := (stream u)(k := take m (data k))\<rparr>"
  have "upload_step M send data ?u (?u\<lparr>task := (task ?u)(k := Failed), errCh := errCh ?u @ [e]\<rparr>)"
    using assms by (intro upload_step.put_fails) (auto simp: ready_def)
  with put_to [where data = data, OF assms] have "rtranclp (upload_step M send data) u
      (?u\<lparr>task := (task ?u)(k := Failed), errCh := errCh ?u @ [e]\<rparr>)"
    by (rule rtranclp.rtrancl_into_rtrancl)
  then show ?thesis by (simp add: delivers_def)
qed

lemma upload_written:
  assumes "ready M send k u"
  shows "rtranclp (upload_step M send data) u
    (u\<lparr>stream := (stream u)(k := data k), task := (task u)(k := Written)\<rparr>)"
proof -
  let ?u = "u\<lparr>task := (task u)(k := Writing (length (data k))), stream := (stream u)(k := data k)\<rparr>"
  have 1: "rtranclp (upload_step M send data) u ?u" using put_to [where data = data, OF assms order_refl] by simp
  have "upload_step M send data ?u (?u\<lparr>task := (task ?u)(k := Written)\<rparr>)"
    using assms by (intro upload_step.put_all) (auto simp: ready_def)
  with 1 have "rtranclp (upload_step M send data) u (?u\<lparr>task := (task ?u)(k := Written)\<rparr>)"
    by (rule rtranclp.rtrancl_into_rtrancl)
  then show ?thesis by simp
qed

lemma upload_closes:
  assumes "ready M send k u" "closeStream M closeConn k w = (w', c, e)"
  shows "delivers M send data k u (data k) c e \<and> w' = w"
proof -
  let ?u = "u\<lparr>stream := (stream u)(k := data k), task := (task u)(k := Written)\<rparr>"
  have u: "rtranclp (upload_step M send data) u ?u" by (rule upload_written [OF assms(1)])
  have "delivers M send data k u (data k) c e"
  proof (cases "closeConn k")
    case None
    have "upload_step M send data ?u (?u\<lparr>task := (task ?u)(k := Closed), closed := (closed ?u)(k := True)\<rparr>)"
      using assms(1) by (intro upload_step.close_stream) (auto simp: ready_def)
    with u have "rtranclp (upload_step M send data) u
        (?u\<lparr>task := (task ?u)(k := Closed), closed := (closed ?u)(k := True)\<rparr>)"
      by (rule rtranclp.rtrancl_into_rtrancl)
    with assms(2) None show ?thesis by (simp add: delivers_def closeStream_def)
  next
    case (Some x)
    have "upload_step M send data ?u
        (?u\<lparr>task := (task ?u)(k := Failed), errCh := errCh ?u @ [Wrapf (''close '' @ kindString M k) x]\<rparr>)"
      using assms(1) by (intro upload_step.close_fails) (auto simp: ready_def)
    with u have "rtranclp (upload_step M send data) u
        (?u\<lparr>task := (task ?u)(k := Failed), errCh := errCh ?u @ [Wrapf (''close '' @ kindString M k) x]\<rparr>)"
      by (rule rtranclp.rtrancl_into_rtrancl)
    with assms(2) Some show ?thesis by (auto simp: delivers_def closeStream_def)
  qed
  with assms(2) show ?thesis by (auto simp: closeStream_def split: option.splits)
qed

text \<open>
  A goroutine that uploads a stream from memory does what the step relation of the upload
  allows, whatever the connection does: it returns, and its outcome is that of a sequence of
  steps that touch its own stream only.
\<close>

theorem upload_memory_refines:
  assumes "ready M send k u" "core k = Some (data k)"
  shows "\<exists>w' c e m. uploadMemory M core send closeConn k w = Some (w', c, e) \<and>
    sent w' = sent w @ take m (data k) \<and> delivers M send data k u (take m (data k)) c e"
proof -
  have send: "send k" using assms(1) by (simp add: ready_def)
  obtain w1 n e1 where wr: "outp_Write w (data k) = (w1, n, e1)" by (cases "outp_Write w (data k)")
  note sent1 = out.wr_written [OF wr] out.wr_count [OF wr]
  show ?thesis
  proof (cases e1)
    case None
    obtain w' c e where cl: "closeStream M closeConn k w1 = (w', c, e)"
      by (cases "closeStream M closeConn k w1")
    have "n = length (data k)" using wr None out.wr_short by blast
    with sent1 upload_closes [where data = data, OF assms(1) cl] None wr cl send assms(2) show ?thesis
      by (intro exI [of _ w'] exI [of _ c] exI [of _ e] exI [of _ "length (data k)"])
        (simp add: uploadMemory_def)
  next
    case (Some x)
    with sent1 upload_putFails [where data = data, OF assms(1) sent1(2)] wr send assms(2) show ?thesis
      by (auto simp: uploadMemory_def)
  qed
qed

text \<open>
  C17: the same for a stream that is read from its particle file: a file that is missing, too
  short or unreadable, a connection that fails, and a close that fails all end as errors the
  upload knows.
\<close>

theorem upload_file_refines:
  assumes "ready M send k u"
    and "\<forall>r. openParticleFile M f osOpen (particlePath M dir base k) = Inr r \<longrightarrow> wf_inp r \<and> inpContent r = data k"
  shows "\<exists>w' c e m. uploadFile M f osOpen dir base send closeFile closeConn k w = Some (w', c, e) \<and>
    sent w' = sent w @ take m (data k) \<and> delivers M send data k u (take m (data k)) c e"
proof -
  have send: "send k" using assms(1) by (simp add: ready_def)
  show ?thesis
  proof (cases "openParticleFile M f osOpen (particlePath M dir base k)")
    case (Inl e)
    with upload_putFails [where data = data, OF assms(1), of 0 e] send show ?thesis
      by (intro exI [of _ w] exI [of _ False] exI [of _ "Some e"] exI [of _ 0]) (simp add: uploadFile_def)
  next
    case (Inr r)
    with assms(2) have r: "wf_inp r" "inpContent r = data k" by auto
    from download.copyBuffer_spec [OF r(1), of w] obtain r' w1 m e1 where
      cp: "copyBuffer inp_Read outp_Write r w = Some (r', w1, m, e1)" and
      sent1: "sent w1 = sent w @ take m (data k)" "m \<le> length (data k)" and
      whole: "e1 = None \<Longrightarrow> m = length (data k)"
      unfolding r(2) by blast
    show ?thesis
    proof (cases e1)
      case (Some x)
      with cp sent1 upload_putFails [where data = data, OF assms(1) sent1(2)] Inr send show ?thesis
        by (intro exI [of _ w1] exI [of _ False]
            exI [of _ "Some (Wrapf (''write '' @ kindString M k) x)"] exI [of _ m])
          (simp add: uploadFile_def)
    next
      case None
      show ?thesis
      proof (cases "closeFile k")
        case (Some x)
        with None cp sent1 upload_putFails [where data = data, OF assms(1) sent1(2)] Inr send show ?thesis
          by (intro exI [of _ w1] exI [of _ False] exI [of _ "Some x"] exI [of _ m])
            (simp add: uploadFile_def)
      next
        case noErr: None
        obtain w' c e where cl: "closeStream M closeConn k w1 = (w', c, e)"
          by (cases "closeStream M closeConn k w1")
        with None noErr cp sent1 whole upload_closes [where data = data, OF assms(1) cl] Inr send show ?thesis
          by (intro exI [of _ w'] exI [of _ c] exI [of _ e] exI [of _ m]) (simp add: uploadFile_def)
      qed
    qed
  qed
qed

section \<open>An upload can always succeed\<close>

text \<open>The streams of a list, one after the other.\<close>

lemma streams_delivered:
  assumes "distinct ks" "set ks \<subseteq> set (phaseKinds M (phase u))"
    and "\<forall>k \<in> set ks. send k \<longrightarrow> task u k = Writing 0 \<and> stream u k = []"
  shows "\<exists>u'. rtranclp (upload_step M send data) u u' \<and> phase u' = phase u \<and> errCh u' = errCh u \<and>
    (\<forall>k. task u' k = (if k \<in> set ks \<and> send k then Closed else task u k)) \<and>
    (\<forall>k. k \<notin> set ks \<longrightarrow> stream u' k = stream u k)"
  using assms
proof (induction ks arbitrary: u)
  case Nil
  then show ?case by auto
next
  case (Cons k ks)
  show ?case
  proof (cases "send k")
    case False
    with Cons.IH [of u] Cons.prems show ?thesis by auto
  next
    case True
    have ready: "ready M send k u" using Cons.prems True by (simp add: ready_def)
    let ?u = "u\<lparr>stream := (stream u)(k := data k), task := (task u)(k := Closed),
      errCh := errCh u, closed := (closed u)(k := True)\<rparr>"
    have "closeStream M (\<lambda>k. None) k w = (w, True, None)" for w by (simp add: closeStream_def)
    then have step: "rtranclp (upload_step M send data) u ?u"
      using upload_closes [where data = data, OF ready, of "\<lambda>k. None" "\<lparr>sent = [], quota = 0, outErr = EOF\<rparr>"]
      by (auto simp: delivers_def)
    have "distinct ks" "set ks \<subseteq> set (phaseKinds M (phase ?u))"
      "\<forall>k \<in> set ks. send k \<longrightarrow> task ?u k = Writing 0 \<and> stream ?u k = []"
      using Cons.prems by auto
    from Cons.IH [OF this] obtain u' where u': "rtranclp (upload_step M send data) ?u u'"
      "phase u' = phase ?u" "errCh u' = errCh ?u"
      "\<forall>k. task u' k = (if k \<in> set ks \<and> send k then Closed else task ?u k)"
      "\<forall>k. k \<notin> set ks \<longrightarrow> stream u' k = stream ?u k"
      by blast
    have "rtranclp (upload_step M send data) u u'" using step u'(1) by (rule rtranclp_trans)
    with u' True Cons.prems(1) show ?thesis by (intro exI [of _ u']) auto
  qed
qed

lemma omitted_closed:
  "phase u = ClosingOmitted ks \<Longrightarrow>
   \<exists>u'. rtranclp (upload_step M send data) u u' \<and> phase u' = CorePhase \<and> errCh u' = errCh u \<and>
     task u' = task u \<and> stream u' = stream u"
proof (induction ks arbitrary: u)
  case Nil
  then have "upload_step M send data u (u\<lparr>phase := CorePhase\<rparr>)" by (rule upload_step.omitted)
  then show ?case by (intro exI [of _ "u\<lparr>phase := CorePhase\<rparr>"] conjI r_into_rtranclp) simp_all
next
  case (Cons k ks)
  let ?u = "u\<lparr>phase := ClosingOmitted ks\<rparr>"
  let ?v = "u\<lparr>phase := ClosingOmitted ks, closed := (closed u)(k := True)\<rparr>"
  have step: "upload_step M send data u (if send k then ?u else ?v)"
    using Cons.prems upload_step.keep [of u k ks] upload_step.omit [of u k ks] by auto
  have "phase (if send k then ?u else ?v) = ClosingOmitted ks" by simp
  from Cons.IH [OF this] obtain u' where
    "rtranclp (upload_step M send data) (if send k then ?u else ?v) u'" "phase u' = CorePhase"
    "errCh u' = errCh u" "task u' = task u" "stream u' = stream u"
    by auto
  with step show ?case by (meson converse_rtranclp_into_rtranclp)
qed

lemma upload_succeeds:
  assumes "pcs_contract M"
  obtains u where "rtranclp (upload_step M send data) (newUpload M) u" "phase u = UploadReturned None"
proof -
  let ?R = "upload_step M send data"
  have disj: "set (CoreParticleKinds M) \<inter> set parityParticleKinds = {}"
    using pcs_contract_core [OF assms] by (auto simp: core_kinds_def parityParticleKinds_def)
  have dist: "distinct (CoreParticleKinds M)" "distinct parityParticleKinds"
    using assms by (simp_all add: pcs_contract_def parityParticleKinds_def)
  obtain u1 where u1: "rtranclp ?R (newUpload M) u1" "phase u1 = CorePhase" "errCh u1 = []"
      "task u1 = (\<lambda>k. Writing 0)" "stream u1 = (\<lambda>k. [])"
    using omitted_closed [of "newUpload M" _ M send data] by (auto simp: newUpload_def)
  from streams_delivered [OF dist(1), of M u1 send data] u1 obtain u2 where u2:
    "rtranclp ?R u1 u2" "phase u2 = CorePhase" "errCh u2 = []"
    "\<forall>k. task u2 k = (if k \<in> set (CoreParticleKinds M) \<and> send k then Closed else Writing 0)"
    "\<forall>k. k \<notin> set (CoreParticleKinds M) \<longrightarrow> stream u2 k = []"
    by (auto simp: phaseKinds_def)
  let ?u3 = "u2\<lparr>phase := ParityPhase\<rparr>"
  have "phaseDone M send u2" using u2 by (auto simp: phaseDone_def phaseKinds_def)
  then have u3: "?R u2 ?u3" using upload_step.cores_done [of u2 M send data] u2 by simp
  have "\<forall>k \<in> set parityParticleKinds. send k \<longrightarrow> task ?u3 k = Writing 0 \<and> stream ?u3 k = []"
    using u2(4,5) disj by (auto simp: disjoint_iff)
  then obtain u4 where u4: "rtranclp ?R ?u3 u4" "phase u4 = ParityPhase" "errCh u4 = []"
    "\<forall>k. task u4 k = (if k \<in> set parityParticleKinds \<and> send k then Closed else task u2 k)"
    using streams_delivered [OF dist(2), of M ?u3 send data] u2(3) by (auto simp: phaseKinds_def)
  let ?u5 = "u4\<lparr>phase := UploadReturned None\<rparr>"
  have "phaseDone M send u4" using u4 by (auto simp: phaseDone_def phaseKinds_def)
  then have "?R u4 ?u5" using upload_step.parities_done [of u4 M send data] u4 by (simp add: firstErr_def)
  with u1(1) u2(1) u3 u4(1) have "rtranclp ?R (newUpload M) ?u5"
    by (meson rtranclp.rtrancl_into_rtrancl rtranclp_trans)
  then show ?thesis by (rule that) simp
qed

text \<open>The even cypher stream of the concrete upload, from a file of one byte.\<close>

theorem upload_file_refines_witness:
  "\<exists>w' c e m. uploadFile sample_module (\<lambda>path. Inr (Dir 64))
       (\<lambda>path. Inr \<lparr>chunks = [''d''], inpEnd = EOF, early = False\<rparr>) ''dir'' ''x'' two_streams
       (\<lambda>k. None) (\<lambda>k. None) EvenCypher \<lparr>sent = ''T'', quota = 9, outErr = EOF\<rparr> = Some (w', c, e) \<and>
     sent w' = ''T'' @ take m ''d'' \<and>
     delivers sample_module two_streams one_byte EvenCypher afterOmit (take m ''d'') c e"
proof -
  have ready: "ready sample_module two_streams EvenCypher afterOmit"
    by (simp add: ready_def afterOmit_def newUpload_def phaseKinds_def sample_module_def)
  have data: "one_byte EvenCypher = ''d''" by (simp add: one_byte_def)
  have "\<forall>r. openParticleFile sample_module (\<lambda>path. Inr (Dir 64))
      (\<lambda>path. Inr \<lparr>chunks = [''d''], inpEnd = EOF, early = False\<rparr>)
      (particlePath sample_module ''dir'' ''x'' EvenCypher) = Inr r \<longrightarrow>
      wf_inp r \<and> inpContent r = one_byte EvenCypher"
    by (auto simp: openParticleFile_def data wf_inp_def inpContent_def split: if_splits)
  from upload_file_refines [where data = one_byte, OF ready this, of "\<lambda>k. None" "\<lambda>k. None" "\<lparr>sent = ''T'', quota = 9, outErr = EOF\<rparr>"]
  show ?thesis unfolding data by simp
qed

end
