(* ===== verification/Frames.thy ===== *)
theory Frames
  imports Handshake
begin

text \<open>
  \<open>internal/protocol/error.go\<close> and the framing of \<open>trailer.go\<close>: what the server writes on
  the control channel after the data streams, and how a client reads it.  The framing does
  not depend on the text of a trailer: the two functions of \<open>encoding/json\<close> are those of a
  \<open>json_codec\<close> here, and \<open>TrailerJson\<close> gives the one the program uses.
\<close>

record 't json_codec =
  marshal :: "'t \<Rightarrow> bytes result"
  unmarshal :: "bytes \<Rightarrow> 't result"

section \<open>Error frames\<close>

definition errorPrefix :: string where
  "errorPrefix = ''error ''"

definition flattenLines :: "string \<Rightarrow> string" where
  "flattenLines s = map (\<lambda>c. if c = newline then CHR '' '' else c) s"

definition writeErrorLine :: "go_error option \<Rightarrow> bytes" where
  "writeErrorLine err =
     (case err of
        None \<Rightarrow> []
      | Some e \<Rightarrow> errorPrefix @ flattenLines (errMsg e) @ [newline])"

definition parseErrorLine :: "string \<Rightarrow> go_error option" where
  "parseErrorLine line =
     (let line = trimSuffix line [newline] in
      if \<not> hasPrefix line errorPrefix then None
      else let msg = trimPrefix line errorPrefix in
        if msg = [] then Some (SessionError ''server session failed'')
        else Some (SessionError msg))"

section \<open>Trailer frames\<close>

text \<open>The digit loop of \<open>parseIntDecimal\<close>; \<open>n*10 + digit\<close> wraps at 64 bits.\<close>

fun decimalLoop :: "int \<Rightarrow> string \<Rightarrow> int option" where
  "decimalLoop n [] = Some n"
| "decimalLoop n (c # cs) =
     (if code c < 48 \<or> 57 < code c then None
      else decimalLoop (wrap64 (wrap64 (n * 10) + (int (code c) - 48))) cs)"

definition parseIntDecimal :: "string \<Rightarrow> int result" where
  "parseIntDecimal s =
     (if s = [] then Inl (Errorf ''empty length'')
      else case decimalLoop 0 s of
        None \<Rightarrow> Inl (Quotef ''invalid integer '' s '''')
      | Some n \<Rightarrow> Inr n)"

definition parseTrailerLength :: "string \<Rightarrow> int result" where
  "parseTrailerLength line =
     (case parseIntDecimal (trimSuffix line [newline]) of
        Inl e \<Rightarrow> Inl (Wrapf ''parse trailer length'' e)
      | Inr n \<Rightarrow> Inr n)"

text \<open>\<open>io.ReadFull\<close> on the buffered control connection, with fuel for all its reads.\<close>

definition readTrailerBody :: "'t json_codec \<Rightarrow> conn_reader \<Rightarrow> int \<Rightarrow> 't result" where
  "readTrailerBody J r len =
     (if len < 0 \<or> 2 ^ 20 < len
      then Inl (Errorf (''invalid trailer length '' @ fmtInt len))
      else case readFull cr_Read (Suc (crGas r)) r (nat len) of (r', data, err) \<Rightarrow>
        (case err of
           Some e \<Rightarrow> Inl (Wrapf ''read trailer body'' e)
         | None \<Rightarrow>
             (case unmarshal J data of
                Inl e \<Rightarrow> Inl (Wrapf ''unmarshal trailer'' e)
              | Inr t \<Rightarrow> Inr t)))"

definition readSessionLine :: "'t json_codec \<Rightarrow> conn_reader \<Rightarrow> 't result" where
  "readSessionLine J br =
     (case bufio_ReadString br of (br, line, err) \<Rightarrow>
        (case err of
           Some e \<Rightarrow> Inl (Wrapf ''read session line'' e)
         | None \<Rightarrow>
             (case parseErrorLine line of
                Some sessionErr \<Rightarrow> Inl sessionErr
              | None \<Rightarrow>
                  (case parseTrailerLength line of
                     Inl e \<Rightarrow> Inl e
                   | Inr len \<Rightarrow> readTrailerBody J br len))))"

definition readTrailer :: "'t json_codec \<Rightarrow> inp \<Rightarrow> 't result" where
  "readTrailer J r = readSessionLine J (newBufio r)"

text \<open>\<open>Trailer.Write\<close>: the bytes it writes.\<close>

definition trailerFrame :: "bytes \<Rightarrow> bytes" where
  "trailerFrame data = fmtNat 10 (length data) @ [newline] @ data"

definition writeTrailer :: "'t json_codec \<Rightarrow> 't \<Rightarrow> bytes result" where
  "writeTrailer J t =
     (case marshal J t of
        Inl e \<Rightarrow> Inl (Wrapf ''marshal trailer'' e)
      | Inr data \<Rightarrow> Inr (trailerFrame data))"

section \<open>Reading error frames\<close>

lemma parseErrorLine_written:
  "parseErrorLine (writeErrorLine (Some e)) =
     Some (SessionError (if errMsg e = [] then ''server session failed'' else flattenLines (errMsg e)))"
proof -
  have "trimSuffix (errorPrefix @ flattenLines (errMsg e) @ [newline]) [newline] =
      errorPrefix @ flattenLines (errMsg e)"
    using trimSuffix_append [of "errorPrefix @ flattenLines (errMsg e)" "[newline]"] by simp
  then show ?thesis
    by (auto simp: parseErrorLine_def writeErrorLine_def Let_def flattenLines_def)
qed

lemma flattenLines_newline: "newline \<notin> set (flattenLines s)"
  by (auto simp: flattenLines_def)

lemma readString_new_line:
  assumes "wf_inp r" "inpContent r = w @ newline # rest" "newline \<notin> set w"
  obtains b' where "bufio_ReadString (newBufio r) = (b', w @ [newline], None)"
    "crOk b'" "crContent b' = rest" "crFinal b' = inpEnd r"
proof -
  obtain b' line err where br: "bufio_ReadString (newBufio r) = (b', line, err)"
    by (cases "bufio_ReadString (newBufio r)")
  with bufio_ReadString_line [OF _ _ br] assms that show ?thesis
    by (simp add: frontLine_line afterLine_line)
qed

lemma readTrailer_error:
  assumes "wf_inp r" "inpContent r = writeErrorLine (Some e) @ rest"
  shows "readTrailer J r =
    Inl (SessionError (if errMsg e = [] then ''server session failed'' else flattenLines (errMsg e)))"
proof -
  let ?w = "errorPrefix @ flattenLines (errMsg e)"
  have "newline \<notin> set ?w" by (simp add: errorPrefix_def flattenLines_newline)
  moreover have "inpContent r = ?w @ newline # rest" using assms(2) by (simp add: writeErrorLine_def)
  ultimately obtain b' where "bufio_ReadString (newBufio r) = (b', ?w @ [newline], None)"
    using readString_new_line [OF assms(1)] by blast
  moreover have "writeErrorLine (Some e) = ?w @ [newline]" by (simp add: writeErrorLine_def)
  ultimately show ?thesis
    using parseErrorLine_written [of e] by (simp add: readTrailer_def readSessionLine_def)
qed

text \<open>
  An error frame reaches the client as a session error with the server's message on one
  line; an empty message becomes the default text.
\<close>

theorem error_frame_roundtrip:
  assumes "wf_inp r" "inpContent r = writeErrorLine (Some e) @ rest"
  shows "readTrailer J r =
    Inl (SessionError (if errMsg e = [] then ''server session failed'' else flattenLines (errMsg e)))"
  using assms by (rule readTrailer_error)

theorem error_frame_roundtrip_witness:
  "readTrailer (\<lparr>marshal = Inr, unmarshal = Inr\<rparr> :: string json_codec)
     \<lparr>chunks = [''error a'', [newline]], inpEnd = EOF, early = False\<rparr>
     = Inl (SessionError ''a'')"
proof -
  let ?c = "\<lparr>chunks = [''error a'', [newline]], inpEnd = EOF, early = False\<rparr>"
  have "wf_inp ?c" "inpContent ?c = writeErrorLine (Some (Errorf ''a'')) @ []"
    by (simp_all add: wf_inp_def inpContent_def writeErrorLine_def errorPrefix_def flattenLines_def)
  from error_frame_roundtrip [OF this, of "\<lparr>marshal = Inr, unmarshal = Inr\<rparr> :: string json_codec"] show ?thesis by (simp add: flattenLines_def)
qed

section \<open>Trailer lengths\<close>

definition decimalValue :: "string \<Rightarrow> int" where
  "decimalValue s = foldl (\<lambda>n c. n * 10 + (int (code c) - 48)) 0 s"

lemma decimalLoop_spec:
  "decimalLoop (wrap64 n) s =
     (if \<forall>c \<in> set s. isDigit c
      then Some (wrap64 (foldl (\<lambda>n c. n * 10 + (int (code c) - 48)) n s)) else None)"
proof (induction s arbitrary: n)
  case Nil
  then show ?case by simp
next
  case (Cons c s)
  have "wrap64 (wrap64 (wrap64 n * 10) + (int (code c) - 48)) = wrap64 (n * 10 + (int (code c) - 48))"
    using wrap64_step [of n 10 0] wrap64_step [of "n * 10" 1 "int (code c) - 48"] by simp
  with Cons.IH show ?case by (auto simp: isDigit_def not_le)
qed

lemma parseIntDecimal_eq:
  "parseIntDecimal s =
     (if s = [] then Inl (Errorf ''empty length'')
      else if \<forall>c \<in> set s. isDigit c then Inr (wrap64 (decimalValue s))
      else Inl (Quotef ''invalid integer '' s ''''))"
proof -
  have "wrap64 0 = 0" by (simp add: wrap64_def)
  then show ?thesis
    using decimalLoop_spec [of 0 s] by (simp add: parseIntDecimal_def decimalValue_def)
qed

lemma decimalValue_fmtNat: "decimalValue (fmtNat 10 n) = int n"
proof (induction "10 :: nat" n rule: fmtNat.induct)
  case (1 n)
  show ?case
  proof (cases "n < 10")
    case True
    then show ?thesis by (subst fmtNat.simps) (simp add: decimalValue_def code_hexDigit)
  next
    case False
    have "n mod 10 < 10" by simp
    then have "code (hexDigit (n mod 10)) = 48 + n mod 10" by (simp add: code_hexDigit)
    moreover have "10 * int (n div 10) + int (n mod 10) = int n"
      by (metis mult_div_mod_eq of_nat_add of_nat_mult of_nat_numeral)
    ultimately show ?thesis
      using False 1 by (subst fmtNat.simps) (simp add: decimalValue_def)
  qed
qed

lemma parseIntDecimal_fmtNat: "parseIntDecimal (fmtNat 10 n) = Inr (wrap64 (int n))"
proof -
  have "\<forall>c \<in> set (fmtNat 10 n). isDigit c"
    using fmtNat_digits [of 10 _ n] isDigit_hexDigit by fastforce
  then show ?thesis by (simp add: parseIntDecimal_eq decimalValue_fmtNat)
qed

text \<open>
  C26: a decimal trailer length is read modulo 2^64 into the signed range.  It is read exactly
  when it fits an \<open>int64\<close>; a longer digit string is not refused but wraps around.
\<close>

theorem trailer_length_wraps:
  "parseTrailerLength (fmtNat 10 n @ [newline]) = Inr (wrap64 (int n))
   \<and> (wrap64 (int n) = int n \<longleftrightarrow> n < 2 ^ 63)
   \<and> parseTrailerLength (''18446744073709551621'' @ [newline]) = Inr 5"
proof -
  have line: "parseTrailerLength (fmtNat 10 k @ [newline]) = Inr (wrap64 (int k))" for k
    by (simp add: parseTrailerLength_def parseIntDecimal_fmtNat)
  have "wrap64 (int n) = int n \<longleftrightarrow> n < 2 ^ 63"
    using wrap64_id [of "int n"] is_int64_wrap64 [of "int n"] by (auto simp: is_int64_def)
  moreover have "fmtNat 10 18446744073709551621 = ''18446744073709551621''"
    by (simp add: go_text)
  then have "parseTrailerLength (''18446744073709551621'' @ [newline]) = Inr 5"
    using line [of 18446744073709551621] by (simp add: wrap64_def)
  ultimately show ?thesis using line by simp
qed

section \<open>Reading trailer frames\<close>

lemma fmtNat_newline: "newline \<notin> set (fmtNat 10 n)"
  using fmtNat_plain [of 10 newline n] by auto

lemma parseErrorLine_digits: "parseErrorLine (fmtNat 10 n @ [newline]) = None"
proof -
  obtain c cs where s: "fmtNat 10 n = c # cs" by (cases "fmtNat 10 n") auto
  then obtain d where "d < 10" "c = hexDigit d" using fmtNat_digits [of 10 c n] by auto
  then have "c \<noteq> CHR ''e''" using code_hexDigit [of d] by auto
  then show ?thesis
    by (simp add: parseErrorLine_def s hasPrefix_def errorPrefix_def
        trimSuffix_append [of "c # cs" "[newline]", simplified])
qed

lemma readTrailerBody_data:
  assumes "crOk br" "crContent br = data @ rest" "length data < 2 ^ 63"
  shows "readTrailerBody J br (int (length data)) =
    (if 2 ^ 20 < length data
     then Inl (Errorf (''invalid trailer length '' @ fmtInt (int (length data))))
     else case unmarshal J data of Inl e \<Rightarrow> Inl (Wrapf ''unmarshal trailer'' e) | Inr t \<Rightarrow> Inr t)"
proof -
  obtain r' bs e where r: "readFull cr_Read (Suc (crGas br)) br (length data) = (r', bs, e)"
    by (cases "readFull cr_Read (Suc (crGas br)) br (length data)")
  have "bs = data" "e = None"
    using cr.readFull_spec [OF assms(1) _ r] assms(2) by simp_all
  then show ?thesis by (auto simp: readTrailerBody_def r split: sum.split)
qed

lemma readTrailer_frame:
  assumes "wf_inp r" "inpContent r = trailerFrame data @ rest" "length data < 2 ^ 63"
  shows "readTrailer J r =
    (if 2 ^ 20 < length data
     then Inl (Errorf (''invalid trailer length '' @ fmtInt (int (length data))))
     else case unmarshal J data of Inl e \<Rightarrow> Inl (Wrapf ''unmarshal trailer'' e) | Inr t \<Rightarrow> Inr t)"
proof -
  have "inpContent r = fmtNat 10 (length data) @ newline # (data @ rest)"
    using assms(2) by (simp add: trailerFrame_def)
  then obtain b' where br: "bufio_ReadString (newBufio r) =
      (b', fmtNat 10 (length data) @ [newline], None)" "crOk b'" "crContent b' = data @ rest"
    using readString_new_line [OF assms(1) _ fmtNat_newline] by blast
  have "wrap64 (int (length data)) = int (length data)"
    using assms(3) by (intro wrap64_id) (simp add: is_int64_def)
  then have len: "parseTrailerLength (fmtNat 10 (length data) @ [newline]) =
      Inr (int (length data))"
    by (simp add: parseTrailerLength_def parseIntDecimal_fmtNat)
  show ?thesis
    using readTrailerBody_data [OF br(2,3) assms(3), of J] len parseErrorLine_digits [of "length data"]
    by (simp add: readTrailer_def readSessionLine_def br(1))
qed

text \<open>
  The trailer a server writes is the trailer a client reads, up to a text of 1 MiB;
  a longer one is written without complaint and refused by the client.
\<close>

theorem trailer_frame_roundtrip:
  assumes "marshal J t = Inr data" "unmarshal J data = Inr t" "writeTrailer J t = Inr frame"
    and "wf_inp r" "inpContent r = frame @ rest" "length data < 2 ^ 63"
  shows "readTrailer J r =
    (if length data \<le> 2 ^ 20 then Inr t
     else Inl (Errorf (''invalid trailer length '' @ fmtInt (int (length data)))))"
proof -
  have "frame = trailerFrame data" "unmarshal J data = Inr t"
    using assms(1-3) by (auto simp: writeTrailer_def)
  moreover from this have "inpContent r = trailerFrame data @ rest" using assms(5) by simp
  ultimately show ?thesis using readTrailer_frame [OF assms(4) _ assms(6), of rest J]
    by (auto simp: not_less)
qed

theorem trailer_frame_roundtrip_witness:
  "readTrailer \<lparr>marshal = (\<lambda>t. Inr t), unmarshal = (\<lambda>d. Inr d)\<rparr>
     \<lparr>chunks = [''2'', [newline], ''{'', ''}''], inpEnd = EOF, early = False\<rparr> = Inr ''{}''"
proof -
  let ?J = "\<lparr>marshal = (\<lambda>t. Inr t), unmarshal = (\<lambda>d. Inr d)\<rparr> :: string json_codec"
  let ?c = "\<lparr>chunks = [''2'', [newline], ''{'', ''}''], inpEnd = EOF, early = False\<rparr>"
  have two: "fmtNat 10 (Suc (Suc 0)) = ''2''" by (simp add: go_text numeral_2_eq_2 [symmetric])
  have "marshal ?J ''{}'' = Inr ''{}''" "unmarshal ?J ''{}'' = Inr ''{}''" "wf_inp ?c"
    by (simp_all add: wf_inp_def)
  moreover have "writeTrailer ?J ''{}'' = Inr (''2'' @ [newline] @ ''{}'')"
    by (simp add: writeTrailer_def trailerFrame_def two)
  moreover have "inpContent ?c = (''2'' @ [newline] @ ''{}'') @ []"
    by (simp add: inpContent_def)
  ultimately show ?thesis
    using trailer_frame_roundtrip [of ?J "''{}''" "''{}''" _ ?c "[]"] by simp
qed

section \<open>An error frame where an invitation is expected\<close>

lemma hexDigit_six: "hexDigit (Suc (Suc (Suc (Suc (Suc (Suc 0)))))) = CHR ''6''"
  by code_simp

text \<open>
  A merge profile the server refuses is answered by an error frame in place of the
  invitation.  The client reads it as an invitation, and reports a field count instead of
  the server's message.
\<close>

theorem refused_profile_not_reported:
  assumes "validateProfile p = Inl e" "wf_inp r" "inpContent r = writeErrorLine (Some e)"
  shows "snd (readInvitation r) = Inl (Errorf ''invitation has 6 fields, want 9'')"
proof -
  let ?w = "errorPrefix @ flattenLines (errMsg e)"
  have "newline \<notin> set ?w" by (simp add: errorPrefix_def flattenLines_newline)
  moreover have "inpContent r = ?w @ newline # []" using assms(3) by (simp add: writeErrorLine_def)
  ultimately obtain b' where br: "bufio_ReadString (newBufio r) = (b', ?w @ [newline], None)"
    using readString_new_line [OF assms(2)] by blast
  have "e = Errorf ''both cypher core particles missing'' \<or>
      e = Errorf ''both noise core particles missing''"
    using assms(1) by (auto simp: validateProfile_def split: if_splits)
  moreover have
    "strFields (trimSpace (''error both cypher core particles missing'' @ [newline])) =
       [''error'', ''both'', ''cypher'', ''core'', ''particles'', ''missing'']"
    "strFields (trimSpace (''error both noise core particles missing'' @ [newline])) =
       [''error'', ''both'', ''noise'', ''core'', ''particles'', ''missing'']"
    by code_simp+
  then have
    "parseInvitation (''error both cypher core particles missing'' @ [newline]) =
       Inl (Errorf ''invitation has 6 fields, want 9'')"
    "parseInvitation (''error both noise core particles missing'' @ [newline]) =
       Inl (Errorf ''invitation has 6 fields, want 9'')"
    using hexDigit_six by (simp_all add: parseInvitation_def go_text)
  ultimately show ?thesis
    by (auto simp: readInvitation_def br errorPrefix_def flattenLines_def)
qed

theorem refused_profile_not_reported_witness:
  "snd (readInvitation \<lparr>chunks = [writeErrorLine (Some (Errorf ''both cypher core particles missing''))],
     inpEnd = EOF, early = False\<rparr>) = Inl (Errorf ''invitation has 6 fields, want 9'')"
proof -
  let ?e = "Errorf ''both cypher core particles missing''"
  let ?c = "\<lparr>chunks = [writeErrorLine (Some ?e)], inpEnd = EOF, early = False\<rparr>"
  have "validateProfile \<lparr>MissingMask = 3\<rparr> = Inl ?e"
    by (simp add: validateProfile_def missing_bits)
  moreover have "wf_inp ?c" "inpContent ?c = writeErrorLine (Some ?e)"
    by (simp_all add: wf_inp_def inpContent_def writeErrorLine_def)
  ultimately show ?thesis by (rule refused_profile_not_reported)
qed

end
