(* ===== verification/Download.thy ===== *)
theory Download
  imports Upload Copy Frames
begin

text \<open>
  The split session of a client (\<open>internal/client/split.go\<close>, \<open>client.go\<close>): sending the document,
  receiving the six particle streams into writers or into memory, and the trailer.  The six
  streams are received by a goroutine each; they share nothing but the channel they report
  on, so an interleaving comes down to the order \<open>order\<close> in which they finish.
\<close>

text \<open>\<open>client.ReadTrailer\<close> reads from the control connection of the session.\<close>

definition sessionTrailer :: "'t json_codec \<Rightarrow> client_session \<Rightarrow> 't result" where
  [simp]: "sessionTrailer J s = readTrailer J (csIn s)"

text \<open>What the server sends on the data connections of a session, and what closing answers.\<close>

record client_env =
  ceControl :: "(outp \<times> inp) result"
  ceDial :: "nat \<Rightarrow> outp result"
  ceDataIn :: "nat \<Rightarrow> inp"
  ceCloseErr :: "nat \<Rightarrow> go_error option"

definition ceDocIn :: "client_env \<Rightarrow> inp" where
  "ceDocIn env = ceDataIn env 0"

text \<open>A kind that is no key of the map of readers is not read from; its stream is empty here.\<close>

definition noStream :: inp where
  "noStream = \<lparr>chunks = [], inpEnd = EOF, early = False\<rparr>"

definition ceParticleIn :: "client_env \<Rightarrow> particle_kind \<Rightarrow> inp" where
  "ceParticleIn env kind =
     (case particleReaders (ceDataIn env) kind of Some r \<Rightarrow> r | None \<Rightarrow> noStream)"

lemma ceParticleIn_same:
  assumes "ceDataIn env = (\<lambda>n. s)"
  shows "ceParticleIn env k = (if k \<in> all_kinds then s else noStream)"
  by (cases k) (simp_all add: ceParticleIn_def particleReaders_def all_kinds_def assms)

lemma noStream_wf [simp]: "wf_inp noStream" "inpContent noStream = []"
  by (simp_all add: noStream_def wf_inp_def inpContent_def)

section \<open>Documents\<close>

definition uploadDocument :: "'r readfn \<Rightarrow> go_error option \<Rightarrow> 'r \<Rightarrow> outp
    \<Rightarrow> (outp \<times> bool \<times> go_error option) option" where
  "uploadDocument rd closeErr doc w =
     (case copyBuffer rd outp_Write doc w of
        None \<Rightarrow> None
      | Some (doc', w', n, Some e) \<Rightarrow> Some (w', False, Some e)
      | Some (doc', w', n, None) \<Rightarrow> Some (w', closeErr = None, closeErr))"

lemma uploadDocument_eq:
  assumes "wf_inp doc"
  shows "\<exists>err. uploadDocument inp_Read closeErr doc w = Some (copied (inpContent doc) w, err = None, err) \<and>
    err = (case copyError (inpContent doc) (inpEnd doc) w of Some e \<Rightarrow> Some e | None \<Rightarrow> closeErr)"
  using inp.copyBuffer_outp [OF assms, of w] by (auto simp: uploadDocument_def split: option.split)

section \<open>Particle streams into writers\<close>

fun copyAll :: "'w writefn \<Rightarrow> (particle_kind \<Rightarrow> inp) \<Rightarrow> particle_kind list \<Rightarrow> (particle_kind \<rightharpoonup> 'w)
    \<Rightarrow> particle_kind set \<Rightarrow> go_error list
    \<Rightarrow> ((particle_kind \<rightharpoonup> 'w) \<times> particle_kind set \<times> go_error list) option" where
  "copyAll wr readers [] dst closedSet errs = Some (dst, closedSet, errs)"
| "copyAll wr readers (kind # ks) dst closedSet errs =
     (case dst kind of
        None \<Rightarrow> copyAll wr readers ks dst closedSet errs
      | Some w \<Rightarrow>
          (case copyBuffer inp_Read wr (readers kind) w of
             None \<Rightarrow> None
           | Some (r', w', n, err) \<Rightarrow>
               copyAll wr readers ks (dst(kind \<mapsto> w')) (insert kind closedSet)
                 (case err of None \<Rightarrow> errs | Some e \<Rightarrow> errs @ [e])))"

definition copyParticleStreams :: "'w writefn \<Rightarrow> (particle_kind \<Rightarrow> inp) \<Rightarrow> particle_kind list
    \<Rightarrow> (particle_kind \<rightharpoonup> 'w) \<Rightarrow> ((particle_kind \<rightharpoonup> 'w) \<times> particle_kind set \<times> go_error option) option" where
  "copyParticleStreams wr readers order dst =
     (case copyAll wr readers order dst {} [] of
        None \<Rightarrow> None
      | Some (dst', closedSet, errs) \<Rightarrow> Some (dst', closedSet, firstErr errs))"

definition discardWriters :: "particle_kind \<rightharpoonup> bytes" where
  "discardWriters = fold (\<lambda>kind out. out(kind \<mapsto> [])) particleKinds Map.empty"

definition receiveParticles :: "'w writefn \<Rightarrow> client_env \<Rightarrow> particle_kind list \<Rightarrow> (particle_kind \<rightharpoonup> 'w)
    \<Rightarrow> ((particle_kind \<rightharpoonup> 'w) \<times> particle_kind set \<times> go_error option) option" where
  "receiveParticles wr env order dst = copyParticleStreams wr (ceParticleIn env) order dst"

definition drainParticles :: "client_env \<Rightarrow> particle_kind list
    \<Rightarrow> ((particle_kind \<rightharpoonup> bytes) \<times> particle_kind set \<times> go_error option) option" where
  "drainParticles env order = receiveParticles discard_Write env order discardWriters"

section \<open>A split into memory\<close>

text \<open>The loop over the channel: \<open>order\<close> is the order in which the chunks arrive on it.\<close>

fun collectChunks :: "(particle_kind \<Rightarrow> inp) \<Rightarrow> (nat \<Rightarrow> nat) \<Rightarrow> particle_kind list \<Rightarrow> (particle_kind \<rightharpoonup> bytes)
    \<Rightarrow> (particle_kind \<rightharpoonup> bytes) result option" where
  "collectChunks readers room [] core = Some (Inr core)"
| "collectChunks readers room (kind # ks) core =
     (case readAll inp_Read room [] (readers kind) of
        None \<Rightarrow> None
      | Some (r', data, Some e) \<Rightarrow> Some (Inl e)
      | Some (r', data, None) \<Rightarrow> collectChunks readers room ks (core(kind \<mapsto> data)))"

text \<open>
  \<open>SplitSession\<close>: the session is closed on every return; the result carries whether the control
  connection and which data connections are still open and, once a session was opened, the document connection.
\<close>

record 't split_result =
  Particles :: "particle_kind \<rightharpoonup> bytes"
  SplitTrailer :: 't

definition splitSession :: "'t json_codec \<Rightarrow> client_config \<Rightarrow> bytes \<Rightarrow> client_env \<Rightarrow> (nat \<Rightarrow> nat)
    \<Rightarrow> particle_kind list \<Rightarrow> ((bool \<times> net_state) \<times> outp option \<times> 't split_result result) option" where
  "splitSession J cfg secret env room order =
     (case openPlainSession cfg ModeSplit (ceControl env) (ceDial env) noNet of
        (ctlOpen, st, Inl e) \<Rightarrow> Some ((ctlOpen, st), None, Inl e)
      | (ctlOpen, st, Inr sess) \<Rightarrow>
          (case outp_Write (the (csData sess ! 0)) secret of
             (w, n, Some e) \<Rightarrow> Some (sessionClose (ctlOpen, st), Some w, Inl e)
           | (w, n, None) \<Rightarrow>
               (case ceCloseErr env 0 of
                  Some e \<Rightarrow> Some (sessionClose (ctlOpen, st), Some w, Inl e)
                | None \<Rightarrow>
                    (case collectChunks (ceParticleIn env) room order Map.empty of
                       None \<Rightarrow> None
                     | Some (Inl e) \<Rightarrow> Some (sessionClose (ctlOpen, st), Some w, Inl e)
                     | Some (Inr core) \<Rightarrow>
                         (case sessionTrailer J sess of
                            Inl e \<Rightarrow> Some (sessionClose (ctlOpen, st), Some w, Inl e)
                          | Inr t \<Rightarrow> Some (sessionClose (ctlOpen, st), Some w, Inr \<lparr>Particles = core, SplitTrailer = t\<rparr>))))))"

section \<open>What is received\<close>

text \<open>\<open>order\<close> names the six streams, in whatever order they finish.\<close>

definition finishOrder :: "particle_kind list \<Rightarrow> bool" where
  "finishOrder order \<longleftrightarrow> sort order = particleKinds"

lemma particleKinds_sorted: "sorted particleKinds" "distinct particleKinds" "set particleKinds = all_kinds"
  by (auto simp: particleKinds_def less_eq_particle_kind_def all_kinds_def)

lemma finishOrder_iff: "finishOrder order \<longleftrightarrow> distinct order \<and> set order = all_kinds"
proof
  assume "finishOrder order"
  then have eq: "sort order = particleKinds" by (simp add: finishOrder_def)
  have "distinct order" using particleKinds_sorted(2) by (simp flip: eq)
  moreover have "set order = all_kinds" using particleKinds_sorted(3) by (simp flip: eq)
  ultimately show "distinct order \<and> set order = all_kinds" ..
next
  assume "distinct order \<and> set order = all_kinds"
  then have "distinct (sort order)" "set (sort order) = set particleKinds"
    by (simp_all add: particleKinds_sorted)
  then show "finishOrder order"
    unfolding finishOrder_def
    using sorted_distinct_set_unique [OF sorted_sort _ particleKinds_sorted(1,2)] by blast
qed

definition readErrors :: "(particle_kind \<Rightarrow> inp) \<Rightarrow> (particle_kind \<rightharpoonup> 'w) \<Rightarrow> particle_kind list \<Rightarrow> go_error list" where
  "readErrors readers dst order =
     map (\<lambda>k. inpEnd (readers k)) (filter (\<lambda>k. dst k \<noteq> None \<and> inpEnd (readers k) \<noteq> EOF) order)"

lemma readErrors_step:
  assumes "dst k = Some w" "k \<notin> set ks"
  shows "(case endError (inpEnd (readers k)) of None \<Rightarrow> errs | Some e \<Rightarrow> errs @ [e]) @ readErrors readers (dst(k \<mapsto> w')) ks =
    errs @ readErrors readers dst (k # ks)"
proof -
  have "filter (\<lambda>k'. (dst(k \<mapsto> w')) k' \<noteq> None \<and> inpEnd (readers k') \<noteq> EOF) ks =
      filter (\<lambda>k'. dst k' \<noteq> None \<and> inpEnd (readers k') \<noteq> EOF) ks"
    using assms(2) by (intro filter_cong) auto
  then show ?thesis using assms(1) by (auto simp: readErrors_def endError_def)
qed

lemma copyAll_spec:
  assumes "\<forall>k. wf_inp (readers k)"
  shows "distinct order \<Longrightarrow> \<forall>k \<in> set order. \<forall>w. dst k = Some w \<longrightarrow> length (inpContent (readers k)) \<le> quota w \<Longrightarrow>
    \<exists>dst'. copyAll outp_Write readers order dst closedSet errs =
      Some (dst', closedSet \<union> (set order \<inter> dom dst), errs @ readErrors readers dst order) \<and>
    (\<forall>k. k \<notin> set order \<or> dst k = None \<longrightarrow> dst' k = dst k) \<and>
    (\<forall>k w. k \<in> set order \<and> dst k = Some w \<longrightarrow>
       (\<exists>w'. dst' k = Some w' \<and> sent w' = sent w @ inpContent (readers k)))"
proof (induction order arbitrary: dst closedSet errs)
  case Nil
  then show ?case by (simp add: readErrors_def)
next
  case (Cons k ks)
  show ?case
  proof (cases "dst k")
    case None
    then have errs': "readErrors readers dst (k # ks) = readErrors readers dst ks"
      and dom': "set (k # ks) \<inter> dom dst = set ks \<inter> dom dst" by (auto simp: readErrors_def)
    from Cons.prems have "distinct ks"
      "\<forall>k \<in> set ks. \<forall>w. dst k = Some w \<longrightarrow> length (inpContent (readers k)) \<le> quota w" by simp_all
    from Cons.IH [OF this, of closedSet errs] None errs' dom' show ?thesis by auto
  next
    case (Some w)
    with Cons.prems(2) have "length (inpContent (readers k)) \<le> quota w" by simp
    with download.copyBuffer_spec [of "readers k" w] assms(1) obtain r' w' where cp:
      "copyBuffer inp_Read outp_Write (readers k) w =
         Some (r', w', length (inpContent (readers k)), endError (inpEnd (readers k)))"
      "sent w' = sent w @ inpContent (readers k)"
      by auto
    let ?dst = "dst(k \<mapsto> w')"
    let ?errs = "case endError (inpEnd (readers k)) of None \<Rightarrow> errs | Some e \<Rightarrow> errs @ [e]"
    have k: "k \<notin> set ks" "distinct ks" using Cons.prems(1) by auto
    then have "\<forall>k' \<in> set ks. \<forall>w''. ?dst k' = Some w'' \<longrightarrow> length (inpContent (readers k')) \<le> quota w''"
      using Cons.prems(2) by auto
    from Cons.IH [OF k(2) this, of "insert k closedSet" ?errs] obtain dst' where IH:
      "copyAll outp_Write readers ks ?dst (insert k closedSet) ?errs =
         Some (dst', insert k closedSet \<union> (set ks \<inter> dom ?dst), ?errs @ readErrors readers ?dst ks)"
      "\<forall>k'. k' \<notin> set ks \<or> ?dst k' = None \<longrightarrow> dst' k' = ?dst k'"
      "\<forall>k' w. k' \<in> set ks \<and> ?dst k' = Some w \<longrightarrow>
         (\<exists>w'. dst' k' = Some w' \<and> sent w' = sent w @ inpContent (readers k'))"
      by blast
    have "?errs @ readErrors readers ?dst ks = errs @ readErrors readers dst (k # ks)"
      using readErrors_step [where dst = dst and readers = readers and errs = errs and w' = w', OF Some k(1)] by simp
    moreover have "insert k closedSet \<union> (set ks \<inter> dom ?dst) = closedSet \<union> (set (k # ks) \<inter> dom dst)"
      using Some k(1) by auto
    moreover have "copyAll outp_Write readers (k # ks) dst closedSet errs =
        copyAll outp_Write readers ks ?dst (insert k closedSet) ?errs"
      using Some cp(1) by simp
    ultimately have eq: "copyAll outp_Write readers (k # ks) dst closedSet errs =
        Some (dst', closedSet \<union> (set (k # ks) \<inter> dom dst), errs @ readErrors readers dst (k # ks))"
      using IH(1) by simp
    have rest: "dst' k' = dst k'" if "k' \<notin> set (k # ks) \<or> dst k' = None" for k'
      using IH(2) that Some by (cases "k' = k") auto
    have got: "\<exists>w'. dst' k' = Some w' \<and> sent w' = sent v @ inpContent (readers k')"
      if "k' \<in> set (k # ks)" "dst k' = Some v" for k' v
      using IH(2,3) that Some k(1) cp(2) by (cases "k' = k") auto
    show ?thesis using eq rest got by blast
  qed
qed

text \<open>The same with writers that may fail: every stream is copied as far as its writer takes it.\<close>

definition copyErrors :: "(particle_kind \<Rightarrow> inp) \<Rightarrow> (particle_kind \<rightharpoonup> outp) \<Rightarrow> particle_kind list \<Rightarrow> go_error list" where
  "copyErrors readers dst order = List.map_filter (\<lambda>k. case dst k of None \<Rightarrow> None
     | Some w \<Rightarrow> copyError (inpContent (readers k)) (inpEnd (readers k)) w) order"

lemma copyErrors_Nil [simp]: "copyErrors readers dst [] = []"
  by (simp add: copyErrors_def List.map_filter_simps)

lemma copyErrors_Cons:
  "copyErrors readers dst (k # ks) =
    (case dst k of None \<Rightarrow> [] | Some w \<Rightarrow> (case copyError (inpContent (readers k)) (inpEnd (readers k)) w of
       None \<Rightarrow> [] | Some e \<Rightarrow> [e])) @ copyErrors readers dst ks"
  by (simp add: copyErrors_def List.map_filter_simps split: option.split)

lemma copyErrors_upd: "k \<notin> set ks \<Longrightarrow> copyErrors readers (dst(k \<mapsto> w)) ks = copyErrors readers dst ks"
  by (induction ks) (auto simp: copyErrors_Cons)

lemma copyErrors_empty:
  "copyErrors readers dst order = [] \<longleftrightarrow> (\<forall>k \<in> set order. \<forall>w. dst k = Some w \<longrightarrow>
     copyError (inpContent (readers k)) (inpEnd (readers k)) w = None)"
  by (induction order) (auto simp: copyErrors_Cons split: option.split)

lemma copyAll_outp:
  assumes "\<forall>k. wf_inp (readers k)"
  shows "distinct order \<Longrightarrow> copyAll outp_Write readers order dst closedSet errs =
    Some (\<lambda>k. if k \<in> set order then map_option (copied (inpContent (readers k))) (dst k) else dst k,
      closedSet \<union> (set order \<inter> dom dst), errs @ copyErrors readers dst order)"
proof (induction order arbitrary: dst closedSet errs)
  case (Cons k ks)
  then have k: "k \<notin> set ks" by simp
  show ?case
  proof (cases "dst k")
    case None
    then have "set (k # ks) \<inter> dom dst = set ks \<inter> dom dst" by auto
    with None Cons show ?thesis by (auto simp: copyErrors_Cons fun_eq_iff)
  next
    case (Some w)
    let ?e = "copyError (inpContent (readers k)) (inpEnd (readers k)) w"
    obtain r' m where "copyBuffer inp_Read outp_Write (readers k) w =
        Some (r', copied (inpContent (readers k)) w, m, ?e)"
      using inp.copyBuffer_outp [of "readers k" w] assms by blast
    then have "copyAll outp_Write readers (k # ks) dst closedSet errs =
        copyAll outp_Write readers ks (dst(k \<mapsto> copied (inpContent (readers k)) w)) (insert k closedSet)
          (case ?e of None \<Rightarrow> errs | Some e \<Rightarrow> errs @ [e])"
      using Some by simp
    moreover have "insert k closedSet \<union> (set ks \<inter> dom (dst(k \<mapsto> copied (inpContent (readers k)) w))) =
        closedSet \<union> (set (k # ks) \<inter> dom dst)"
      using Some k by auto
    moreover have "distinct ks" using Cons.prems by simp
    note Cons.IH [OF this, of "dst(k \<mapsto> copied (inpContent (readers k)) w)" "insert k closedSet"
        "case ?e of None \<Rightarrow> errs | Some e \<Rightarrow> errs @ [e]", unfolded copyErrors_upd [OF k]]
    moreover have "(\<lambda>j. if j \<in> set ks then map_option (copied (inpContent (readers j)))
          ((dst(k \<mapsto> copied (inpContent (readers k)) w)) j)
        else (dst(k \<mapsto> copied (inpContent (readers k)) w)) j) =
      (\<lambda>j. if j \<in> set (k # ks) then map_option (copied (inpContent (readers j))) (dst j) else dst j)"
      using Some k by auto
    ultimately show ?thesis
      using Some by (auto simp: copyErrors_Cons split: option.split)
  qed
qed simp

text \<open>A call returns, unless its error is one that no call returns with.\<close>

definition returns :: "'a result \<Rightarrow> bool" where
  "returns r \<longleftrightarrow> (\<forall>e. r = Inl e \<longrightarrow> \<not> endless e)"

lemma received_particles:
  assumes "finishOrder order" "\<forall>k. wf_inp (readers k)"
    and "\<forall>k w. dst k = Some w \<longrightarrow> k \<in> all_kinds \<and> length (inpContent (readers k)) \<le> quota w"
  shows "\<exists>dst' err. copyParticleStreams outp_Write readers order dst = Some (dst', dom dst, err) \<and>
    (\<forall>k. map_option sent (dst' k) = map_option (\<lambda>w. sent w @ inpContent (readers k)) (dst k)) \<and>
    (err = None \<longleftrightarrow> (\<forall>k \<in> dom dst. inpEnd (readers k) = EOF)) \<and>
    (\<forall>e. err = Some e \<longrightarrow> (\<exists>k \<in> dom dst. e = inpEnd (readers k)))"
proof -
  have order: "distinct order" "set order = all_kinds" using assms(1) by (auto simp: finishOrder_iff)
  have "\<forall>k \<in> set order. \<forall>w. dst k = Some w \<longrightarrow> length (inpContent (readers k)) \<le> quota w"
    using assms(3) by blast
  from copyAll_spec [OF assms(2) order(1) this, of "{}" "[]"] obtain dst' where c:
    "copyAll outp_Write readers order dst {} [] =
       Some (dst', {} \<union> (set order \<inter> dom dst), [] @ readErrors readers dst order)"
    "\<forall>k. k \<notin> set order \<or> dst k = None \<longrightarrow> dst' k = dst k"
    "\<forall>k w. k \<in> set order \<and> dst k = Some w \<longrightarrow>
       (\<exists>w'. dst' k = Some w' \<and> sent w' = sent w @ inpContent (readers k))"
    by blast
  have dom: "set order \<inter> dom dst = dom dst" using assms(3) order(2) by auto
  then have in_order: "k \<in> set order" if "dst k \<noteq> None" for k using that by auto
  have "map_option sent (dst' k) = map_option (\<lambda>w. sent w @ inpContent (readers k)) (dst k)" for k
    using c(2,3) in_order [of k] by (cases "dst k") (auto split: option.splits)
  moreover have "firstErr (readErrors readers dst order) = None \<longleftrightarrow> (\<forall>k \<in> dom dst. inpEnd (readers k) = EOF)"
  proof -
    have "(\<forall>k \<in> set order. \<not> (dst k \<noteq> None \<and> inpEnd (readers k) \<noteq> EOF)) \<longleftrightarrow>
        (\<forall>k \<in> dom dst. inpEnd (readers k) = EOF)"
      using in_order by blast
    then show ?thesis by (simp add: firstErr_None readErrors_def filter_empty_conv)
  qed
  moreover have "\<exists>k \<in> dom dst. e = inpEnd (readers k)" if "firstErr (readErrors readers dst order) = Some e" for e
  proof -
    have "e \<in> set (readErrors readers dst order)"
      using that by (auto simp: firstErr_def split: list.splits)
    then show ?thesis by (auto simp: readErrors_def)
  qed
  ultimately show ?thesis
    using c(1) dom by (auto simp: copyParticleStreams_def)
qed

lemma returns_Inr [simp]: "returns (Inr x)"
  by (simp add: returns_def)

lemma endError_endless: "endError e = Some x \<Longrightarrow> endless x \<longleftrightarrow> endless e"
  by (auto simp: endError_def split: if_splits)

lemma parseTrailerLength_returns: "returns (parseTrailerLength line)"
  by (auto simp: returns_def parseTrailerLength_def parseIntDecimal_def split: if_splits option.splits sum.splits)

lemma parseErrorLine_returns: "parseErrorLine line = Some e \<Longrightarrow> \<not> endless e"
  by (auto simp: parseErrorLine_def Let_def split: if_splits)

lemma readTrailerBody_returns:
  assumes "crOk b" "\<not> endless (crFinal b)" "\<And>d. returns (unmarshal J d)"
  shows "returns (readTrailerBody J b len)"
proof -
  obtain b' bs e where r: "readFull cr_Read (Suc (crGas b)) b (nat len) = (b', bs, e)"
    by (cases "readFull cr_Read (Suc (crGas b)) b (nat len)")
  have "\<not> endless x" if "e = Some x" for x
    using cr.readFull_spec(5,6) [OF assms(1) _ r] assms(2) that
    by (cases "nat len \<le> length (crContent b)") (auto split: if_splits)
  then show ?thesis
    using assms(3) r by (auto simp: returns_def readTrailerBody_def split: option.split sum.split)
qed

text \<open>Reading the trailer returns, if the connection does not stall.\<close>

lemma readTrailer_returns:
  assumes "live r" "\<And>d. returns (unmarshal J d)"
  shows "returns (readTrailer J r)"
proof -
  obtain b line e where br: "bufio_ReadString (newBufio r) = (b, line, e)"
    by (cases "bufio_ReadString (newBufio r)")
  have wf: "crOk (newBufio r)" "\<not> endless (crFinal (newBufio r))" using assms(1) by (simp_all add: live_def)
  show ?thesis
  proof (cases "newline \<in> set (crContent (newBufio r))")
    case True
    note line = bufio_ReadString_line [OF wf(1) True br]
    then have "returns (readTrailerBody J b len)" for len
      using readTrailerBody_returns [OF _ _ assms(2)] wf(2) by simp
    with line(2) show ?thesis
      using parseErrorLine_returns parseTrailerLength_returns [of line]
      by (auto simp: returns_def readTrailer_def readSessionLine_def br split: option.split sum.split)
  next
    case False
    from bufio_ReadString_end [OF wf(1) False br] wf(2) show ?thesis
      by (auto simp: returns_def readTrailer_def readSessionLine_def br)
  qed
qed


lemma collectChunks_spec:
  assumes "\<forall>k. wf_inp (readers k)" "\<And>n. 0 < room n"
  shows "collectChunks readers room order core = Some
    (case filter (\<lambda>k. inpEnd (readers k) \<noteq> EOF) order of
       k # ks \<Rightarrow> Inl (inpEnd (readers k))
     | [] \<Rightarrow> Inr (\<lambda>k. if k \<in> set order then Some (inpContent (readers k)) else core k))"
proof (induction order arbitrary: core)
  case Nil
  then show ?case by simp
next
  case (Cons k ks)
  from inp.readAll_spec [of room "readers k" "[]"] assms obtain r' where
    "readAll inp_Read room [] (readers k) = Some (r', inpContent (readers k), endError (inpEnd (readers k)))"
    by auto
  then show ?case
    using Cons.IH [of "core(k \<mapsto> inpContent (readers k))"]
    by (auto simp: endError_def fun_upd_def fun_eq_iff split: list.split)
qed

lemma openedSession_closes:
  assumes "openPlainSession cfg ModeSplit (ceControl env) (ceDial env) noNet = (ctlOpen, st, Inr sess)"
  shows "sessionClose (b, st) = (False, noNet)"
  using openSession_net [OF assms [unfolded openPlainSession_def]]
  by (auto simp: sessionClose_def closePorts_def closeAll_def noNet_def)

lemma find_filter: "find P xs = (case filter P xs of [] \<Rightarrow> None | x # _ \<Rightarrow> Some x)"
  by (induction xs) auto

lemma splitSession_outcome:
  assumes "set order = all_kinds" "\<forall>k. wf_inp (ceParticleIn env k)" "\<And>n. 0 < room n"
    and open': "openPlainSession cfg ModeSplit (ceControl env) (ceDial env) noNet = (ctlOpen, st, Inr sess)"
  shows "splitSession J cfg secret env room order = Some ((False, noNet), Some (copied secret (the (csData sess ! 0))),
    if quota (the (csData sess ! 0)) < length secret then Inl (outErr (the (csData sess ! 0)))
    else case ceCloseErr env 0 of
      Some e \<Rightarrow> Inl e
    | None \<Rightarrow>
        (case find (\<lambda>k. inpEnd (ceParticleIn env k) \<noteq> EOF) order of
           Some k \<Rightarrow> Inl (inpEnd (ceParticleIn env k))
         | None \<Rightarrow>
             (case readTrailer J (csIn sess) of
                Inl e \<Rightarrow> Inl e
              | Inr t \<Rightarrow> Inr \<lparr>Particles = \<lambda>k. if k \<in> all_kinds then Some (inpContent (ceParticleIn env k)) else None,
                  SplitTrailer = t\<rparr>)))"
  unfolding splitSession_def open' prod.case sum.case outp_Write_copied openedSession_closes [OF open']
    collectChunks_spec [OF assms(2,3)] find_filter
  by (auto simp: assms(1) split: option.split list.split sum.split)

text \<open>
  C37: a split into memory, once the session is open, over connections of which none stalls.  As
  much of the document is sent as its connection takes.  The result is the error of sending it;
  else of closing its connection; else of the first stream to finish that did not end in order;
  else what the trailer frame says, with the contents of the six streams.  So the order in which
  the streams finish matters only for which of several errors is returned.  Every connection is
  closed whatever happens.
\<close>

theorem split_session_result:
  assumes "finishOrder order" "\<forall>k. live (ceParticleIn env k)" "\<And>n. 0 < room n"
    and "openPlainSession cfg ModeSplit (ceControl env) (ceDial env) noNet = (ctlOpen, st, Inr sess)"
    and "returns (readTrailer J (csIn sess))"
  shows "\<exists>w. splitSession J cfg secret env room order = Some ((False, noNet), Some w,
      if quota (the (csData sess ! 0)) < length secret then Inl (outErr (the (csData sess ! 0)))
      else case ceCloseErr env 0 of
        Some e \<Rightarrow> Inl e
      | None \<Rightarrow>
          (case find (\<lambda>k. inpEnd (ceParticleIn env k) \<noteq> EOF) order of
             Some k \<Rightarrow> Inl (inpEnd (ceParticleIn env k))
           | None \<Rightarrow>
               (case readTrailer J (csIn sess) of
                  Inl e \<Rightarrow> Inl e
                | Inr t \<Rightarrow> Inr \<lparr>Particles = \<lambda>k. if k \<in> all_kinds then Some (inpContent (ceParticleIn env k)) else None,
                    SplitTrailer = t\<rparr>))) \<and>
    sent w = sent (the (csData sess ! 0)) @ take (quota (the (csData sess ! 0))) secret"
  using splitSession_outcome [OF _ _ assms(3,4), of order J secret] assms(1,2) live_wf
  by (simp add: finishOrder_iff)

section \<open>Concrete sessions\<close>

definition six :: "particle_kind list" where
  "six = [CypherParity, EvenNoise, OddCypher, EvenCypher, NoiseParity, OddNoise]"

lemma finishOrder_six: "finishOrder six"
  by (auto simp: finishOrder_iff six_def all_kinds_def)

definition sample_stream :: "bytes \<Rightarrow> go_error \<Rightarrow> inp" where
  "sample_stream bs e = \<lparr>chunks = [bs], inpEnd = e, early = False\<rparr>"

lemma sample_stream_simps [simp]:
  "bs \<noteq> [] \<Longrightarrow> wf_inp (sample_stream bs e)" "inpContent (sample_stream bs e) = bs"
  "inpEnd (sample_stream bs e) = e"
  by (simp_all add: sample_stream_def wf_inp_def inpContent_def)


definition sample_invitation_line :: invitation where
  "sample_invitation_line = \<lparr>invToken = ''T'', invMode = ModeSplit, invPorts = portsOf [1, 2, 3, 4, 5, 6, 7]\<rparr>"

definition sample_env_with :: "inp \<Rightarrow> client_env" where
  "sample_env_with s =
     \<lparr>ceControl = Inr (\<lparr>sent = [], quota = 99, outErr = EOF\<rparr>,
        sample_stream (formatInvitation sample_invitation_line) EOF),
      ceDial = (\<lambda>n. Inr \<lparr>sent = [], quota = 99, outErr = EOF\<rparr>), ceDataIn = (\<lambda>n. s), ceCloseErr = (\<lambda>n. None)\<rparr>"

lemma sample_env_streams:
  "ceDocIn (sample_env_with s) = s"
  "ceParticleIn (sample_env_with s) k = (if k \<in> all_kinds then s else noStream)"
  by (simp_all add: ceDocIn_def sample_env_with_def ceParticleIn_same)

lemma sample_readInvitation:
  "snd (readInvitation (sample_stream (formatInvitation sample_invitation_line) EOF)) = Inr sample_invitation_line"
proof -
  have "wf_inp (sample_stream (formatInvitation sample_invitation_line) EOF)"
    by (simp add: formatInvitation_def)
  moreover have "strFields ''T'' = [''T'']" by code_simp
  ultimately show ?thesis
    using readInvitation_formatted [of "sample_stream (formatInvitation sample_invitation_line) EOF"
        sample_invitation_line "[]"]
    by (simp add: sample_invitation_line_def portList_def portsOf_def is_int64_def)
qed

lemma sample_rest_live: "live (fst (readInvitation (sample_stream (formatInvitation sample_invitation_line) EOF)))"
proof -
  let ?r = "sample_stream (formatInvitation sample_invitation_line) EOF"
  have "fst (readInvitation ?r) = ?r\<lparr>chunks := []\<rparr>"
    by (rule readInvitation_rest [of ?r "[formatInvitation sample_invitation_line]" "[]" sample_invitation_line])
      (simp_all add: sample_stream_def wf_inp_def, simp_all add: formatInvitation_def sample_invitation_line_def)
  then show ?thesis by (simp add: live_def wf_inp_def sample_stream_def)
qed

theorem split_session_result_witness:
  "\<exists>w. splitSession \<lparr>marshal = Inr, unmarshal = Inr\<rparr> \<lparr>Host = ''h'', Port = 4567, Token = ''T''\<rparr> ''doc''
       (sample_env_with (sample_stream ''pay'' (OSError ''reset''))) (\<lambda>n. 512) six =
     Some ((False, noNet), Some w, Inl (OSError ''reset'')) \<and> sent w = ''Tdoc''"
proof -
  let ?env = "sample_env_with (sample_stream ''pay'' (OSError ''reset''))"
  let ?cfg = "\<lparr>Host = ''h'', Port = 4567, Token = ''T''\<rparr>"
  obtain w0 r0 where ctl: "ceControl ?env = Inr (w0, r0)" "quota w0 = 99"
      "r0 = sample_stream (formatInvitation sample_invitation_line) EOF"
    by (simp add: sample_env_with_def)
  have opened: "openPlainSession ?cfg ModeSplit (ceControl ?env) (ceDial ?env) noNet =
      (True, \<lparr>listeners = {}, conns = {0..<7}\<rparr>,
       Inr \<lparr>csOut = wroteTo w0 (clientHello ModeSplit noProfile), csIn = fst (readInvitation r0),
         csData = map (\<lambda>n. Some (wroteTo \<lparr>sent = [], quota = 99, outErr = EOF\<rparr> (invToken sample_invitation_line))) [0..<7]\<rparr>)"
    unfolding openPlainSession_def ctl(1)
    by (rule openSession_ok)
      (use ctl sample_readInvitation in
        \<open>simp_all add: clientHello_def ModeSplit_def ModeMerge_def sample_invitation_line_def sample_env_with_def\<close>)
  have live: "\<forall>k. live (ceParticleIn ?env k)"
    by (auto simp: sample_env_streams live_def noStream_def wf_inp_def sample_stream_def)
  have close: "ceCloseErr ?env 0 = None" by (simp add: sample_env_with_def)
  have first: "find (\<lambda>k. inpEnd (ceParticleIn ?env k) \<noteq> EOF) six = Some CypherParity"
    by (simp add: six_def sample_env_streams all_kinds_def)
  have "live (fst (readInvitation r0))" using sample_rest_live by (simp add: ctl(3))
  then have "returns (readTrailer \<lparr>marshal = Inr, unmarshal = Inr\<rparr> (fst (readInvitation r0)))"
    by (rule readTrailer_returns) simp
  with split_session_result [OF finishOrder_six live _ opened, of "\<lambda>n. 512" "\<lparr>marshal = Inr, unmarshal = Inr\<rparr>" "''doc''"]
  show ?thesis
    unfolding first close by (auto simp: sample_invitation_line_def upt_rec sample_env_streams all_kinds_def)
qed

end
