(* ===== verification/MergeFlow.thy ===== *)
theory MergeFlow
  imports UploadFiles Download
begin

text \<open>
  The merge session of a client (\<open>internal/client/merge.go\<close>): the plan, the session, the upload
  and the document, which run side by side and share nothing, and the trailer.  What the
  upload returns is the argument \<open>upload\<close>, a function of the plan: a value that a run of the
  step relation of theory \<open>Upload\<close> ends with.
\<close>

definition mergeSessionToWriter :: "'t json_codec \<Rightarrow> go_error option \<Rightarrow> inp \<Rightarrow> client_session \<Rightarrow> outp
    \<Rightarrow> (outp \<times> 't result) option" where
  "mergeSessionToWriter J uploadErr docIn sess out =
     (case copyBuffer inp_Read outp_Write docIn out of
        None \<Rightarrow> None
      | Some (docIn', out', n, copyErr) \<Rightarrow>
          Some (out',
            case uploadErr of
              Some e \<Rightarrow> Inl e
            | None \<Rightarrow> (case copyErr of Some e \<Rightarrow> Inl e | None \<Rightarrow> sessionTrailer J sess)))"

text \<open>The part from the opening of the session on, which \<open>MergeSession\<close> and \<open>MergeFromFiles\<close> share;
  the deferred \<open>sess.Close\<close> runs on every return.\<close>

definition runMergeSession :: "'t json_codec \<Rightarrow> client_config \<Rightarrow> merge_profile \<Rightarrow> client_env
    \<Rightarrow> go_error option \<Rightarrow> outp \<Rightarrow> ((bool \<times> net_state) \<times> outp \<times> 't result) option" where
  "runMergeSession J cfg profile env uploadErr out =
     (case openMergeSession cfg profile (ceControl env) (ceDial env) noNet of
        (ctlOpen, st, Inl e) \<Rightarrow> Some ((ctlOpen, st), out, Inl e)
      | (ctlOpen, st, Inr sess) \<Rightarrow>
          (case mergeSessionToWriter J uploadErr (ceDocIn env) sess out of
             None \<Rightarrow> None
           | Some (out', r) \<Rightarrow> Some (sessionClose (ctlOpen, st), out', r)))"

definition mergeSession :: "pcs_module \<Rightarrow> 't json_codec \<Rightarrow> client_config \<Rightarrow> client_env
    \<Rightarrow> (merge_send_plan \<Rightarrow> go_error option) \<Rightarrow> outp \<Rightarrow> (particle_kind \<rightharpoonup> bytes)
    \<Rightarrow> ((bool \<times> net_state) \<times> (bytes \<times> 't) result) option" where
  "mergeSession M J cfg env upload buffer core =
     (let profile = mergeProfileFromCore core in
      case mergeSendPlanFromCore M core (missingMap profile) of
        Inl e \<Rightarrow> Some ((False, noNet), Inl e)
      | Inr plan \<Rightarrow>
          (case runMergeSession J cfg profile env (upload plan) buffer of
             None \<Rightarrow> None
           | Some (st, secret, Inl e) \<Rightarrow> Some (st, Inl e)
           | Some (st, secret, Inr t) \<Rightarrow> Some (st, Inr (sent secret, t))))"

definition mergeFromFiles :: "pcs_module \<Rightarrow> 't json_codec \<Rightarrow> fs \<Rightarrow> client_config \<Rightarrow> client_env
    \<Rightarrow> (merge_send_plan \<Rightarrow> go_error option) \<Rightarrow> string \<Rightarrow> string \<Rightarrow> merge_profile \<Rightarrow> outp
    \<Rightarrow> ((bool \<times> net_state) \<times> outp \<times> 't result) option" where
  "mergeFromFiles M J f cfg env upload dir base profile out =
     (case scanInventory M f dir base of
        Inl e \<Rightarrow> Some ((False, noNet), out, Inl e)
      | Inr i \<Rightarrow>
          (case mergeSendPlanFrom M (Some (pcsInventory M i)) (missingMap profile) of
             Inl e \<Rightarrow> Some ((False, noNet), out, Inl e)
           | Inr plan \<Rightarrow> runMergeSession J cfg profile env (upload plan) out))"

text \<open>The two uploads of particles from disk over a session that is open already.\<close>

definition uploadMergeFromFiles :: "pcs_module \<Rightarrow> fs \<Rightarrow> (merge_send_plan \<Rightarrow> go_error option)
    \<Rightarrow> string \<Rightarrow> string \<Rightarrow> merge_profile \<Rightarrow> go_error option" where
  "uploadMergeFromFiles M f upload dir base profile =
     (case scanInventory M f dir base of
        Inl e \<Rightarrow> Some e
      | Inr i \<Rightarrow>
          (case mergeSendPlanFrom M (Some (pcsInventory M i)) (missingMap profile) of
             Inl e \<Rightarrow> Some e
           | Inr plan \<Rightarrow> upload plan))"

definition uploadParticlesStreaming :: "pcs_module \<Rightarrow> fs \<Rightarrow> (merge_send_plan \<Rightarrow> go_error option)
    \<Rightarrow> string \<Rightarrow> string \<Rightarrow> go_error option" where
  "uploadParticlesStreaming M f upload dir base =
     (case scanInventory M f dir base of
        Inl e \<Rightarrow> Some e
      | Inr i \<Rightarrow>
          (let profile = mergeProfileFromInventory M i in
           case mergeSendPlanFrom M (Some (pcsInventory M i)) (missingMap profile) of
             Inl e \<Rightarrow> Some e
           | Inr plan \<Rightarrow> upload plan))"

section \<open>What a merge returns\<close>

lemma mergeSessionToWriter_spec:
  assumes "wf_inp docIn" "length (inpContent docIn) \<le> quota out"
  shows "\<exists>out'. mergeSessionToWriter J uploadErr docIn sess out = Some (out',
      case uploadErr of
        Some e \<Rightarrow> Inl e
      | None \<Rightarrow> (case endError (inpEnd docIn) of Some e \<Rightarrow> Inl e | None \<Rightarrow> sessionTrailer J sess)) \<and>
    sent out' = sent out @ inpContent docIn"
proof -
  from download.copyBuffer_spec [OF assms(1), of out] assms(2) obtain r' w' where
    "copyBuffer inp_Read outp_Write docIn out =
       Some (r', w', length (inpContent docIn), endError (inpEnd docIn))"
    "sent w' = sent out @ inpContent docIn"
    by auto
  then show ?thesis by (simp add: mergeSessionToWriter_def)
qed

lemma closePorts_opened:
  "openMergeSession cfg profile c d noNet = (ctlOpen, st, Inr sess) \<Longrightarrow> sessionClose (ctlOpen, st) = (False, noNet)"
  using openSession_net [of cfg ModeMerge profile c d ctlOpen st sess]
  by (auto simp: openMergeSession_def sessionClose_def closePorts_def closeAll_def noNet_def)

text \<open>
  The outcome of a merge from files once its session is open.  The output gets every byte of
  the document connection, whether the merge succeeds or not; the error of the upload comes
  before that of the document, and the trailer or error frame of the server is read only when
  both went well.  No connection stays open.
\<close>

theorem merge_outcome:
  assumes "scanInventory M f dir base = Inr i"
    and "mergeSendPlanFrom M (Some (pcsInventory M i)) (missingMap profile) = Inr plan"
    and "openMergeSession cfg profile (ceControl env) (ceDial env) noNet = (ctlOpen, st, Inr sess)"
    and "wf_inp (ceDocIn env)" "length (inpContent (ceDocIn env)) \<le> quota out"
  shows "\<exists>out'. mergeFromFiles M J f cfg env upload dir base profile out = Some ((False, noNet), out',
      case upload plan of
        Some e \<Rightarrow> Inl e
      | None \<Rightarrow> (case endError (inpEnd (ceDocIn env)) of
            Some e \<Rightarrow> Inl e
          | None \<Rightarrow> readTrailer J (csIn sess))) \<and>
    sent out' = sent out @ inpContent (ceDocIn env)"
  using mergeSessionToWriter_spec [OF assms(4,5), of J "upload plan" sess, unfolded sessionTrailer_def]
    closePorts_opened [OF assms(3)] assms(1-3)
  by (auto simp: mergeFromFiles_def runMergeSession_def)

text \<open>A merge of a complete store, over a session whose document is cut off.\<close>

definition complete_store :: fs where
  "complete_store = (\<lambda>path. Inr (Dir 64))"

lemma complete_scan:
  obtains i where "scanInventory sample_module complete_store dir base = Inr i"
    "\<And>k. mget (Present i) k \<longleftrightarrow> k \<in> all_kinds"
proof -
  have "\<forall>s \<in> set (storageDirs sample_module). folderOk complete_store (pathJoin [dir, s])"
    "\<forall>k \<in> all_kinds. statOk complete_store (particlePath sample_module dir base k)"
    by (simp_all add: folderOk_def statOk_def complete_store_def)
  from scanInventory_found [OF sample_module_contract this] that show ?thesis
    by (auto simp: isThere_def complete_store_def)
qed

lemma no_missing: "\<not> mget (missingMap \<lparr>MissingMask = 0\<rparr>) k"
  by (cases k) (simp_all add: mget_missingMap)

lemma sample_merge_plan:
  assumes "\<And>k. mget (Present i) k \<longleftrightarrow> k \<in> all_kinds"
  obtains plan where
    "mergeSendPlanFrom sample_module (Some (pcsInventory sample_module i)) (missingMap \<lparr>MissingMask = 0\<rparr>) = Inr plan"
proof -
  have "\<forall>k \<in> core_kinds. mget (pcsInventory sample_module i) k"
    using assms by (auto simp: pcsInventory_def sample_module_def core_kinds_def all_kinds_def)
  then show ?thesis
    using mergeSendPlanFrom_ok [OF sample_module_contract] no_missing that by blast
qed

lemma sample_open_merge:
  "openMergeSession \<lparr>Host = ''h'', Port = 4567, Token = ''T''\<rparr> \<lparr>MissingMask = 0\<rparr>
     (ceControl (sample_env_with s)) (ceDial (sample_env_with s)) noNet =
   (True, \<lparr>listeners = {}, conns = {0..<7}\<rparr>,
    Inr \<lparr>csOut = wroteTo \<lparr>sent = [], quota = 99, outErr = EOF\<rparr> (clientHello ModeMerge \<lparr>MissingMask = 0\<rparr>),
      csIn = fst (readInvitation (sample_stream (formatInvitation sample_invitation_line) EOF)),
      csData = map (\<lambda>n. Some (wroteTo \<lparr>sent = [], quota = 99, outErr = EOF\<rparr> ''T'')) [0..<7]\<rparr>)"
proof -
  have "length (clientHello ModeMerge \<lparr>MissingMask = 0\<rparr>) \<le> 99"
    by (simp add: clientHello_def ModeMerge_def formatProfileLine_def go_text)
  moreover have "invToken sample_invitation_line = ''T''" by (simp add: sample_invitation_line_def)
  ultimately show ?thesis
    using openSession_ok [of ModeMerge "\<lparr>MissingMask = 0\<rparr>" "\<lparr>sent = [], quota = 99, outErr = EOF\<rparr>"
        "sample_stream (formatInvitation sample_invitation_line) EOF" sample_invitation_line
        "\<lparr>Host = ''h'', Port = 4567, Token = ''T''\<rparr>" "ceDial (sample_env_with s)"
        "\<lambda>n. \<lparr>sent = [], quota = 99, outErr = EOF\<rparr>"] sample_readInvitation
    by (simp add: openMergeSession_def sample_env_with_def)
qed

theorem merge_outcome_witness:
  "\<exists>out'. mergeFromFiles sample_module \<lparr>marshal = Inr, unmarshal = Inr\<rparr> complete_store
       \<lparr>Host = ''h'', Port = 4567, Token = ''T''\<rparr> (sample_env_with (sample_stream ''half'' (OSError ''reset'')))
       (\<lambda>plan. None) ''d'' ''b'' \<lparr>MissingMask = 0\<rparr> \<lparr>sent = [], quota = 9, outErr = EOF\<rparr>
     = Some ((False, noNet), out', Inl (OSError ''reset'')) \<and> sent out' = ''half''"
proof -
  let ?env = "sample_env_with (sample_stream ''half'' (OSError ''reset''))"
  obtain i where i: "scanInventory sample_module complete_store ''d'' ''b'' = Inr i"
      "\<And>k. mget (Present i) k \<longleftrightarrow> k \<in> all_kinds"
    using complete_scan by blast
  obtain plan where plan:
    "mergeSendPlanFrom sample_module (Some (pcsInventory sample_module i)) (missingMap \<lparr>MissingMask = 0\<rparr>) = Inr plan"
    using sample_merge_plan [OF i(2)] by blast
  have doc: "ceDocIn ?env = sample_stream ''half'' (OSError ''reset'')" by (simp add: sample_env_streams)
  show ?thesis
    using merge_outcome [OF i(1) plan sample_open_merge, of "sample_stream ''half'' (OSError ''reset'')"
        "\<lparr>sent = [], quota = 9, outErr = EOF\<rparr>" "\<lparr>marshal = Inr, unmarshal = Inr\<rparr>" "\<lambda>plan. None"]
    by (simp add: doc endError_def)
qed

end
