(* ===== verification/GoFlag.thy ===== *)
theory GoFlag
  imports GoText
begin

text \<open>
  Go's \<open>strconv.ParseInt\<close> for the bases 0 and 10, and the command line of the package
  \<open>flag\<close>, which the server and the two clients parse their arguments with.
\<close>

section \<open>\<open>strconv.ParseInt\<close>\<close>

text \<open>
  Base 0: a prefix chooses the base, a leading zero alone means octal, and underscores may
  separate digits.
\<close>

definition basePrefix :: "string \<Rightarrow> nat \<times> string" where
  "basePrefix s =
     (case s of
        z # b # c # r \<Rightarrow>
          if z \<noteq> CHR ''0'' then (10, s)
          else if b = CHR ''b'' \<or> b = CHR ''B'' then (2, c # r)
          else if b = CHR ''o'' \<or> b = CHR ''O'' then (8, c # r)
          else if b = CHR ''x'' \<or> b = CHR ''X'' then (16, c # r)
          else (8, b # c # r)
      | z # r \<Rightarrow> if z = CHR ''0'' then (8, r) else (10, s)
      | [] \<Rightarrow> (10, s))"

text \<open>\<open>underscoreOK\<close>: what was seen last is a digit, an underscore, or something else.\<close>

datatype saw = SawStart | SawDigit | SawUnderscore | SawOther

fun underscoreLoop :: "bool \<Rightarrow> saw \<Rightarrow> string \<Rightarrow> bool" where
  "underscoreLoop hex sw [] \<longleftrightarrow> sw \<noteq> SawUnderscore"
| "underscoreLoop hex sw (c # cs) \<longleftrightarrow>
     (if (case digitVal c of Some d \<Rightarrow> d < 10 \<or> hex \<and> d < 16 | None \<Rightarrow> False)
      then underscoreLoop hex SawDigit cs
      else if c = CHR ''_'' then sw = SawDigit \<and> underscoreLoop hex SawUnderscore cs
      else sw \<noteq> SawUnderscore \<and> underscoreLoop hex SawOther cs)"

definition underscoreOK :: "string \<Rightarrow> bool" where
  "underscoreOK s =
     (case s of
        z # b # r \<Rightarrow>
          if z = CHR ''0'' \<and> b \<in> {CHR ''b'', CHR ''B'', CHR ''o'', CHR ''O'', CHR ''x'', CHR ''X''}
          then underscoreLoop (b = CHR ''x'' \<or> b = CHR ''X'') SawDigit r
          else underscoreLoop False SawStart s
      | _ \<Rightarrow> underscoreLoop False SawStart s)"

text \<open>\<open>ParseUint\<close> for 64 bits, after the sign.\<close>

definition uintDigits :: "nat \<Rightarrow> string \<Rightarrow> num_error + nat" where
  "uintDigits base s =
     (if s = [] then Inl ErrSyntax
      else if base \<noteq> 0 then parseDigits base (2 ^ 64 - 1) 0 s
      else case basePrefix s of (b, ds) \<Rightarrow>
        (case parseDigits b (2 ^ 64 - 1) 0 (filter (\<lambda>c. c \<noteq> CHR ''_'') ds) of
           Inl e \<Rightarrow> Inl e
         | Inr n \<Rightarrow> if CHR ''_'' \<in> set ds \<and> \<not> underscoreOK s then Inl ErrSyntax else Inr n))"

definition parseInt :: "nat \<Rightarrow> string \<Rightarrow> num_error + int" where
  "parseInt base s =
     (case atoiSign s of (neg, ds) \<Rightarrow>
        (case uintDigits base ds of
           Inl e \<Rightarrow> Inl e
         | Inr n \<Rightarrow>
             if \<not> neg \<and> 2 ^ 63 \<le> n \<or> neg \<and> 2 ^ 63 < n then Inl ErrRange
             else Inr (if neg then - int n else int n)))"

lemma parseInt_is_int64: "parseInt base s = Inr x \<Longrightarrow> is_int64 x"
  by (auto simp: parseInt_def is_int64_def split: prod.splits sum.splits if_splits)

lemma atoi_is_int64: "atoi s = Inr x \<Longrightarrow> is_int64 x"
  by (auto simp: atoi_def is_int64_def split: prod.splits sum.splits if_splits)

lemma parseDigits_zeros:
  "2 \<le> base \<Longrightarrow> parseDigits base m 0 (CHR ''0'' # s) = parseDigits base m 0 s"
  by (simp add: digitVal_def)

text \<open>The same text in the two bases: decimal digits behind a zero.\<close>

lemma parseInt_leading_zero:
  assumes "n < 2 ^ 63"
  shows "parseInt 10 (CHR ''0'' # fmtNat 10 n) = Inr (int n)"
    and "parseInt 0 (CHR ''0'' # fmtNat 8 n) = Inr (int n)"
proof -
  have "n \<le> 2 ^ 64 - 1" using assms by simp
  then have p: "parseDigits b (2 ^ 64 - 1) 0 (fmtNat b n) = Inr n" if "b = 8 \<or> b = 10" for b
    using that by (intro parseDigits_fmtNat) auto
  have digits: "c \<notin> set (fmtNat 8 n)"
    if "c \<in> {CHR ''_'', CHR ''b'', CHR ''B'', CHR ''o'', CHR ''O'', CHR ''x'', CHR ''X''}" for c
  proof
    assume "c \<in> set (fmtNat 8 n)"
    then obtain d where "d < 8" "c = hexDigit d" using fmtNat_digits [of 8 c n] by auto
    then have "code c < 56" by (simp add: hexDigit_def)
    with that show False by auto
  qed
  then have "filter (\<lambda>c. c \<noteq> CHR ''_'') (fmtNat 8 n) = fmtNat 8 n" "CHR ''_'' \<notin> set (fmtNat 8 n)"
    by (auto simp: filter_id_conv)
  moreover have "basePrefix (CHR ''0'' # fmtNat 8 n) = (8, fmtNat 8 n)"
  proof -
    obtain c cs where "fmtNat 8 n = c # cs" by (cases "fmtNat 8 n") auto
    moreover have "c \<noteq> CHR ''b'' \<and> c \<noteq> CHR ''B'' \<and> c \<noteq> CHR ''o'' \<and> c \<noteq> CHR ''O'' \<and> c \<noteq> CHR ''x'' \<and> c \<noteq> CHR ''X''"
      using digits [of c] calculation by fastforce
    ultimately show ?thesis by (cases cs) (simp_all add: basePrefix_def)
  qed
  ultimately show "parseInt 0 (CHR ''0'' # fmtNat 8 n) = Inr (int n)"
    using assms p by (simp add: parseInt_def atoiSign_def uintDigits_def)
  show "parseInt 10 (CHR ''0'' # fmtNat 10 n) = Inr (int n)"
    using assms p by (simp add: parseInt_def atoiSign_def uintDigits_def parseDigits_zeros del: parseDigits.simps)
qed

section \<open>\<open>flag.FlagSet.Parse\<close>\<close>

text \<open>How one argument is read: not a flag (which ends the flags), a flag that is malformed,
  or a name with perhaps a value behind an equals sign.\<close>

datatype flag_arg = NotFlag | BadFlag | FlagArg string "string option"

definition splitFlag :: "string \<Rightarrow> flag_arg" where
  "splitFlag s =
     (if length s < 2 \<or> hd s \<noteq> CHR ''-'' \<or> s = ''--'' then NotFlag
      else
        let name = (if s ! 1 = CHR ''-'' then drop 2 s else drop 1 s) in
        if name = [] \<or> hd name = CHR ''-'' \<or> hd name = CHR ''='' then BadFlag
        else let key = takeWhile (\<lambda>c. c \<noteq> CHR ''='') name in
          if length key < length name then FlagArg key (Some (drop (length key + 1) name))
          else FlagArg name None)"

text \<open>
  The loop of \<open>Parse\<close> over a set of flags that all take a value: \<open>flags name value c\<close> is \<open>None\<close>
  for a name that is not defined, and otherwise the settings with that flag set or the error
  of the flag's \<open>Set\<close> method.
\<close>

type_synonym 'c flag_set = "string \<Rightarrow> string \<Rightarrow> 'c \<Rightarrow> 'c result option"

definition errHelp :: go_error where
  "errHelp = Errorf ''flag: help requested''"

definition applyFlag :: "'c flag_set \<Rightarrow> string \<Rightarrow> string \<Rightarrow> 'c \<Rightarrow> 'c result" where
  "applyFlag flags name value c =
     (case flags name value c of
        None \<Rightarrow> Inl (Errorf (''flag provided but not defined: -'' @ name))
      | Some (Inl e) \<Rightarrow>
          Inl (Quotef ''invalid value '' value ('' for flag -'' @ name @ '': '' @ errMsg e))
      | Some (Inr c') \<Rightarrow> Inr c')"

text \<open>\<open>parseOne\<close>: no flag left, or the remaining arguments and the new settings.\<close>

definition parseOne :: "'c flag_set \<Rightarrow> string list \<Rightarrow> 'c \<Rightarrow> (string list \<times> 'c) option result" where
  "parseOne flags args c =
     (case args of
        [] \<Rightarrow> Inr None
      | s # rest \<Rightarrow>
          (case splitFlag s of
             NotFlag \<Rightarrow> Inr None
           | BadFlag \<Rightarrow> Inl (Errorf (''bad flag syntax: '' @ s))
           | FlagArg name v \<Rightarrow>
               if flags name [] c = None
               then Inl (if name = ''help'' \<or> name = ''h'' then errHelp
                         else Errorf (''flag provided but not defined: -'' @ name))
               else
                 (case (case v of
                          Some value \<Rightarrow> Some (value, rest)
                        | None \<Rightarrow> (case rest of [] \<Rightarrow> None | value # rest' \<Rightarrow> Some (value, rest'))) of
                    None \<Rightarrow> Inl (Errorf (''flag needs an argument: -'' @ name))
                  | Some (value, args') \<Rightarrow>
                      (case applyFlag flags name value c of
                         Inl e \<Rightarrow> Inl e
                       | Inr c' \<Rightarrow> Inr (Some (args', c'))))))"

lemma parseOne_shorter: "parseOne flags args c = Inr (Some (args', c')) \<Longrightarrow> length args' < length args"
  by (auto simp: parseOne_def split: list.splits flag_arg.splits if_splits option.splits sum.splits)

lemma parseOne_sets:
  "parseOne flags args c = Inr (Some (args', c')) \<Longrightarrow> \<exists>name v. flags name v c = Some (Inr c')"
  by (auto simp: parseOne_def applyFlag_def split: list.splits flag_arg.splits if_splits option.splits sum.splits) blast+

function parseArgs :: "'c flag_set \<Rightarrow> string list \<Rightarrow> 'c \<Rightarrow> 'c result" where
  "parseArgs flags args c =
     (case parseOne flags args c of
        Inl e \<Rightarrow> Inl e
      | Inr None \<Rightarrow> Inr c
      | Inr (Some (args', c')) \<Rightarrow> parseArgs flags args' c')"
  by pat_completeness auto
termination by (relation "measure (\<lambda>(_, args, _). length args)") (auto dest: parseOne_shorter)

declare parseArgs.simps [simp del]

text \<open>The \<open>Set\<close> methods of integer flags print only what kind of error it was.\<close>

definition flagError :: "num_error \<Rightarrow> go_error" where
  "flagError e = Errorf (case e of ErrSyntax \<Rightarrow> ''parse error'' | ErrRange \<Rightarrow> ''value out of range'')"

definition intFlag :: "(int \<Rightarrow> 'c) \<Rightarrow> string \<Rightarrow> 'c result" where
  "intFlag put s = (case parseInt 0 s of Inl e \<Rightarrow> Inl (flagError e) | Inr n \<Rightarrow> Inr (put n))"

text \<open>What every flag keeps, the whole command line keeps.\<close>

lemma parseArgs_invariant:
  assumes step: "\<And>name v c c'. flags name v c = Some (Inr c') \<Longrightarrow> P c \<Longrightarrow> P c'"
  shows "parseArgs flags args c = Inr c' \<Longrightarrow> P c \<Longrightarrow> P c'"
proof (induction args arbitrary: c rule: length_induct)
  case (1 args)
  show ?case
  proof (cases "parseOne flags args c")
    case (Inl e)
    with "1.prems" show ?thesis by (simp add: parseArgs.simps [of flags args])
  next
    case (Inr r)
    show ?thesis
    proof (cases r)
      case None
      with Inr "1.prems" show ?thesis by (simp add: parseArgs.simps [of flags args])
    next
      case (Some ac)
      then obtain args' c1 where one: "parseOne flags args c = Inr (Some (args', c1))"
        using Inr by (cases ac) auto
      then have "P c1" using parseOne_sets [OF one] step "1.prems"(2) by blast
      moreover have "parseArgs flags args' c1 = Inr c'"
        using "1.prems"(1) one by (simp add: parseArgs.simps [of flags args])
      ultimately show ?thesis using "1.IH" parseOne_shorter [OF one] by blast
    qed
  qed
qed

text \<open>Everything behind the first argument that is not a flag is ignored.\<close>

lemma parseArgs_operand:
  "splitFlag s = NotFlag \<Longrightarrow> parseArgs flags (s # args) c = Inr c"
  by (simp add: parseArgs.simps [of flags "s # args"] parseOne_def)

lemma parseArgs_Nil: "parseArgs flags [] c = Inr c"
  by (simp add: parseArgs.simps [of flags "[]"] parseOne_def)

text \<open>A flag written \<open>-name=value\<close>.\<close>

lemma parseArgs_flag:
  assumes "name \<noteq> []" "CHR ''='' \<notin> set name" "CHR ''-'' \<noteq> hd name"
    and "flags name [] c \<noteq> None" "flags name v c = Some (Inr c')"
  shows "parseArgs flags ((CHR ''-'' # name @ CHR ''='' # v) # args) c = parseArgs flags args c'"
proof -
  obtain x xs where name: "name = x # xs" using assms(1) by (cases name) auto
  have key: "takeWhile (\<lambda>c. c \<noteq> CHR ''='') (name @ CHR ''='' # v) = name"
    using assms(2) by (subst takeWhile_append2) auto
  have "splitFlag (CHR ''-'' # name @ CHR ''='' # v) = FlagArg name (Some v)"
    using assms(2,3) key unfolding splitFlag_def Let_def by (auto simp: name)
  then show ?thesis
    using assms(4,5) by (subst parseArgs.simps) (auto simp: parseOne_def applyFlag_def)
qed

end
