(* ===== verification/TrailerData.thy ===== *)
theory TrailerData
  imports Frames "HOL-Library.Multiset"
begin

text \<open>
  The fields of a session trailer (\<open>internal/protocol/trailer.go\<close>): how the server fills them
  from the metadata of the stream encoder or decoder, and how a client checks the footers in
  them.  The module \<open>footer\<close> of the shared repository is the parameter \<open>footer_module\<close>; the
  text encodings of the standard library are modelled here.
\<close>

section \<open>Hexadecimal and base64 text\<close>

definition hexEncode :: "bytes \<Rightarrow> string" where
  "hexEncode bs = concat (map (\<lambda>c. [hexDigit (code c div 16), hexDigit (code c mod 16)]) bs)"

text \<open>\<open>%016x\<close>.\<close>

definition fmtHex16 :: "nat \<Rightarrow> string" where
  "fmtHex16 n = (let s = fmtNat 16 n in replicate (16 - length s) (CHR ''0'') @ s)"

definition b64Char :: "nat \<Rightarrow> char" where
  "b64Char n =
     (if n < 26 then char_of (65 + n) else if n < 52 then char_of (71 + n)
      else if n < 62 then char_of (n - 4) else if n = 62 then CHR ''+'' else CHR ''/'')"

definition b64Val :: "char \<Rightarrow> nat option" where
  "b64Val c =
     (let n = code c in
      if 65 \<le> n \<and> n \<le> 90 then Some (n - 65)
      else if 97 \<le> n \<and> n \<le> 122 then Some (n - 71)
      else if 48 \<le> n \<and> n \<le> 57 then Some (n + 4)
      else if c = CHR ''+'' then Some 62
      else if c = CHR ''/'' then Some 63
      else None)"

fun b64Encode :: "bytes \<Rightarrow> string" where
  "b64Encode [] = []"
| "b64Encode [a] = [b64Char (code a div 4), b64Char (code a mod 4 * 16), CHR ''='', CHR ''='']"
| "b64Encode [a, b] =
     [b64Char (code a div 4), b64Char (code a mod 4 * 16 + code b div 16),
      b64Char (code b mod 16 * 4), CHR ''='']"
| "b64Encode (a # b # c # rest) =
     [b64Char (code a div 4), b64Char (code a mod 4 * 16 + code b div 16),
      b64Char (code b mod 16 * 4 + code c div 64), b64Char (code c mod 64)] @ b64Encode rest"

text \<open>
  \<open>decodeQuantum\<close>: four characters, or fewer and the padding.  \<open>vs\<close> are the values read so
  far, \<open>tot\<close> the length of the whole text, from which the offset in an error is computed.
\<close>

definition corruptInput :: "nat \<Rightarrow> go_error" where
  "corruptInput off = OSError (''illegal base64 data at input byte '' @ fmtNat 10 off)"

definition lineBreak :: "char \<Rightarrow> bool" where
  "lineBreak c \<longleftrightarrow> c = CHR 0x0A \<or> c = CHR 0x0D"

abbreviation skipBreaks :: "string \<Rightarrow> string" where
  "skipBreaks s \<equiv> dropWhile lineBreak s"

fun quantumBytes :: "nat list \<Rightarrow> bytes" where
  "quantumBytes [u, v] = [char_of (u * 4 + v div 16)]"
| "quantumBytes [u, v, w] = [char_of (u * 4 + v div 16), char_of (v mod 16 * 16 + w div 4)]"
| "quantumBytes [u, v, w, x] =
     [char_of (u * 4 + v div 16), char_of (v mod 16 * 16 + w div 4), char_of (w mod 4 * 64 + x)]"
| "quantumBytes _ = []"

definition b64Finish :: "nat \<Rightarrow> nat list \<Rightarrow> string \<Rightarrow> (bytes \<times> string) result" where
  "b64Finish tot vs rest =
     (if rest \<noteq> [] then Inl (corruptInput (tot - length rest)) else Inr (quantumBytes vs, []))"

fun b64Quantum :: "nat \<Rightarrow> nat list \<Rightarrow> string \<Rightarrow> (bytes \<times> string) result" where
  "b64Quantum tot vs [] = (if vs = [] then Inr ([], []) else Inl (corruptInput (tot - length vs)))"
| "b64Quantum tot vs (c # cs) =
     (case b64Val c of
        Some v \<Rightarrow>
          if length vs = 3 then Inr (quantumBytes (vs @ [v]), cs) else b64Quantum tot (vs @ [v]) cs
      | None \<Rightarrow>
          if lineBreak c then b64Quantum tot vs cs
          else if c \<noteq> CHR ''='' then Inl (corruptInput (tot - length cs - 1))
          else if length vs < 2 then Inl (corruptInput (tot - length cs - 1))
          else if length vs = 2
          then (case skipBreaks cs of
                  [] \<Rightarrow> Inl (corruptInput tot)
                | d # ds \<Rightarrow>
                    if d \<noteq> CHR ''='' then Inl (corruptInput (tot - length (d # ds) - 1))
                    else b64Finish tot vs (skipBreaks ds))
          else b64Finish tot vs (skipBreaks cs))"

lemma b64Quantum_consumes:
  "b64Quantum tot vs s = Inr (bs, rest) \<Longrightarrow> s \<noteq> [] \<Longrightarrow> length rest < length s"
proof (induction tot vs s rule: b64Quantum.induct)
  case (2 tot vs c cs)
  show ?case
  proof (cases "cs = []")
    case True
    with "2.prems" show ?thesis
      by (auto simp: b64Finish_def split: option.splits if_splits)
  next
    case False
    with 2 show ?thesis
      by (auto simp: b64Finish_def split: option.splits if_splits list.splits)
  qed
qed simp

function b64Loop :: "nat \<Rightarrow> string \<Rightarrow> bytes result" where
  "b64Loop tot s =
     (if s = [] then Inr []
      else case b64Quantum tot [] s of
        Inl e \<Rightarrow> Inl e
      | Inr (bs, rest) \<Rightarrow> (case b64Loop tot rest of Inl e \<Rightarrow> Inl e | Inr rem \<Rightarrow> Inr (bs @ rem)))"
  by pat_completeness auto
termination by (relation "measure (length \<circ> snd)") (auto dest: b64Quantum_consumes)

declare b64Loop.simps [simp del]

definition b64Decode :: "string \<Rightarrow> bytes result" where
  "b64Decode s = b64Loop (length s) s"

lemma b64Val_Char:
  assumes "n < 64"
  shows "b64Val (b64Char n) = Some n"
proof -
  consider "n < 26" | "26 \<le> n" "n < 52" | "52 \<le> n" "n < 62" | "n = 62" | "n = 63"
    using assms by linarith
  then show ?thesis
    by cases (auto simp: b64Char_def b64Val_def Let_def)
qed

lemma code_less: "code c < 256"
  using of_char_mod_256 [where 'a = nat, of c] by (metis mod_less_divisor zero_less_numeral)

lemma b64Loop_Nil [simp]: "b64Loop tot [] = Inr []"
  by (subst b64Loop.simps) simp

lemma char_of_code: "char_of (code c) = c"
  by simp

lemma pad_values: "b64Val (CHR ''='') = None" "lineBreak (CHR ''='') = False"
  by (simp_all add: b64Val_def lineBreak_def)

lemma split_digit: "r < k \<Longrightarrow> (q * k + r) div k = q" "r < k \<Longrightarrow> (q * k + r) mod k = r" for k :: nat
  by simp_all

lemma sextets:
  assumes "a < 256" "b < 256" "c < (256 :: nat)"
  shows "a div 4 < 64" "a mod 4 * 16 + b div 16 < 64" "b mod 16 * 4 + c div 64 < 64" "c mod 64 < 64"
    and "a div 4 * 4 + (a mod 4 * 16 + b div 16) div 16 = a"
    and "(a mod 4 * 16 + b div 16) mod 16 * 16 + (b mod 16 * 4 + c div 64) div 4 = b"
    and "(b mod 16 * 4 + c div 64) mod 4 * 64 + c mod 64 = c"
proof -
  have d: "a div 4 < 64" "b div 16 < 16" "c div 64 < 4" using assms by (simp_all add: div_less_iff_less_mult)
  have m: "a mod 4 < 4" "b mod 16 < 16" "c mod 64 < 64" by simp_all
  show "a div 4 < 64" "c mod 64 < 64" by (fact d m)+
  show "a mod 4 * 16 + b div 16 < 64" "b mod 16 * 4 + c div 64 < 64" using d m by linarith+
  show "a div 4 * 4 + (a mod 4 * 16 + b div 16) div 16 = a"
    unfolding split_digit(1) [OF d(2)] by simp
  show "(a mod 4 * 16 + b div 16) mod 16 * 16 + (b mod 16 * 4 + c div 64) div 4 = b"
    unfolding split_digit(1) [OF d(3)] split_digit(2) [OF d(2)] by simp
  show "(b mod 16 * 4 + c div 64) mod 4 * 64 + c mod 64 = c"
    unfolding split_digit(2) [OF d(3)] by simp
qed

lemma b64_roundtrip_loop: "b64Loop tot (b64Encode bs) = Inr bs"
proof (induction bs rule: b64Encode.induct)
  case (2 a)
  note s = sextets [OF code_less [of a], of 0 0, simplified]
  show ?case
    by (subst b64Loop.simps) (simp add: b64Val_Char pad_values b64Finish_def s)
next
  case (3 a b)
  note s = sextets [OF code_less [of a] code_less [of b], of 0, unfolded div_0 mod_0 add_0_right]
  have q: "quantumBytes [code a div 4, code a mod 4 * 16 + code b div 16, code b mod 16 * 4] = [a, b]"
    by (simp only: quantumBytes.simps s(5,6) char_of_code)
  show ?case
    by (subst b64Loop.simps) (simp only: b64Encode.simps b64Quantum.simps b64Val_Char [OF s(1)]
        b64Val_Char [OF s(2)] b64Val_Char [OF s(3)] pad_values option.case,
        simp add: b64Finish_def q del: quantumBytes.simps)
next
  case (4 a b c rest)
  note s = sextets [OF code_less [of a] code_less [of b] code_less [of c]]
  have q: "quantumBytes [code a div 4, code a mod 4 * 16 + code b div 16,
      code b mod 16 * 4 + code c div 64, code c mod 64] = [a, b, c]"
    by (simp only: quantumBytes.simps s(5-7) char_of_code)
  show ?case
    by (subst b64Loop.simps) (simp only: b64Encode.simps append.simps b64Quantum.simps
        b64Val_Char [OF s(1)] b64Val_Char [OF s(2)] b64Val_Char [OF s(3)] b64Val_Char [OF s(4)]
        option.case, simp add: q "4.IH" del: quantumBytes.simps)
qed simp

lemma b64_roundtrip: "b64Decode (b64Encode bs) = Inr bs"
  by (simp add: b64Decode_def b64_roundtrip_loop)

section \<open>Kinds and keys\<close>

definition KindEC :: string where "KindEC = ''ec''"
definition KindOC :: string where "KindOC = ''oc''"
definition KindEN :: string where "KindEN = ''en''"
definition KindON :: string where "KindON = ''on''"
definition KindCP :: string where "KindCP = ''cp''"
definition KindNP :: string where "KindNP = ''np''"

lemmas kind_keys = KindEC_def KindOC_def KindEN_def KindON_def KindCP_def KindNP_def

definition kindKey :: "pcs_module \<Rightarrow> particle_kind \<Rightarrow> string" where
  "kindKey M kind =
     (case kind of
        EvenCypher \<Rightarrow> KindEC | OddCypher \<Rightarrow> KindOC | EvenNoise \<Rightarrow> KindEN | OddNoise \<Rightarrow> KindON
      | CypherParity \<Rightarrow> KindCP | NoiseParity \<Rightarrow> KindNP | _ \<Rightarrow> kindString M kind)"

text \<open>The second result of \<open>KindFromKey\<close> is \<open>false\<close> exactly for \<open>None\<close>.\<close>

definition kindFromKey :: "string \<Rightarrow> particle_kind option" where
  "kindFromKey key =
     (if key = KindEC then Some EvenCypher
      else if key = KindOC then Some OddCypher
      else if key = KindEN then Some EvenNoise
      else if key = KindON then Some OddNoise
      else if key = KindCP then Some CypherParity
      else if key = KindNP then Some NoiseParity
      else None)"

lemma kindFromKey_kindKey: "k \<in> all_kinds \<Longrightarrow> kindFromKey (kindKey M k) = Some k"
  by (auto simp: all_kinds_def kindKey_def kindFromKey_def kind_keys)

lemma kindKey_inj: "k \<in> all_kinds \<Longrightarrow> k' \<in> all_kinds \<Longrightarrow> kindKey M k = kindKey M k' \<longleftrightarrow> k = k'"
  by (metis kindFromKey_kindKey option.inject)

section \<open>Trailers\<close>

record 'f footer_module =
  FingerprintShard :: "'f \<Rightarrow> bytes"
  CrossCRC :: "'f \<Rightarrow> 32 word"
  WriteID :: "'f \<Rightarrow> 64 word"
  FooterLength :: "'f \<Rightarrow> 64 word"
  Marshal :: "'f \<Rightarrow> bytes"
  ParseFooter :: "bytes \<Rightarrow> 'f result"
  VerifyWriteIDs :: "(particle_kind \<rightharpoonup> 'f) \<Rightarrow> unit result"

text \<open>
  The metadata the stream codec returns.  A Go map is iterated in an order of the runtime's
  choice; \<open>metaFooters\<close> lists the entries of the footer map in that order.
\<close>

record 'f stream_meta =
  metaSHA256 :: bytes
  metaBytes :: int
  metaFooters :: "(particle_kind \<times> 'f) list"

record trailer =
  trSecretSHA256 :: string
  trFingerprintShard :: "string \<rightharpoonup> string"
  trCrossCRC :: "string \<rightharpoonup> 32 word"
  trLength :: "64 word"
  trWriteID :: string
  trWriteIDValid :: "bool option"
  trFooter :: "string \<rightharpoonup> string"
  trBytesProcessed :: int
  trMode :: mode
  trHashValid :: "bool option"
  trRecoveries :: "string list"

text \<open>One pass of the loop over the footers; the write ID still zero takes the footer's.\<close>

definition noteFooter :: "pcs_module \<Rightarrow> 'f footer_module \<Rightarrow> bool \<Rightarrow> particle_kind \<times> 'f
    \<Rightarrow> trailer \<times> 64 word \<Rightarrow> trailer \<times> 64 word" where
  "noteFooter M F withFooter kf acc =
     (case (kf, acc) of ((kind, f), (t, writeID)) \<Rightarrow>
        let key = kindKey M kind;
            t1 = t\<lparr>trFingerprintShard := (trFingerprintShard t)(key \<mapsto> hexEncode (FingerprintShard F f)),
                   trCrossCRC := (trCrossCRC t)(key \<mapsto> CrossCRC F f)\<rparr>;
            t2 = (if withFooter
                  then t1\<lparr>trFooter := (trFooter t1)(key \<mapsto> b64Encode (Marshal F f))\<rparr> else t1)
        in if writeID = 0 then (t2\<lparr>trLength := FooterLength F f\<rparr>, WriteID F f) else (t2, writeID))"

definition buildTrailerFromEncodeMeta :: "pcs_module \<Rightarrow> 'f footer_module \<Rightarrow> mode \<Rightarrow> 'f stream_meta
    \<Rightarrow> trailer" where
  "buildTrailerFromEncodeMeta M F mode meta =
     (let t0 = \<lparr>trSecretSHA256 = hexEncode (metaSHA256 meta), trFingerprintShard = Map.empty,
                trCrossCRC = Map.empty, trLength = 0, trWriteID = [], trWriteIDValid = None,
                trFooter = Map.empty, trBytesProcessed = metaBytes meta, trMode = mode,
                trHashValid = None, trRecoveries = []\<rparr>
      in case fold (noteFooter M F True) (metaFooters meta) (t0, 0) of (t, writeID) \<Rightarrow>
        t\<lparr>trWriteID := fmtHex16 (unat writeID)\<rparr>)"

definition buildTrailerFromDecodeMeta :: "pcs_module \<Rightarrow> 'f footer_module \<Rightarrow> mode \<Rightarrow> 'f stream_meta
    \<Rightarrow> string list \<Rightarrow> trailer" where
  "buildTrailerFromDecodeMeta M F mode meta recoveries =
     (let t0 = \<lparr>trSecretSHA256 = hexEncode (metaSHA256 meta), trFingerprintShard = Map.empty,
                trCrossCRC = Map.empty, trLength = 0, trWriteID = [], trWriteIDValid = Some True,
                trFooter = Map.empty, trBytesProcessed = metaBytes meta, trMode = mode,
                trHashValid = Some True, trRecoveries = recoveries\<rparr>
      in case fold (noteFooter M F False) (metaFooters meta) (t0, 0) of (t, writeID) \<Rightarrow>
        t\<lparr>trWriteID := fmtHex16 (unat writeID)\<rparr>)"

text \<open>
  \<open>VerifyWriteIDsFromTrailer\<close>; \<open>keys\<close> is the order in which the footer map is iterated.
\<close>

fun collectFooters :: "'f footer_module \<Rightarrow> (string \<rightharpoonup> string) \<Rightarrow> string list
    \<Rightarrow> (particle_kind \<rightharpoonup> 'f) \<Rightarrow> (particle_kind \<rightharpoonup> 'f) result" where
  "collectFooters F m [] footers = Inr footers"
| "collectFooters F m (key # keys) footers =
     (case kindFromKey key of
        None \<Rightarrow> collectFooters F m keys footers
      | Some kind \<Rightarrow>
          (case b64Decode (the (m key)) of
             Inl e \<Rightarrow> Inl (Wrapf (''decode footer '' @ key) e)
           | Inr raw \<Rightarrow>
               (case ParseFooter F raw of
                  Inl e \<Rightarrow> Inl (Wrapf (''parse footer '' @ key) e)
                | Inr f \<Rightarrow> collectFooters F m keys (footers(kind \<mapsto> f)))))"

definition verifyWriteIDsFromTrailer :: "'f footer_module \<Rightarrow> string list \<Rightarrow> trailer \<Rightarrow> unit result" where
  "verifyWriteIDsFromTrailer F keys t =
     (if dom (trFooter t) = {} then Inr ()
      else case collectFooters F (trFooter t) keys Map.empty of
        Inl e \<Rightarrow> Inl e
      | Inr footers \<Rightarrow> VerifyWriteIDs F footers)"

section \<open>What the loop over the footers computes\<close>

definition firstFooter :: "'f footer_module \<Rightarrow> (particle_kind \<times> 'f) list \<Rightarrow> 64 word \<times> 64 word
    \<Rightarrow> 64 word \<times> 64 word" where
  "firstFooter F kfs = fold (\<lambda>(k, f) (n, w). if w = 0 then (FooterLength F f, WriteID F f) else (n, w)) kfs"

lemma firstFooter_Cons:
  "firstFooter F ((k, f) # kfs) (n, w) =
     firstFooter F kfs (if w = 0 then (FooterLength F f, WriteID F f) else (n, w))"
  by (simp add: firstFooter_def)

definition entries :: "pcs_module \<Rightarrow> ('f \<Rightarrow> 'v) \<Rightarrow> (particle_kind \<times> 'f) list \<Rightarrow> (string \<times> 'v) list" where
  "entries M g kfs = rev (map (\<lambda>(k, f). (kindKey M k, g f)) kfs)"

lemma entries_Cons: "m ++ map_of (entries M g ((k, f) # kfs)) = m(kindKey M k \<mapsto> g f) ++ map_of (entries M g kfs)"
  by (auto simp: entries_def map_add_def fun_eq_iff split: option.splits)

lemmas noteFooter_step = noteFooter_def [of M F b "(k, f)" "(t, w)", unfolded prod.case Let_def]
  for M F b k f t w

lemma noteFooter_fold:
  "fold (noteFooter M F withFooter) kfs (t, w) =
     (t\<lparr>trFingerprintShard := trFingerprintShard t ++
          map_of (entries M (\<lambda>f. hexEncode (FingerprintShard F f)) kfs),
        trCrossCRC := trCrossCRC t ++ map_of (entries M (CrossCRC F) kfs),
        trFooter := (if withFooter
          then trFooter t ++ map_of (entries M (\<lambda>f. b64Encode (Marshal F f)) kfs) else trFooter t),
        trLength := fst (firstFooter F kfs (trLength t, w))\<rparr>,
      snd (firstFooter F kfs (trLength t, w)))"
proof (induction kfs arbitrary: t w)
  case Nil
  then show ?case by (simp add: entries_def firstFooter_def)
next
  case (Cons kf kfs)
  obtain k f where "kf = (k, f)" by (cases kf)
  then show ?case
    by (cases "w = 0"; cases withFooter)
       (use Cons.IH in \<open>simp_all add: noteFooter_step entries_Cons firstFooter_Cons fun_upd_def\<close>)
qed

lemma map_of_entries:
  assumes "distinct (map fst kfs)" "\<forall>k \<in> fst ` set kfs. k \<in> all_kinds"
  shows "map_of (entries M g kfs) key = Some v \<longleftrightarrow> (\<exists>(k, f) \<in> set kfs. key = kindKey M k \<and> v = g f)"
proof -
  have "inj_on (kindKey M) (fst ` set kfs)"
    using assms(2) by (auto simp: inj_on_def kindKey_inj)
  then have "distinct (map fst (entries M g kfs))"
    using assms(1) by (simp add: entries_def rev_map [symmetric] o_def case_prod_unfold distinct_map
        comp_inj_on_iff inj_on_def)
  then show ?thesis
    by (auto simp: map_of_eq_Some_iff) (auto simp: entries_def)
qed

lemma firstFooter_agree:
  "\<forall>(k, f) \<in> set kfs. FooterLength F f = n \<and> WriteID F f = w \<Longrightarrow> kfs \<noteq> [] \<Longrightarrow>
   firstFooter F kfs (n0, 0) = (n, w)"
proof (induction kfs arbitrary: n0)
  case (Cons kf kfs)
  then obtain k f where kf: "kf = (k, f)" "FooterLength F f = n" "WriteID F f = w" by (cases kf) auto
  have "firstFooter F kfs (n, w) = (n, w)" using Cons.prems(1)
    by (induction kfs) (auto simp: firstFooter_def)
  with kf show ?case by (simp add: firstFooter_Cons)
qed simp

lemma entries_order:
  assumes "mset kfs = mset kfs'" "distinct (map fst kfs)" "\<forall>k \<in> fst ` set kfs. k \<in> all_kinds"
  shows "map_of (entries M g kfs) = map_of (entries M g kfs')"
proof -
  have "set kfs' = set kfs" using assms(1) by (metis set_mset_mset)
  moreover have "mset (map fst kfs) = mset (map fst kfs')" using assms(1) by simp
  then have "distinct (map fst kfs')" using assms(2) by (metis mset_eq_imp_distinct_iff)
  ultimately have "map_of (entries M g kfs) key = Some v \<longleftrightarrow> map_of (entries M g kfs') key = Some v" for key v
    using assms(2,3) by (simp add: map_of_entries)
  then show ?thesis by (metis option.exhaust ext)
qed

text \<open>
  C32: the trailer of a split does not depend on the order in which Go iterates the footer
  map, provided the footers carry the same write ID and length.
\<close>

theorem trailer_order_independent:
  assumes "mset kfs = mset (metaFooters meta)" "distinct (map fst kfs)" "\<forall>(k, f) \<in> set kfs. k \<in> all_kinds"
    and "\<forall>(k, f) \<in> set kfs. FooterLength F f = n \<and> WriteID F f = w"
  shows "buildTrailerFromEncodeMeta M F mode (meta\<lparr>metaFooters := kfs\<rparr>) =
    buildTrailerFromEncodeMeta M F mode meta"
proof -
  have known: "\<forall>k \<in> fst ` set kfs. k \<in> all_kinds" using assms(3) by auto
  have sets: "set (metaFooters meta) = set kfs" using assms(1) by (metis set_mset_mset)
  have e: "map_of (entries M g (metaFooters meta)) = map_of (entries M g kfs)"
    for g :: "'a \<Rightarrow> 'v"
    by (rule entries_order [OF assms(1,2) known, symmetric])
  have first: "firstFooter F kfs (0, 0) = firstFooter F (metaFooters meta) (0, 0)"
  proof (cases "kfs = []")
    case True
    with sets show ?thesis by simp
  next
    case False
    then have "metaFooters meta \<noteq> []" using sets by auto
    with False assms(4) sets show ?thesis
      using firstFooter_agree [of kfs F n w 0] firstFooter_agree [of "metaFooters meta" F n w 0] by simp
  qed
  show ?thesis
    by (simp add: buildTrailerFromEncodeMeta_def noteFooter_fold e first)
qed

definition sample_footers :: "nat footer_module" where
  "sample_footers = \<lparr>FingerprintShard = (\<lambda>f. [char_of f]), CrossCRC = (\<lambda>f. 0), WriteID = (\<lambda>f. 7),
     FooterLength = (\<lambda>f. 5), Marshal = (\<lambda>f. [char_of f]), ParseFooter = (\<lambda>bs. Inr (of_char (hd bs))),
     VerifyWriteIDs = (\<lambda>m. if m EvenCypher = Some 1 then Inr () else Inl (Errorf ''no footer''))\<rparr>"

theorem trailer_order_independent_witness:
  "buildTrailerFromEncodeMeta sample_module sample_footers ModeSplit
     \<lparr>metaSHA256 = [], metaBytes = 5, metaFooters = [(OddNoise, 2), (EvenCypher, 1)]\<rparr> =
   buildTrailerFromEncodeMeta sample_module sample_footers ModeSplit
     \<lparr>metaSHA256 = [], metaBytes = 5, metaFooters = [(EvenCypher, 1), (OddNoise, 2)]\<rparr>"
  using trailer_order_independent [of "[(OddNoise, 2), (EvenCypher, 1)]"
      "\<lparr>metaSHA256 = [], metaBytes = 5, metaFooters = [(EvenCypher, 1), (OddNoise, 2)]\<rparr>"
      sample_footers 5 7 sample_module ModeSplit]
  by (simp add: all_kinds_def sample_footers_def add_mset_commute)

lemma collectFooters_eq:
  "\<forall>key \<in> set keys. \<exists>k f. k \<in> all_kinds \<and> key = kindKey M k \<and> m key = Some (b64Encode (Marshal F f)) \<and>
     ParseFooter F (Marshal F f) = Inr f \<and> g k = Some f \<Longrightarrow>
   collectFooters F m keys footers =
     Inr (\<lambda>k. if k \<in> all_kinds \<and> kindKey M k \<in> set keys then g k else footers k)"
proof (induction keys arbitrary: footers)
  case (Cons key keys)
  then obtain k f where k: "k \<in> all_kinds" "key = kindKey M k" "m key = Some (b64Encode (Marshal F f))"
      "ParseFooter F (Marshal F f) = Inr f" "g k = Some f"
    by auto
  with Cons show ?case
    by (auto simp: kindFromKey_kindKey b64_roundtrip kindKey_inj fun_eq_iff)
qed simp

text \<open>
  What the server puts in a split trailer is what the client verifies.  The check of the
  write IDs on the built trailer is the check of the shared module on the encoder's own
  footers, whatever the orders in which the two sides iterate their maps.
\<close>

theorem trailer_verifies_own_footers:
  assumes "distinct (map fst (metaFooters meta))" "metaFooters meta \<noteq> []"
    and "\<forall>(k, f) \<in> set (metaFooters meta). k \<in> all_kinds \<and> ParseFooter F (Marshal F f) = Inr f"
    and "set keys = dom (trFooter (buildTrailerFromEncodeMeta M F mode meta))"
  shows "verifyWriteIDsFromTrailer F keys (buildTrailerFromEncodeMeta M F mode meta) =
    VerifyWriteIDs F (map_of (metaFooters meta))"
proof -
  let ?kfs = "metaFooters meta"
  let ?m = "map_of (entries M (\<lambda>f. b64Encode (Marshal F f)) ?kfs)"
  have known: "\<forall>k \<in> fst ` set ?kfs. k \<in> all_kinds" using assms(3) by auto
  have m: "trFooter (buildTrailerFromEncodeMeta M F mode meta) = ?m"
    by (simp add: buildTrailerFromEncodeMeta_def noteFooter_fold)
  have entry: "?m key = Some v \<longleftrightarrow> (\<exists>(k, f) \<in> set ?kfs. key = kindKey M k \<and> v = b64Encode (Marshal F f))"
    for key v
    by (rule map_of_entries [OF assms(1) known])
  have keys: "kindKey M k \<in> set keys \<longleftrightarrow> (\<exists>f. (k, f) \<in> set ?kfs)" if "k \<in> all_kinds" for k
    using that assms(3) kindKey_inj [OF that] unfolding assms(4) m by (fastforce simp: dom_def entry)
  have collect: "collectFooters F ?m keys Map.empty =
      Inr (\<lambda>k. if k \<in> all_kinds \<and> kindKey M k \<in> set keys then map_of ?kfs k else None)"
  proof (rule collectFooters_eq, rule ballI)
    fix key
    assume "key \<in> set keys"
    then obtain k f where "(k, f) \<in> set ?kfs" "key = kindKey M k" "?m key = Some (b64Encode (Marshal F f))"
      unfolding assms(4) m by (auto simp: dom_def entry)
    then show "\<exists>k f. k \<in> all_kinds \<and> key = kindKey M k \<and> ?m key = Some (b64Encode (Marshal F f)) \<and>
        ParseFooter F (Marshal F f) = Inr f \<and> map_of ?kfs k = Some f"
      using assms(1,3) by (intro exI [of _ k] exI [of _ f]) auto
  qed
  have "(\<lambda>k. if k \<in> all_kinds \<and> kindKey M k \<in> set keys then map_of ?kfs k else None) = map_of ?kfs"
  proof
    fix k
    show "(if k \<in> all_kinds \<and> kindKey M k \<in> set keys then map_of ?kfs k else None) = map_of ?kfs k"
    proof (cases "\<exists>f. (k, f) \<in> set ?kfs")
      case True
      with known keys [of k] show ?thesis by force
    next
      case False
      then have "map_of ?kfs k = None" by (meson map_of_SomeD not_None_eq)
      then show ?thesis by simp
    qed
  qed
  moreover have "dom ?m \<noteq> {}"
  proof -
    obtain k f where "(k, f) \<in> set ?kfs" using assms(2) by (cases ?kfs) auto
    then have "?m (kindKey M k) = Some (b64Encode (Marshal F f))" unfolding entry by blast
    then show ?thesis by auto
  qed
  ultimately show ?thesis
    using collect by (simp add: verifyWriteIDsFromTrailer_def m)
qed

theorem trailer_verifies_own_footers_witness:
  "verifyWriteIDsFromTrailer sample_footers [''on'', ''ec'']
     (buildTrailerFromEncodeMeta sample_module sample_footers ModeSplit
        \<lparr>metaSHA256 = [], metaBytes = 5, metaFooters = [(EvenCypher, 1), (OddNoise, 2)]\<rparr>) = Inr ()"
proof -
  let ?meta = "\<lparr>metaSHA256 = [], metaBytes = 5, metaFooters = [(EvenCypher, 1), (OddNoise, 2)]\<rparr>"
  have "trFooter (buildTrailerFromEncodeMeta sample_module sample_footers ModeSplit ?meta) =
      [''ec'' \<mapsto> b64Encode [char_of (1 :: nat)], ''on'' \<mapsto> b64Encode [char_of (2 :: nat)]]"
    by (simp add: buildTrailerFromEncodeMeta_def noteFooter_def sample_footers_def kindKey_def kind_keys Let_def)
  then have "set [''on'', ''ec''] = dom (trFooter (buildTrailerFromEncodeMeta sample_module sample_footers ModeSplit ?meta))"
    by auto
  from trailer_verifies_own_footers [OF _ _ _ this] show ?thesis
    by (simp add: sample_footers_def all_kinds_def)
qed

end
