(* ===== verification/Commands.thy ===== *)
theory Commands
  imports MergeFlow GoFlag TrailerData
begin

text \<open>
  The two client programs (\<open>cmd/pcs-merge/main.go\<close>, \<open>cmd/pcs-split/main.go\<close>) from their
  arguments to their exit code, the lines on standard error and the files they leave.  What
  \<open>os.Create\<close> and \<open>os.Open\<close> answer is given by functions of the path; a created file is a writer
  that takes as many bytes as the disk has room for.  \<open>None\<close> is a program that does not end.
\<close>

record cmd_result =
  exitCode :: nat
  stderrLines :: "string list"

definition fatal :: "go_error \<Rightarrow> cmd_result" where
  "fatal e = \<lparr>exitCode = 1, stderrLines = [errMsg e]\<rparr>"

text \<open>\<open>flag.Parse\<close> on the command line exits by itself: with 0 after \<open>-help\<close>, with 2 after an error.\<close>

definition flagExit :: "go_error \<Rightarrow> cmd_result" where
  "flagExit e = \<lparr>exitCode = (if e = errHelp then 0 else 2), stderrLines = [errMsg e]\<rparr>"

section \<open>\<open>pcs-merge\<close>\<close>

record merge_args =
  mgHost :: string
  mgPort :: int
  mgToken :: string
  mgFile :: string
  mgOut :: string
  mgDir :: string
  mgSkip :: string

definition mergeDefaults :: merge_args where
  "mergeDefaults = \<lparr>mgHost = ''127.0.0.1'', mgPort = 4567, mgToken = ''SECRET_TOKEN'', mgFile = [],
     mgOut = [], mgDir = ''.'', mgSkip = []\<rparr>"

definition mergeFlags :: "merge_args flag_set" where
  "mergeFlags name v a =
     (if name = ''host'' then Some (Inr (a\<lparr>mgHost := v\<rparr>))
      else if name = ''port'' then Some (intFlag (\<lambda>n. a\<lparr>mgPort := n\<rparr>) v)
      else if name = ''token'' then Some (Inr (a\<lparr>mgToken := v\<rparr>))
      else if name = ''f'' then Some (Inr (a\<lparr>mgFile := v\<rparr>))
      else if name = ''o'' then Some (Inr (a\<lparr>mgOut := v\<rparr>))
      else if name = ''dir'' then Some (Inr (a\<lparr>mgDir := v\<rparr>))
      else if name = ''skip'' then Some (Inr (a\<lparr>mgSkip := v\<rparr>))
      else None)"

text \<open>The profile: of the files found, or of the skip list when there is one.\<close>

definition mergeProfileFor :: "pcs_module \<Rightarrow> fs \<Rightarrow> merge_args \<Rightarrow> merge_profile result" where
  "mergeProfileFor M f a =
     (case prepareMergeFromFiles M f (mgDir a) (pathBase (mgFile a)) of
        Inl e \<Rightarrow> Inl e
      | Inr profile \<Rightarrow>
          (let skipped = splitCSV (mgSkip a) in
           if skipped \<noteq> [] then mergeProfileFromSkipKinds skipped else Inr profile))"

definition mergeOutPath :: "merge_args \<Rightarrow> string" where
  "mergeOutPath a = (if mgOut a = [] then reconstructedFileName (pathBase (mgFile a)) else mgOut a)"

definition mergeReport :: "trailer result \<Rightarrow> cmd_result" where
  "mergeReport r =
     (case r of
        Inl e \<Rightarrow> fatal e
      | Inr t \<Rightarrow> \<lparr>exitCode = 0,
          stderrLines = (if trHashValid t = Some False then [''warning: hash validation failed''] else [])\<rparr>)"

text \<open>The second component is the output file, if it has come to creating it.\<close>

definition pcsMerge :: "pcs_module \<Rightarrow> trailer json_codec \<Rightarrow> fs \<Rightarrow> (string \<Rightarrow> outp result) \<Rightarrow> client_env
    \<Rightarrow> (merge_send_plan \<Rightarrow> go_error option) \<Rightarrow> string list
    \<Rightarrow> (cmd_result \<times> (string \<times> outp) option) option" where
  "pcsMerge M J f create env upload args =
     (case parseArgs mergeFlags args mergeDefaults of
        Inl e \<Rightarrow> Some (flagExit e, None)
      | Inr a \<Rightarrow>
          if mgFile a = []
          then Some (\<lparr>exitCode = 1, stderrLines = [''usage: pcs-merge -f Hello.txt'']\<rparr>, None)
          else case mergeProfileFor M f a of
            Inl e \<Rightarrow> Some (fatal e, None)
          | Inr profile \<Rightarrow>
              (case prepareMergeSendPlan M f (mgDir a) (pathBase (mgFile a)) profile of
                 Inl e \<Rightarrow> Some (fatal e, None)
               | Inr plan \<Rightarrow>
                   (case create (mergeOutPath a) of
                      Inl e \<Rightarrow> Some (fatal e, None)
                    | Inr out \<Rightarrow>
                        (case mergeFromFiles M J f \<lparr>Host = mgHost a, Port = mgPort a, Token = mgToken a\<rparr>
                                env upload (mgDir a) (pathBase (mgFile a)) profile out of
                           None \<Rightarrow> None
                         | Some (st, out', r) \<Rightarrow> Some (mergeReport r, Some (mergeOutPath a, out'))))))"

section \<open>\<open>pcs-split\<close>\<close>

record split_args =
  spHost :: string
  spPort :: int
  spToken :: string
  spFile :: string
  spName :: string
  spOutDir :: string

definition splitDefaults :: split_args where
  "splitDefaults = \<lparr>spHost = ''127.0.0.1'', spPort = 4567, spToken = ''SECRET_TOKEN'', spFile = [],
     spName = [], spOutDir = ''.''\<rparr>"

definition splitFlags :: "split_args flag_set" where
  "splitFlags name v a =
     (if name = ''host'' then Some (Inr (a\<lparr>spHost := v\<rparr>))
      else if name = ''port'' then Some (intFlag (\<lambda>n. a\<lparr>spPort := n\<rparr>) v)
      else if name = ''token'' then Some (Inr (a\<lparr>spToken := v\<rparr>))
      else if name = ''f'' then Some (Inr (a\<lparr>spFile := v\<rparr>))
      else if name = ''name'' then Some (Inr (a\<lparr>spName := v\<rparr>))
      else if name = ''o'' then Some (Inr (a\<lparr>spOutDir := v\<rparr>))
      else None)"

definition openInput :: "(string \<Rightarrow> inp result) \<Rightarrow> inp \<Rightarrow> string \<Rightarrow> string \<Rightarrow> (string \<times> inp) result" where
  "openInput osOpen stdin file name =
     (if file = ''-''
      then (if name = [] then Inl (Errorf ''-name is required when -f -'')
            else Inr (pathBase name, stdin))
      else case osOpen file of
        Inl e \<Rightarrow> Inl e
      | Inr r \<Rightarrow> Inr (pathBase file, r))"

text \<open>
  The loop of \<open>openParticleWriters\<close>; the second component is the map of the open files, empty
  again after an error, when \<open>closeFiles\<close> has closed them.
\<close>

fun openWriters :: "pcs_module \<Rightarrow> (string \<Rightarrow> int result) \<Rightarrow> (string \<Rightarrow> outp result) \<Rightarrow> string \<Rightarrow> string
    \<Rightarrow> particle_kind list \<Rightarrow> fs \<Rightarrow> (particle_kind \<rightharpoonup> outp) \<Rightarrow> fs \<times> (particle_kind \<rightharpoonup> outp) result" where
  "openWriters M mk create outDir base [] f out = (f, Inr out)"
| "openWriters M mk create outDir base (kind # kinds) f out =
     (let path = particlePath M outDir base kind in
      case mkdirAll mk f (pathDir path) of
        (f1, Some e) \<Rightarrow> (f1, Inl e)
      | (f1, None) \<Rightarrow>
          (case create path of
             Inl e \<Rightarrow> (f1, Inl e)
           | Inr w \<Rightarrow> openWriters M mk create outDir base kinds (f1(cleanPath path := Inr (File [])))
               (out(kind \<mapsto> w))))"

definition openParticleWriters :: "pcs_module \<Rightarrow> (string \<Rightarrow> int result) \<Rightarrow> (string \<Rightarrow> outp result)
    \<Rightarrow> string \<Rightarrow> string \<Rightarrow> fs \<Rightarrow> fs \<times> (particle_kind \<rightharpoonup> outp) result" where
  "openParticleWriters M mk create outDir base f =
     openWriters M mk create outDir base (AllParticleKinds M) f Map.empty"

text \<open>
  The six goroutines \<open>copyTo\<close>, in the order in which they finish: \<open>copyErr\<close> is the last of
  their errors; the errors of closing the files are dropped.
\<close>

definition copyToFiles :: "(particle_kind \<Rightarrow> inp) \<Rightarrow> particle_kind list \<Rightarrow> (particle_kind \<rightharpoonup> outp)
    \<Rightarrow> ((particle_kind \<rightharpoonup> outp) \<times> go_error option) option" where
  "copyToFiles readers order writers =
     (case copyAll outp_Write readers order writers {} [] of
        None \<Rightarrow> None
      | Some (files, closedSet, errs) \<Rightarrow> Some (files, if errs = [] then None else Some (last errs)))"

text \<open>
  When the upload of the document fails, the program exits at once; \<open>atExit k\<close> is how much of
  stream \<open>k\<close> its goroutine had written by then.
\<close>

definition cutFiles :: "(particle_kind \<Rightarrow> nat) \<Rightarrow> (particle_kind \<Rightarrow> inp) \<Rightarrow> (particle_kind \<rightharpoonup> outp)
    \<Rightarrow> (particle_kind \<rightharpoonup> outp)" where
  "cutFiles atExit readers writers =
     (\<lambda>k. map_option (\<lambda>w. fst (outp_Write w (take (atExit k) (inpContent (readers k))))) (writers k))"

text \<open>
  From the upload on; the last two components are the document connection and whether
  \<open>UploadDocument\<close> has closed it.
\<close>

definition splitRun :: "trailer json_codec \<Rightarrow> client_env \<Rightarrow> (particle_kind \<Rightarrow> nat) \<Rightarrow> particle_kind list
    \<Rightarrow> client_session \<Rightarrow> inp \<Rightarrow> (particle_kind \<rightharpoonup> outp)
    \<Rightarrow> (cmd_result \<times> (particle_kind \<rightharpoonup> outp) \<times> outp \<times> bool) option" where
  "splitRun J env atExit order sess input writers =
     (case uploadDocument inp_Read (ceCloseErr env 0) input (the (csData sess ! 0)) of
        None \<Rightarrow> None
      | Some (w, closedDoc, Some e) \<Rightarrow> Some (fatal e, cutFiles atExit (ceParticleIn env) writers, w, closedDoc)
      | Some (w, closedDoc, None) \<Rightarrow>
          (case copyToFiles (ceParticleIn env) order writers of
             None \<Rightarrow> None
           | Some (files, copyErr) \<Rightarrow>
               Some (case readTrailer J (csIn sess) of
                   Inl e \<Rightarrow> fatal e
                 | Inr t \<Rightarrow> (case copyErr of Some e \<Rightarrow> fatal e | None \<Rightarrow> \<lparr>exitCode = 0, stderrLines = []\<rparr>),
                 files, w, closedDoc)))"

text \<open>
  The result of the program: its exit, the files it has written, and, if it has come to a
  session, what that has sent and whether the document's connection was closed.
\<close>

definition pcsSplit :: "pcs_module \<Rightarrow> trailer json_codec \<Rightarrow> fs \<Rightarrow> (string \<Rightarrow> int result)
    \<Rightarrow> (string \<Rightarrow> outp result) \<Rightarrow> (string \<Rightarrow> inp result) \<Rightarrow> inp \<Rightarrow> client_env
    \<Rightarrow> (particle_kind \<Rightarrow> nat) \<Rightarrow> particle_kind list \<Rightarrow> string list
    \<Rightarrow> (cmd_result \<times> (particle_kind \<rightharpoonup> outp) \<times> (client_session \<times> bool) option) option" where
  "pcsSplit M J f mk create osOpen stdin env atExit order args =
     (case parseArgs splitFlags args splitDefaults of
        Inl e \<Rightarrow> Some (flagExit e, Map.empty, None)
      | Inr a \<Rightarrow>
          if spFile a = []
          then Some (\<lparr>exitCode = 1,
            stderrLines = [''usage: pcs-split -f file [-name basename when -f -]'']\<rparr>, Map.empty, None)
          else case openInput osOpen stdin (spFile a) (spName a) of
            Inl e \<Rightarrow> Some (fatal e, Map.empty, None)
          | Inr (base, input) \<Rightarrow>
              (case openPlainSession \<lparr>Host = spHost a, Port = spPort a, Token = spToken a\<rparr> ModeSplit
                      (ceControl env) (ceDial env) noNet of
                 (ctlOpen, st, Inl e) \<Rightarrow> Some (fatal e, Map.empty, None)
               | (ctlOpen, st, Inr sess) \<Rightarrow>
                   (case ensureStorageDirs mk M f (spOutDir a) of
                      (f1, Some e) \<Rightarrow> Some (fatal e, Map.empty, Some (sess, False))
                    | (f1, None) \<Rightarrow>
                        (case openParticleWriters M mk create (spOutDir a) base f1 of
                           (f2, Inl e) \<Rightarrow> Some (fatal e, Map.empty, Some (sess, False))
                         | (f2, Inr writers) \<Rightarrow>
                             (case splitRun J env atExit order sess input writers of
                                None \<Rightarrow> None
                              | Some (res, files, w, closedDoc) \<Rightarrow>
                                  Some (res, files, Some (sess\<lparr>csData := (csData sess)[0 := Some w]\<rparr>, closedDoc)))))))"

section \<open>What the programs report\<close>

lemma merge_command_result:
  assumes "parseArgs mergeFlags args mergeDefaults = Inr a" "mgFile a \<noteq> []"
    and "mergeProfileFor M f a = Inr profile"
    and "prepareMergeSendPlan M f (mgDir a) (pathBase (mgFile a)) profile = Inr plan"
    and "create (mergeOutPath a) = Inr out"
    and "openMergeSession \<lparr>Host = mgHost a, Port = mgPort a, Token = mgToken a\<rparr> profile
           (ceControl env) (ceDial env) noNet = (ctlOpen, st, Inr sess)"
    and "wf_inp (ceDocIn env)" "length (inpContent (ceDocIn env)) \<le> quota out"
  shows "\<exists>res out'. pcsMerge M J f create env upload args = Some (res, Some (mergeOutPath a, out')) \<and>
    sent out' = sent out @ inpContent (ceDocIn env) \<and>
    (exitCode res = 0 \<longleftrightarrow>
       upload plan = None \<and> inpEnd (ceDocIn env) = EOF \<and> \<not> isl (readTrailer J (csIn sess)))"
proof -
  obtain i where i: "scanInventory M f (mgDir a) (pathBase (mgFile a)) = Inr i"
      "mergeSendPlanFrom M (Some (pcsInventory M i)) (missingMap profile) = Inr plan"
    using assms(4) by (auto simp: prepareMergeSendPlan_def split: sum.splits)
  from mergeSessionToWriter_spec [OF assms(7,8), of J "upload plan" sess, unfolded sessionTrailer_def] obtain out' where out':
    "mergeSessionToWriter J (upload plan) (ceDocIn env) sess out = Some (out',
       case upload plan of Some e \<Rightarrow> Inl e
       | None \<Rightarrow> (case endError (inpEnd (ceDocIn env)) of Some e \<Rightarrow> Inl e | None \<Rightarrow> readTrailer J (csIn sess)))"
    "sent out' = sent out @ inpContent (ceDocIn env)"
    by blast
  let ?r = "case upload plan of Some e \<Rightarrow> Inl e
       | None \<Rightarrow> (case endError (inpEnd (ceDocIn env)) of Some e \<Rightarrow> Inl e | None \<Rightarrow> readTrailer J (csIn sess))"
  have "pcsMerge M J f create env upload args = Some (mergeReport ?r, Some (mergeOutPath a, out'))"
    using assms(1-6) i out'(1) by (simp add: pcsMerge_def mergeFromFiles_def runMergeSession_def)
  moreover have "exitCode (mergeReport ?r) = 0 \<longleftrightarrow>
       upload plan = None \<and> inpEnd (ceDocIn env) = EOF \<and> \<not> isl (readTrailer J (csIn sess))"
    by (auto simp: mergeReport_def fatal_def endError_def split: option.split sum.split)
  ultimately show ?thesis using out'(2)
    by - (rule exI, rule exI, intro conjI, assumption+)
qed


text \<open>What a run of \<open>pcs-split\<close> comes to from the upload on.\<close>

definition allCopied :: "(particle_kind \<Rightarrow> inp) \<Rightarrow> (particle_kind \<rightharpoonup> outp) \<Rightarrow> bool" where
  "allCopied readers writers \<longleftrightarrow> (\<forall>k \<in> all_kinds. \<forall>w. writers k = Some w \<longrightarrow>
     inpEnd (readers k) = EOF \<and> length (inpContent (readers k)) \<le> quota w)"

lemma copyErrors_all:
  assumes "set order = all_kinds"
  shows "copyErrors readers writers order = [] \<longleftrightarrow> allCopied readers writers"
  unfolding copyErrors_empty allCopied_def assms by (auto simp: copyError_def endError_def)

lemma splitRun_outcome:
  assumes "finishOrder order" "\<forall>k. wf_inp (ceParticleIn env k)" "wf_inp input"
  shows "\<exists>res files w closedDoc. splitRun J env atExit order sess input writers = Some (res, files, w, closedDoc) \<and>
    w = copied (inpContent input) (the (csData sess ! 0)) \<and>
    (closedDoc \<longleftrightarrow> length (inpContent input) \<le> quota (the (csData sess ! 0)) \<and> inpEnd input = EOF \<and>
       ceCloseErr env 0 = None) \<and>
    (exitCode res = 0 \<longleftrightarrow> closedDoc \<and> allCopied (ceParticleIn env) writers \<and> \<not> isl (readTrailer J (csIn sess))) \<and>
    (exitCode res = 0 \<longrightarrow> (\<forall>k \<in> all_kinds. files k = map_option (copied (inpContent (ceParticleIn env k))) (writers k)))"
proof -
  let ?w0 = "the (csData sess ! 0)" and ?in = "ceParticleIn env"
  have order: "distinct order" "set order = all_kinds" using assms(1) by (auto simp: finishOrder_iff)
  obtain err where up: "uploadDocument inp_Read (ceCloseErr env 0) input ?w0 =
      Some (copied (inpContent input) ?w0, err = None, err)"
    and err: "err = (case copyError (inpContent input) (inpEnd input) ?w0 of Some e \<Rightarrow> Some e | None \<Rightarrow> ceCloseErr env 0)"
    using uploadDocument_eq [OF assms(3)] by blast
  have closed: "err = None \<longleftrightarrow> length (inpContent input) \<le> quota ?w0 \<and> inpEnd input = EOF \<and> ceCloseErr env 0 = None"
    by (auto simp: err copyError_def endError_def split: option.split)
  note files = copyAll_outp [OF assms(2) order(1), of writers "{}" "[]"]
  show ?thesis
  proof (cases err)
    case (Some e)
    with up closed show ?thesis by (auto simp: splitRun_def fatal_def)
  next
    case None
    with up closed files copyErrors_all [OF order(2), of ?in writers] order(2) show ?thesis
      by (auto simp: splitRun_def copyToFiles_def fatal_def split: sum.split)
  qed
qed

text \<open>
  C40: the outcome of \<open>pcs-split\<close> once its session and its six files are open, when the server
  does not stall.  The document connection has got the document as far as it takes it.  The exit
  code is 0 exactly when it took all of it, the document was read to its end, the connection
  closed, all six streams ended in order and fitted into their files, and a trailer was read.
  Then the document was sent whole and each file holds its whole stream.  The trailer's contents
  do not matter.
\<close>

theorem split_command_outcome:
  assumes "finishOrder order" "\<forall>k. live (ceParticleIn env k)" "live input"
    and "\<forall>k. writers k = None \<longleftrightarrow> k \<notin> all_kinds" "returns (readTrailer J (csIn sess))"
  shows "\<exists>res files w closedDoc. splitRun J env atExit order sess input writers = Some (res, files, w, closedDoc) \<and>
    sent w = sent (the (csData sess ! 0)) @ take (quota (the (csData sess ! 0))) (inpContent input) \<and>
    (exitCode res = 0 \<longleftrightarrow> length (inpContent input) \<le> quota (the (csData sess ! 0)) \<and> inpEnd input = EOF \<and>
       ceCloseErr env 0 = None \<and> (\<forall>k \<in> all_kinds. inpEnd (ceParticleIn env k) = EOF \<and>
         length (inpContent (ceParticleIn env k)) \<le> quota (the (writers k))) \<and> \<not> isl (readTrailer J (csIn sess))) \<and>
    (exitCode res = 0 \<longrightarrow> closedDoc \<and> sent w = sent (the (csData sess ! 0)) @ inpContent input \<and>
       (\<forall>k \<in> all_kinds. \<exists>v v'. writers k = Some v \<and> files k = Some v' \<and>
          sent v' = sent v @ inpContent (ceParticleIn env k)))"
proof -
  have "\<forall>k. wf_inp (ceParticleIn env k)" "wf_inp input" using assms(2,3) live_wf by blast+
  from splitRun_outcome [OF assms(1) this, of J atExit sess writers] obtain res files w closedDoc where
    r: "splitRun J env atExit order sess input writers = Some (res, files, w, closedDoc)"
      "w = copied (inpContent input) (the (csData sess ! 0))"
      "closedDoc \<longleftrightarrow> length (inpContent input) \<le> quota (the (csData sess ! 0)) \<and> inpEnd input = EOF \<and> ceCloseErr env 0 = None"
      "exitCode res = 0 \<longleftrightarrow> closedDoc \<and> allCopied (ceParticleIn env) writers \<and> \<not> isl (readTrailer J (csIn sess))"
      "exitCode res = 0 \<longrightarrow> (\<forall>k \<in> all_kinds. files k = map_option (copied (inpContent (ceParticleIn env k))) (writers k))"
    by (elim exE conjE) (rule that)
  have all: "allCopied (ceParticleIn env) writers \<longleftrightarrow> (\<forall>k \<in> all_kinds. inpEnd (ceParticleIn env k) = EOF \<and>
      length (inpContent (ceParticleIn env k)) \<le> quota (the (writers k)))"
    using assms(4) by (force simp: allCopied_def)
  have "\<exists>v v'. writers k = Some v \<and> files k = Some v' \<and> sent v' = sent v @ inpContent (ceParticleIn env k)"
    if "exitCode res = 0" "k \<in> all_kinds" for k
  proof -
    obtain v where "writers k = Some v" using assms(4) \<open>k \<in> all_kinds\<close> by fastforce
    with that r(4,5) show ?thesis by (auto simp: allCopied_def)
  qed
  with r all show ?thesis by auto
qed

section \<open>Concrete runs\<close>

definition sample_merge_args :: merge_args where
  "sample_merge_args = mergeDefaults\<lparr>mgHost := ''h'', mgToken := ''T'', mgFile := ''x'', mgOut := ''out''\<rparr>"

lemma sample_merge_parse:
  "parseArgs mergeFlags [''-host=h'', ''-token=T'', ''-f=x'', ''-o=out''] mergeDefaults = Inr sample_merge_args"
  using parseArgs_flag [of "''host''" mergeFlags _ "''h''"] parseArgs_flag [of "''token''" mergeFlags _ "''T''"]
    parseArgs_flag [of "''f''" mergeFlags _ "''x''"] parseArgs_flag [of "''o''" mergeFlags _ "''out''"]
  by (simp add: mergeFlags_def parseArgs_Nil sample_merge_args_def)

lemma sample_merge_profile:
  "mergeProfileFor sample_module complete_store sample_merge_args = Inr \<lparr>MissingMask = 0\<rparr>"
proof -
  obtain i where i: "scanInventory sample_module complete_store ''.'' ''x'' = Inr i"
      "\<And>k. mget (Present i) k \<longleftrightarrow> k \<in> all_kinds"
    using complete_scan by blast
  have "missingCoreParticles sample_module i = []"
    by (simp add: missingCoreParticles_def i(2) sample_module_def all_kinds_def)
  with i(1) show ?thesis
    by (simp add: mergeProfileFor_def prepareMergeFromFiles_def sample_merge_args_def mergeDefaults_def
        pathBase_def stripSlashes_def mergeProfileFromInventory_def maskOfKinds_def splitCSV_pieces)
qed


theorem split_command_outcome_witness:
  "\<exists>res files w closedDoc. splitRun \<lparr>marshal = (\<lambda>t. Inr []), unmarshal = (\<lambda>d. Inl EOF)\<rparr>
       (sample_env_with (sample_stream ''pay'' (OSError ''reset''))) (\<lambda>k. 0) six
       \<lparr>csOut = \<lparr>sent = [], quota = 9, outErr = EOF\<rparr>, csIn = sample_stream ''2'' EOF,
         csData = [Some \<lparr>sent = ''T'', quota = 9, outErr = EOF\<rparr>]\<rparr>
       (sample_stream ''doc'' EOF)
       (\<lambda>k. if k \<in> all_kinds then Some \<lparr>sent = [], quota = 9, outErr = EOF\<rparr> else None) =
         Some (res, files, w, closedDoc) \<and>
     sent w = ''Tdoc'' \<and> exitCode res \<noteq> 0"
proof -
  let ?env = "sample_env_with (sample_stream ''pay'' (OSError ''reset''))"
  let ?w = "\<lparr>sent = [], quota = 9, outErr = EOF\<rparr> :: outp"
  let ?sess = "\<lparr>csOut = ?w, csIn = sample_stream ''2'' EOF, csData = [Some \<lparr>sent = ''T'', quota = 9, outErr = EOF\<rparr>]\<rparr>"
  let ?writers = "\<lambda>k. if k \<in> all_kinds then Some ?w else None"
  let ?J = "\<lparr>marshal = (\<lambda>t. Inr []), unmarshal = (\<lambda>d. Inl EOF)\<rparr> :: trailer json_codec"
  note env = sample_env_streams(2) [of "sample_stream ''pay'' (OSError ''reset'')"]
  have "\<exists>k \<in> all_kinds. inpEnd (ceParticleIn ?env k) \<noteq> EOF" by (auto simp: env all_kinds_def)
  moreover have "\<forall>k. live (ceParticleIn ?env k)" unfolding env
    by (auto simp: live_def noStream_def wf_inp_def sample_stream_def)
  moreover have "live (sample_stream ''doc'' EOF)" by (simp add: live_def wf_inp_def sample_stream_def)
  moreover have "live (sample_stream ''2'' EOF)" by (simp add: live_def sample_stream_def wf_inp_def)
  then have "returns (readTrailer ?J (csIn ?sess))"
    unfolding client_session.simps by (rule readTrailer_returns) (simp add: returns_def)
  moreover have "\<forall>k. ?writers k = None \<longleftrightarrow> k \<notin> all_kinds" by simp
  ultimately show ?thesis
    using split_command_outcome [OF finishOrder_six, of ?env "sample_stream ''doc'' EOF" ?writers ?J ?sess "\<lambda>k. 0"]
    by auto
qed

end
