(* ===== verification/GoTime.thy ===== *)
theory GoTime
  imports GoText
begin

text \<open>
  Go's \<open>time.ParseDuration\<close>, which the flag \<open>-session-timeout\<close> is read with.  Every error of it
  is one to its caller, so it answers an option.  The part of a value behind its point is
  scaled in \<open>float64\<close>, written out here as rounding to 53 binary digits.
\<close>

section \<open>Double precision\<close>

fun bitLen :: "nat \<Rightarrow> nat" where
  "bitLen n = (if n = 0 then 0 else Suc (bitLen (n div 2)))"

declare bitLen.simps [simp del]

text \<open>The nearest integer to \<open>p / q\<close>, the even one of two.\<close>

definition roundDiv :: "nat \<Rightarrow> nat \<Rightarrow> nat" where
  "roundDiv p q =
     (let d = p div q; r = p mod q in if 2 * r < q \<or> 2 * r = q \<and> even d then d else d + 1)"

text \<open>
  \<open>p / q\<close> times a power of two that makes it a number of 53 binary digits, as a fraction, with
  the exponent of that power; the result of rounding is \<open>s * 2 ^ up / 2 ^ down\<close>.
\<close>

definition roundDouble :: "nat \<times> nat \<Rightarrow> nat \<times> nat" where
  "roundDouble = (\<lambda>(p, q).
     (let e0 = int (bitLen p) - int (bitLen q) - 53;
          scaled = (\<lambda>e. (p * 2 ^ nat (- e), q * 2 ^ nat e));
          e = (if fst (scaled e0) < 2 ^ 53 * snd (scaled e0) then e0 else e0 + 1);
          s = roundDiv (fst (scaled e)) (snd (scaled e))
      in (s * 2 ^ nat e, 2 ^ nat (- e))))"

text \<open>\<open>uint64(float64(f) * (float64(unit) / scale))\<close>.\<close>

definition scaleFraction :: "nat \<Rightarrow> nat \<Rightarrow> nat \<Rightarrow> nat" where
  "scaleFraction f unit scale =
     (case (roundDouble (f, 1), roundDouble (unit, scale)) of ((a, b), (c, d)) \<Rightarrow>
        (case roundDouble (a * c, b * d) of (p, q) \<Rightarrow> p div q))"

section \<open>\<open>ParseDuration\<close>\<close>

fun leadingInt :: "nat \<Rightarrow> string \<Rightarrow> (nat \<times> string) option" where
  "leadingInt x [] = Some (x, [])"
| "leadingInt x (c # cs) =
     (if \<not> isDigit c then Some (x, c # cs)
      else if 2 ^ 63 div 10 < x then None
      else let y = x * 10 + (code c - 48) in
        if 2 ^ 63 < y then None else leadingInt y cs)"

text \<open>Digits that no longer fit are skipped.\<close>

fun leadingFraction :: "bool \<Rightarrow> nat \<Rightarrow> nat \<Rightarrow> string \<Rightarrow> nat \<times> nat \<times> string" where
  "leadingFraction over x scale [] = (x, scale, [])"
| "leadingFraction over x scale (c # cs) =
     (if \<not> isDigit c then (x, scale, c # cs)
      else if over \<or> (2 ^ 63 - 1) div 10 < x then leadingFraction True x scale cs
      else let y = x * 10 + (code c - 48) in
        if 2 ^ 63 < y then leadingFraction True x scale cs
        else leadingFraction False y (scale * 10) cs)"

definition unitMap :: "string \<Rightarrow> nat option" where
  "unitMap u =
     (if u = ''ns'' then Some 1
      else if u = ''us'' \<or> u = [CHR 0xC2, CHR 0xB5] @ ''s'' \<or> u = [CHR 0xCE, CHR 0xBC] @ ''s'' then Some (10 ^ 3)
      else if u = ''ms'' then Some (10 ^ 6)
      else if u = ''s'' then Some (10 ^ 9)
      else if u = ''m'' then Some (60 * 10 ^ 9)
      else if u = ''h'' then Some (3600 * 10 ^ 9)
      else None)"

definition unitByte :: "byte \<Rightarrow> bool" where
  "unitByte c \<longleftrightarrow> c \<noteq> CHR ''.'' \<and> \<not> isDigit c"

text \<open>One number with its unit: its nanoseconds and what follows.\<close>

definition durationTerm :: "string \<Rightarrow> (nat \<times> string) option" where
  "durationTerm s =
     (if s = [] \<or> unitByte (hd s) then None
      else case leadingInt 0 s of
        None \<Rightarrow> None
      | Some (v, r) \<Rightarrow>
          let dot = r \<noteq> [] \<and> hd r = CHR ''.'';
              (f, scale, r') = (if dot then leadingFraction False 0 1 (tl r) else (0, 1, r));
              pre = length r < length s;
              post = dot \<and> length r' < length (tl r);
              u = takeWhile unitByte r'
          in if \<not> pre \<and> \<not> post then None
             else (case unitMap u of
                     None \<Rightarrow> None
                   | Some unit \<Rightarrow>
                       if 2 ^ 63 div unit < v then None
                       else let w = v * unit + (if 0 < f then scaleFraction f unit scale else 0) in
                         if 2 ^ 63 < w then None else Some (w, dropWhile unitByte r')))"

lemma leadingInt_rest: "leadingInt x s = Some (v, r) \<Longrightarrow> length r \<le> length s"
  by (induction x s rule: leadingInt.induct) (auto simp: Let_def split: if_splits)

lemma leadingFraction_rest: "leadingFraction over x sc s = (f, sc', r) \<Longrightarrow> length r \<le> length s"
proof (induction s arbitrary: over x sc)
  case (Cons c s)
  then show ?case by (auto simp: Let_def split: if_splits dest!: Cons.IH)
qed simp

lemma unitMap_nonempty: "unitMap u = Some n \<Longrightarrow> u \<noteq> []"
  by (auto simp: unitMap_def)

lemma unitMap_pos: "unitMap u = Some n \<Longrightarrow> 0 < n"
  by (auto simp: unitMap_def split: if_splits)

lemma durationTerm_shorter: "durationTerm s = Some (w, r) \<Longrightarrow> length r < length s"
proof -
  assume t: "durationTerm s = Some (w, r)"
  then obtain v r0 where v: "leadingInt 0 s = Some (v, r0)"
    by (auto simp: durationTerm_def split: if_splits option.splits)
  let ?x = "if r0 \<noteq> [] \<and> hd r0 = CHR ''.'' then leadingFraction False 0 1 (tl r0) else (0, 1, r0)"
  obtain f sc r' where x: "?x = (f, sc, r')" by (cases ?x)
  have "length r' \<le> length r0"
    using x leadingFraction_rest [of False 0 1 "tl r0" f sc r'] by (auto split: if_splits)
  moreover have "takeWhile unitByte r' \<noteq> []" "r = dropWhile unitByte r'"
    using t v unfolding durationTerm_def
    by (auto simp: Let_def x split: if_splits option.splits dest!: unitMap_nonempty)
  moreover have "length (takeWhile unitByte r') + length (dropWhile unitByte r') = length r'"
    by (metis length_append takeWhile_dropWhile_id)
  ultimately show ?thesis using leadingInt_rest [OF v] by (cases "takeWhile unitByte r'") auto
qed

text \<open>The sum of the terms, in \<open>uint64\<close>.\<close>

function durationTerms :: "nat \<Rightarrow> string \<Rightarrow> nat option" where
  "durationTerms d s =
     (if s = [] then Some d
      else case durationTerm s of
        None \<Rightarrow> None
      | Some (w, r) \<Rightarrow>
          let d' = (d + w) mod 2 ^ 64 in if 2 ^ 63 < d' then None else durationTerms d' r)"
  by pat_completeness auto
termination by (relation "measure (length \<circ> snd)") (auto dest: durationTerm_shorter)

declare durationTerms.simps [simp del]

definition parseDuration :: "string \<Rightarrow> int option" where
  "parseDuration orig =
     (case atoiSign orig of (neg, s) \<Rightarrow>
        if s = ''0'' then Some 0
        else if s = [] then None
        else case durationTerms 0 s of
          None \<Rightarrow> None
        | Some d \<Rightarrow>
            if neg then Some (- int d) else if 2 ^ 63 - 1 < d then None else Some (int d))"

section \<open>Its values\<close>

lemma durationTerms_bound: "durationTerms d s = Some n \<Longrightarrow> d \<le> 2 ^ 63 \<Longrightarrow> n \<le> 2 ^ 63"
proof (induction d s rule: durationTerms.induct)
  case (1 d s)
  show ?case
  proof (cases "s = []")
    case True
    with "1.prems" show ?thesis by (simp add: durationTerms.simps [of d "[]"])
  next
    case False
    with "1.prems" obtain w r where w: "durationTerm s = Some (w, r)"
      by (auto simp: durationTerms.simps [of d s] split: option.splits)
    then have "durationTerms ((d + w) mod 2 ^ 64) r = Some n" "(d + w) mod 2 ^ 64 \<le> 2 ^ 63"
      using "1.prems"(1) False by (auto simp: durationTerms.simps [of d s] Let_def split: if_splits)
    with "1.IH" [OF False w refl] show ?thesis by simp
  qed
qed

lemma parseDuration_int64: "parseDuration s = Some x \<Longrightarrow> is_int64 x"
  by (auto simp: parseDuration_def is_int64_def split: prod.splits option.splits if_splits
      dest: durationTerms_bound)

text \<open>A whole number with one of the units.\<close>

lemma leadingInt_digits:
  "list_all isDigit ds \<Longrightarrow> r = [] \<or> \<not> isDigit (hd r) \<Longrightarrow>
   foldl (\<lambda>n c. n * 10 + (code c - 48)) x ds \<le> 2 ^ 63 \<Longrightarrow>
   leadingInt x (ds @ r) = Some (foldl (\<lambda>n c. n * 10 + (code c - 48)) x ds, r)"
proof (induction ds arbitrary: x)
  case Nil
  then show ?case by (cases r) auto
next
  case (Cons c ds)
  have grows: "y \<le> foldl (\<lambda>n c. n * 10 + (code c - 48)) y ds" for y
  proof (induction ds arbitrary: y)
    case (Cons c ds)
    show ?case using Cons [of "y * 10 + (code c - 48)"] by simp
  qed simp
  let ?y = "x * 10 + (code c - 48)"
  have y: "?y \<le> 2 ^ 63" using Cons.prems(3) grows [of ?y] by simp
  then have "x \<le> 2 ^ 63 div 10" by simp
  with y Cons show ?case by simp
qed

lemma foldl_fmtNat: "foldl (\<lambda>n c. n * 10 + (code c - 48)) 0 (fmtNat 10 n) = n"
proof (induction n rule: less_induct)
  case (less n)
  have digit: "code (hexDigit (n mod 10)) - 48 = n mod 10" by (simp add: code_hexDigit)
  show ?case
    using less [of "n div 10"] digit by (subst fmtNat.simps) (cases "n < 10"; simp)
qed

lemma durationTerm_whole:
  assumes "unitMap u = Some m" "list_all unitByte u" "n \<le> 2 ^ 63 div m"
  shows "durationTerm (fmtNat 10 n @ u) = Some (n * m, [])"
proof -
  let ?s = "fmtNat 10 n @ u"
  obtain c cs where u: "u = c # cs" using unitMap_nonempty [OF assms(1)] by (cases u) auto
  then have c: "\<not> isDigit c" "c \<noteq> CHR ''.''" using assms(2) by (simp_all add: unitByte_def)
  have "0 < m" by (rule unitMap_pos [OF assms(1)])
  then have n: "n \<le> 2 ^ 63" using assms(3) by (meson div_le_dividend le_trans)
  have "\<not> unitByte (hd ?s)" using digit_first [of n] by (simp add: unitByte_def)
  moreover have "leadingInt 0 ?s = Some (n, u)"
    using leadingInt_digits [of "fmtNat 10 n" u 0] c(1) n
    by (simp add: foldl_fmtNat list_all_iff isDigit_fmtNat u)
  moreover have "takeWhile unitByte u = u" "dropWhile unitByte u = []"
    using assms(2) by (simp_all add: takeWhile_eq_all_conv list_all_iff)
  moreover have "n * m \<le> 2 ^ 63" using assms(3) by (metis \<open>0 < m\<close> less_eq_div_iff_mult_less_eq)
  ultimately show ?thesis
    using assms(1,3) c(2) by (simp add: durationTerm_def u Let_def)
qed

lemma parseDuration_seconds:
  assumes "\<bar>x\<bar> \<le> 9223372036"
  shows "parseDuration (fmtInt x @ ''s'') = Some (x * 10 ^ 9)"
proof -
  let ?n = "nat \<bar>x\<bar>"
  have u: "unitMap ''s'' = Some (10 ^ 9)" "list_all unitByte ''s''"
    by (simp_all add: unitMap_def unitByte_def isDigit_def)
  have n: "?n \<le> 2 ^ 63 div 10 ^ 9" using assms by simp
  then have d: "?n * 10 ^ 9 < 2 ^ 63" by simp
  have "durationTerms 0 (fmtNat 10 ?n @ ''s'') = Some (?n * 10 ^ 9)"
    using durationTerm_whole [OF u n] d
    by (subst durationTerms.simps) (simp add: durationTerms.simps [of _ "[]"] Let_def)
  moreover have "atoiSign (fmtInt x @ ''s'') = (x < 0, fmtNat 10 ?n @ ''s'')"
  proof (cases "x < 0")
    case False
    obtain c cs where f: "fmtNat 10 ?n = c # cs" by (cases "fmtNat 10 ?n") auto
    then have "c \<noteq> CHR ''-''" "c \<noteq> CHR ''+''" using digit_first [of ?n] by (auto simp: isDigit_def)
    with False f show ?thesis by (simp add: fmtInt_def atoiSign_def)
  qed (simp add: fmtInt_def atoiSign_def)
  moreover have "fmtNat 10 ?n @ ''s'' \<noteq> ''0''" by (cases "fmtNat 10 ?n") auto
  ultimately show ?thesis using d by (auto simp: parseDuration_def)
qed

end
