(* ===== verification/Config.thy ===== *)
theory Config
  imports GoFlag GoNet GoTime
begin

text \<open>
  The server's settings (\<open>internal/config/config.go\<close>): the environment, the command line, the
  checks of \<open>Parse\<close> and the start-up warning.  The environment is a function, \<open>[]\<close> for a
  variable that is not set.
\<close>

record config =
  cfgListen :: string
  cfgToken :: string
  cfgSessionTimeout :: int
  cfgMaxObjectSize :: int
  cfgChunkSize :: int
  cfgMaxSessions :: int

definition defaultListen :: string where "defaultListen = ''0.0.0.0:4567''"
definition defaultToken :: string where "defaultToken = ''SECRET_TOKEN''"
definition defaultMaxObject :: int where "defaultMaxObject = 0"
definition defaultChunkSize :: int where "defaultChunkSize = 32 * 2 ^ 10"
definition defaultSessionTO :: int where "defaultSessionTO = 5 * 60 * 10 ^ 9"

lemmas config_defaults =
  defaultListen_def defaultToken_def defaultMaxObject_def defaultChunkSize_def defaultSessionTO_def

section \<open>The environment\<close>

definition envOr :: "(string \<Rightarrow> string) \<Rightarrow> string \<Rightarrow> string \<Rightarrow> string" where
  "envOr env key fallback = (let v = env key in if v \<noteq> [] then v else fallback)"

definition envOrInt64 :: "(string \<Rightarrow> string) \<Rightarrow> string \<Rightarrow> int \<Rightarrow> int" where
  "envOrInt64 env key fallback =
     (let v = env key in
      if v = [] then fallback
      else case parseInt 10 v of Inl e \<Rightarrow> fallback | Inr n \<Rightarrow> n)"

definition envOrInt :: "(string \<Rightarrow> string) \<Rightarrow> string \<Rightarrow> int \<Rightarrow> int" where
  "envOrInt env key fallback =
     (let v = env key in
      if v = [] then fallback
      else case atoi v of Inl e \<Rightarrow> fallback | Inr n \<Rightarrow> n)"

section \<open>\<open>Parse\<close>\<close>

text \<open>The defaults of the flags, and the flags.\<close>

definition flagDefaults :: "(string \<Rightarrow> string) \<Rightarrow> config" where
  "flagDefaults env =
     \<lparr>cfgListen = envOr env ''PCS_LISTEN'' defaultListen,
      cfgToken = envOr env ''PCS_TOKEN'' defaultToken,
      cfgSessionTimeout = defaultSessionTO,
      cfgMaxObjectSize = envOrInt64 env ''PCS_MAX_OBJECT_SIZE'' defaultMaxObject,
      cfgChunkSize = envOrInt env ''PCS_CHUNK_SIZE'' defaultChunkSize,
      cfgMaxSessions = envOrInt env ''PCS_MAX_SESSIONS'' 0\<rparr>"

definition serverFlags :: "config flag_set" where
  "serverFlags name v c =
     (if name = ''listen'' then Some (Inr (c\<lparr>cfgListen := v\<rparr>))
      else if name = ''token'' then Some (Inr (c\<lparr>cfgToken := v\<rparr>))
      else if name = ''session-timeout''
      then Some (case parseDuration v of
             None \<Rightarrow> Inl (flagError ErrSyntax)
           | Some d \<Rightarrow> Inr (c\<lparr>cfgSessionTimeout := d\<rparr>))
      else if name = ''max-object-size'' then Some (intFlag (\<lambda>n. c\<lparr>cfgMaxObjectSize := n\<rparr>) v)
      else if name = ''chunk-size'' then Some (intFlag (\<lambda>n. c\<lparr>cfgChunkSize := n\<rparr>) v)
      else if name = ''max-sessions'' then Some (intFlag (\<lambda>n. c\<lparr>cfgMaxSessions := n\<rparr>) v)
      else None)"

definition parseConfig :: "(string \<Rightarrow> string) \<Rightarrow> string list \<Rightarrow> config result" where
  "parseConfig env args =
     (case parseArgs serverFlags args (flagDefaults env) of
        Inl e \<Rightarrow> Inl e
      | Inr c \<Rightarrow>
          if cfgToken c = [] then Inl (Errorf ''token must not be empty'')
          else if cfgMaxObjectSize c < 0 then Inl (Errorf ''max-object-size must be >= 0'')
          else if cfgChunkSize c \<le> 0 then Inl (Errorf ''chunk-size must be > 0'')
          else if cfgMaxSessions c < 0 then Inl (Errorf ''max-sessions must be >= 0'')
          else Inr c)"

section \<open>The start-up warning\<close>

definition isLoopbackListen :: "string \<Rightarrow> bool" where
  "isLoopbackListen listen =
     (case splitHostPort listen of
        Inl e \<Rightarrow> False
      | Inr (host, port) \<Rightarrow>
          if host = [] \<or> host = ''0.0.0.0'' \<or> host = ''::'' then False
          else if host = ''localhost'' then True
          else (case parseIP host of None \<Rightarrow> False | Some ip \<Rightarrow> isLoopback ip))"

definition securityWarnings :: "config \<Rightarrow> string list" where
  "securityWarnings c =
     (if cfgToken c = defaultToken \<and> \<not> isLoopbackListen (cfgListen c)
      then [''default token SECRET_TOKEN on non-loopback listen address; set PCS_TOKEN before production use'']
      else [])"

section \<open>What an accepted configuration is\<close>

text \<open>The values fit the types of the Go fields.\<close>

definition configInt64 :: "config \<Rightarrow> bool" where
  "configInt64 c \<longleftrightarrow> is_int64 (cfgSessionTimeout c) \<and> is_int64 (cfgMaxObjectSize c) \<and>
     is_int64 (cfgChunkSize c) \<and> is_int64 (cfgMaxSessions c)"

lemma flagDefaults_int64: "configInt64 (flagDefaults env)"
  by (auto simp: configInt64_def flagDefaults_def envOrInt64_def envOrInt_def Let_def config_defaults
      is_int64_def [of 0] is_int64_def [of "32768"] is_int64_def [of "300000000000"] split: sum.split
      dest: parseInt_is_int64 atoi_is_int64)

lemma serverFlags_int64:
  "serverFlags name v c = Some (Inr c') \<Longrightarrow> configInt64 c \<Longrightarrow> configInt64 c'"
  by (auto simp: serverFlags_def intFlag_def configInt64_def dest!: parseInt_is_int64 parseDuration_int64
      split: if_splits sum.splits option.splits)

text \<open>
  C35: every configuration the server starts with has a token, a size limit that is 0 or a
  positive \<open>int64\<close>, a positive chunk size and a session limit that is not negative, whatever
  the environment and the command line say.
\<close>

theorem parsed_config_valid:
  assumes "parseConfig env args = Inr c"
  shows "cfgToken c \<noteq> [] \<and> 0 \<le> cfgMaxObjectSize c \<and> 0 < cfgChunkSize c \<and> 0 \<le> cfgMaxSessions c \<and>
    configInt64 c"
proof -
  have args: "parseArgs serverFlags args (flagDefaults env) = Inr c"
    using assms by (auto simp: parseConfig_def split: sum.splits if_splits)
  have "configInt64 c"
    by (rule parseArgs_invariant [where P = configInt64, OF _ args flagDefaults_int64])
      (rule serverFlags_int64)
  then show ?thesis
    using assms by (auto simp: parseConfig_def split: sum.splits if_splits)
qed

theorem parsed_config_valid_witness:
  "\<exists>c. parseConfig (\<lambda>_. []) [] = Inr c \<and> cfgToken c \<noteq> [] \<and> configInt64 c"
proof -
  have "parseConfig (\<lambda>_. []) [] = Inr (flagDefaults (\<lambda>_. []))"
    by (simp add: parseConfig_def parseArgs_Nil flagDefaults_def envOr_def envOrInt_def envOrInt64_def
        config_defaults)
  with parsed_config_valid [OF this] show ?thesis by blast
qed

section \<open>The command line and the environment\<close>

lemma parseConfig_timeout_flag:
  assumes "parseDuration v = Some d"
  shows "parseConfig (\<lambda>_. []) [''-session-timeout='' @ v] = Inr ((flagDefaults (\<lambda>_. []))\<lparr>cfgSessionTimeout := d\<rparr>)"
proof -
  have "parseArgs serverFlags [CHR ''-'' # ''session-timeout'' @ CHR ''='' # v] (flagDefaults (\<lambda>_. []))
      = Inr ((flagDefaults (\<lambda>_. []))\<lparr>cfgSessionTimeout := d\<rparr>)"
    using assms by (subst parseArgs_flag) (auto simp: serverFlags_def parseArgs_Nil split: option.split)
  then show ?thesis
    by (simp add: parseConfig_def flagDefaults_def envOr_def envOrInt_def envOrInt64_def config_defaults)
qed

text \<open>
  The session timeout is the only setting that is not checked: a negative one is accepted as
  it is, and the server then sets no deadline at all.
\<close>

theorem negative_timeout_accepted:
  assumes "\<bar>n\<bar> \<le> 9223372036"
  shows "\<exists>c. parseConfig (\<lambda>_. []) [''-session-timeout='' @ fmtInt n @ ''s''] = Inr c \<and>
    cfgSessionTimeout c = n * 10 ^ 9"
  using parseConfig_timeout_flag [OF parseDuration_seconds [OF assms]] by simp

theorem negative_timeout_accepted_witness:
  "\<exists>c. parseConfig (\<lambda>_. []) [''-session-timeout=-5s''] = Inr c \<and> cfgSessionTimeout c = - 5000000000"
proof -
  have "fmtInt (- 5) = ''-5''" by (simp add: fmtInt_def go_text)
  then show ?thesis using negative_timeout_accepted [of "- 5"] by simp
qed

definition sizeOf :: "config result \<Rightarrow> int result" where
  "sizeOf r = (case r of Inl e \<Rightarrow> Inl e | Inr c \<Rightarrow> Inr (cfgMaxObjectSize c))"

lemma parseConfig_size_flag:
  assumes "parseInt 0 v = Inr n" "0 \<le> n"
  shows "sizeOf (parseConfig (\<lambda>_. []) [''-max-object-size='' @ v]) = Inr n"
proof -
  have "parseArgs serverFlags [CHR ''-'' # ''max-object-size'' @ CHR ''='' # v] (flagDefaults (\<lambda>_. []))
      = Inr ((flagDefaults (\<lambda>_. []))\<lparr>cfgMaxObjectSize := n\<rparr>)"
    using assms(1) by (subst parseArgs_flag) (auto simp: serverFlags_def intFlag_def parseArgs_Nil split: sum.split)
  then show ?thesis
    using assms(2)
    by (simp add: parseConfig_def flagDefaults_def envOr_def envOrInt_def config_defaults sizeOf_def)
qed

lemma parseConfig_size_env:
  "sizeOf (parseConfig (\<lambda>k. if k = ''PCS_MAX_OBJECT_SIZE'' then v else []) []) =
     (case envOrInt64 (\<lambda>k. v) [] 0 of n \<Rightarrow>
        if n < 0 then Inl (Errorf ''max-object-size must be >= 0'') else Inr n)"
  by (simp add: parseConfig_def parseArgs_Nil flagDefaults_def envOr_def envOrInt_def envOrInt64_def
      config_defaults sizeOf_def Let_def split: sum.split)

text \<open>
  The flag and the environment variable read the same text as different numbers.  Behind
  a leading zero, \<open>-max-object-size\<close> takes octal digits and \<open>PCS_MAX_OBJECT_SIZE\<close> decimal ones.
\<close>

theorem octal_flag_decimal_env:
  assumes "n < 2 ^ 63"
  shows "sizeOf (parseConfig (\<lambda>_. []) [''-max-object-size=0'' @ fmtNat 8 n]) = Inr (int n) \<and>
    sizeOf (parseConfig (\<lambda>k. if k = ''PCS_MAX_OBJECT_SIZE'' then ''0'' @ fmtNat 10 n else []) []) =
      Inr (int n)"
  using parseConfig_size_flag [OF parseInt_leading_zero(2) [OF assms]] parseInt_leading_zero(1) [OF assms]
  by (simp add: parseConfig_size_env envOrInt64_def del: fmtNat.simps)

theorem octal_flag_decimal_env_witness:
  "sizeOf (parseConfig (\<lambda>_. []) [''-max-object-size=010'']) = Inr 8 \<and>
   sizeOf (parseConfig (\<lambda>k. if k = ''PCS_MAX_OBJECT_SIZE'' then ''010'' else []) []) = Inr 10"
proof -
  have "fmtNat 8 8 = ''10''" "fmtNat 10 10 = ''10''" by (simp_all add: go_text)
  then show ?thesis
    using octal_flag_decimal_env [of 8] octal_flag_decimal_env [of 10]
    by (simp cong: if_cong)
qed

text \<open>
  A limit in the environment that is not a number is ignored without a message: the
  server starts, and its documents have no limit.
\<close>

theorem unreadable_env_limit_ignored:
  assumes "parseInt 10 v = Inl e"
  shows "sizeOf (parseConfig (\<lambda>k. if k = ''PCS_MAX_OBJECT_SIZE'' then v else []) []) = Inr 0"
  using assms by (simp add: parseConfig_size_env envOrInt64_def)

theorem unreadable_env_limit_ignored_witness:
  "sizeOf (parseConfig (\<lambda>k. if k = ''PCS_MAX_OBJECT_SIZE'' then ''64MiB'' else []) []) = Inr 0"
  by (rule unreadable_env_limit_ignored [where e = ErrSyntax])
    (simp add: parseInt_def atoiSign_def uintDigits_def digitVal_def)

text \<open>
  The flags end at the first argument that is not one.  Whatever follows it has no
  effect: \<open>pcs-service start --token=x\<close> runs with the token it would have had anyway.
\<close>

theorem operand_hides_flags:
  assumes "hd s \<noteq> CHR ''-''"
  shows "parseConfig env (s # args) = parseConfig env []"
  using assms by (simp add: parseConfig_def parseArgs_operand splitFlag_def parseArgs_Nil)

theorem operand_hides_flags_witness:
  "parseConfig (\<lambda>_. []) [''start'', ''--token=x''] = parseConfig (\<lambda>_. []) []"
  by (rule operand_hides_flags) simp

lemma dotted_not_special:
  "dotted a b c d \<noteq> []" "dotted a b c d \<noteq> ''localhost''" "dotted a b c d \<noteq> ''::''"
proof -
  have "CHR ''.'' \<in> set (dotted a b c d)" by (simp add: dotted_def)
  then show "dotted a b c d \<noteq> []" "dotted a b c d \<noteq> ''localhost''" "dotted a b c d \<noteq> ''::''"
    by auto
qed

lemma dotted_zero:
  assumes "a \<le> 255" "b \<le> 255" "c \<le> 255" "d \<le> 255" "dotted a b c d = ''0.0.0.0''"
  shows "a = 0"
proof -
  have "parseIPv4 ''0.0.0.0'' = Some [0, 0, 0, 0]"
    by (simp add: parseIPv4_def digitVal_def)
  with parseIPv4_dotted [OF assms(1-4)] assms(5) show ?thesis by simp
qed

text \<open>
  The start-up warning for an IPv4 listen address: it is given exactly for the default
  token on an address outside 127.0.0.0/8.
\<close>

theorem warning_for_ipv4:
  assumes "a1 \<le> 255" "a2 \<le> 255" "a3 \<le> 255" "a4 \<le> 255"
    and "cfgListen c = dotted a1 a2 a3 a4 @ '':'' @ fmtInt port"
  shows "securityWarnings c \<noteq> [] \<longleftrightarrow> cfgToken c = defaultToken \<and> a1 \<noteq> 127"
proof -
  have "isLoopbackListen (cfgListen c) \<longleftrightarrow> a1 = 127"
    using assms(5) dotted_zero [OF assms(1-4)]
    by (auto simp: isLoopbackListen_def splitHostPort_dotted parseIP_dotted [OF assms(1-4)]
        dotted_not_special isLoopback_def nth_append)
  then show ?thesis by (simp add: securityWarnings_def)
qed

theorem warning_for_ipv4_witness:
  "securityWarnings \<lparr>cfgListen = ''10.0.0.1:80'', cfgToken = ''SECRET_TOKEN'', cfgSessionTimeout = 0,
     cfgMaxObjectSize = 0, cfgChunkSize = 1, cfgMaxSessions = 0\<rparr> \<noteq> []"
  using warning_for_ipv4 [of 10 0 0 1 "\<lparr>cfgListen = ''10.0.0.1:80'', cfgToken = ''SECRET_TOKEN'',
     cfgSessionTimeout = 0, cfgMaxObjectSize = 0, cfgChunkSize = 1, cfgMaxSessions = 0\<rparr>" 80]
  by (simp add: dotted_def fmtInt_def go_text defaultToken_def)

end
