(* ===== verification/ServerLoop.thy ===== *)
theory ServerLoop
  imports Steps
begin

text \<open>
  The accept loop, the session slots and the shutdown of \<open>internal/server/server.go\<close>
  (\<open>New\<close>, \<open>Serve\<close>, \<open>Shutdown\<close>, \<open>tryAcquireSession\<close>, \<open>releaseSession\<close>, \<open>isShuttingDown\<close>) as a
  step relation over the goroutines involved: the one in \<open>Serve\<close>, the one in \<open>Shutdown\<close> and
  one for each session.  Every step is one operation on shared state (the flag under the
  mutex, the listener, the channel of slots, the wait group).
\<close>

section \<open>State\<close>

text \<open>Where \<open>Serve\<close> is; \<open>Added\<close> is between \<open>wg.Add\<close> and the \<open>go\<close> statement.\<close>

datatype serve_pc =
    NotServing
  | AtAccept
  | AcceptFailed go_error
  | Accepted
  | Acquired
  | Added
  | ServeReturned "go_error option"

text \<open>Where \<open>Shutdown\<close> is; \<open>FlagSet\<close> is after the critical section.\<close>

datatype shut_pc =
    ShutIdle
  | FlagSet
  | Waiting
  | ShutReturned "go_error option"

text \<open>
  \<open>semTokens\<close> is the number of elements in the channel \<open>sessionSem\<close>, \<open>wg\<close> the counter of the
  wait group; \<open>handling\<close> counts the goroutines in \<open>handleCom\<close>, \<open>released\<close> those that have
  given their slot back and not yet called \<open>wg.Done\<close>.  \<open>shutLn\<close> is the local \<open>ln\<close> of
  \<open>Shutdown\<close>: whether it saw a listener.
\<close>

record srv =
  maxSessions :: nat
  shuttingDown :: bool
  lnSet :: bool
  lnClosed :: bool
  semTokens :: nat
  wg :: nat
  handling :: nat
  released :: nat
  servePc :: serve_pc
  shutPc :: shut_pc
  shutLn :: bool

section \<open>Operations\<close>

text \<open>\<open>New\<close>: a limit that is not positive makes no channel.\<close>

definition newServer :: "int \<Rightarrow> srv" where
  "newServer maxConcurrent =
     \<lparr>maxSessions = (if 0 < maxConcurrent then nat maxConcurrent else 0), shuttingDown = False,
      lnSet = False, lnClosed = False, semTokens = 0, wg = 0, handling = 0, released = 0,
      servePc = NotServing, shutPc = ShutIdle, shutLn = False\<rparr>"

definition isShuttingDown :: "srv \<Rightarrow> bool" where
  "isShuttingDown s = shuttingDown s"

definition tryAcquireSession :: "srv \<Rightarrow> srv \<times> bool" where
  "tryAcquireSession s =
     (if maxSessions s = 0 then (s, True)
      else if semTokens s < maxSessions s then (s\<lparr>semTokens := semTokens s + 1\<rparr>, True)
      else (s, False))"

text \<open>Receiving from an empty channel would block: the step below asks for a token.\<close>

definition canRelease :: "srv \<Rightarrow> bool" where
  "canRelease s \<longleftrightarrow> maxSessions s = 0 \<or> 0 < semTokens s"

definition releaseSession :: "srv \<Rightarrow> srv" where
  "releaseSession s = (if maxSessions s = 0 then s else s\<lparr>semTokens := semTokens s - 1\<rparr>)"

section \<open>Steps\<close>

inductive srv_step :: "srv \<Rightarrow> srv \<Rightarrow> bool" where
  serve: "servePc s = NotServing \<Longrightarrow> srv_step s (s\<lparr>lnSet := True, servePc := AtAccept\<rparr>)"
| accept: "servePc s = AtAccept \<Longrightarrow> \<not> lnClosed s \<Longrightarrow> srv_step s (s\<lparr>servePc := Accepted\<rparr>)"
| accept_fails: "servePc s = AtAccept \<Longrightarrow> srv_step s (s\<lparr>servePc := AcceptFailed e\<rparr>)"
| serve_returns: "servePc s = AcceptFailed e \<Longrightarrow>
    srv_step s (s\<lparr>servePc := ServeReturned
      (if isShuttingDown s then None else Some (Wrapf ''accept'' e))\<rparr>)"
| admit: "servePc s = Accepted \<Longrightarrow> tryAcquireSession s = (s', True) \<Longrightarrow>
    srv_step s (s'\<lparr>servePc := Acquired\<rparr>)"
| reject: "servePc s = Accepted \<Longrightarrow> tryAcquireSession s = (s', False) \<Longrightarrow>
    srv_step s (s'\<lparr>servePc := AtAccept\<rparr>)"
| wg_add: "servePc s = Acquired \<Longrightarrow> srv_step s (s\<lparr>wg := wg s + 1, servePc := Added\<rparr>)"
| spawn: "servePc s = Added \<Longrightarrow> srv_step s (s\<lparr>handling := handling s + 1, servePc := AtAccept\<rparr>)"
| session_ends: "0 < handling s \<Longrightarrow> canRelease s \<Longrightarrow>
    srv_step s ((releaseSession s)\<lparr>handling := handling s - 1, released := released s + 1\<rparr>)"
| wg_done: "0 < released s \<Longrightarrow> srv_step s (s\<lparr>released := released s - 1, wg := wg s - 1\<rparr>)"
| shutdown: "shutPc s = ShutIdle \<Longrightarrow>
    srv_step s (s\<lparr>shuttingDown := True, shutLn := lnSet s, shutPc := FlagSet\<rparr>)"
| close_listener: "shutPc s = FlagSet \<Longrightarrow>
    srv_step s (s\<lparr>lnClosed := (lnClosed s \<or> shutLn s), shutPc := Waiting\<rparr>)"
| all_done: "shutPc s = Waiting \<Longrightarrow> wg s = 0 \<Longrightarrow> srv_step s (s\<lparr>shutPc := ShutReturned None\<rparr>)"
| deadline: "shutPc s = Waiting \<Longrightarrow> srv_step s (s\<lparr>shutPc := ShutReturned (Some e)\<rparr>)"

inductive_cases srv_stepE: "srv_step s s'"

section \<open>The slots\<close>

definition pending :: "srv \<Rightarrow> nat" where
  "pending s = (if servePc s = Acquired \<or> servePc s = Added then 1 else 0)"

definition slots_invar :: "srv \<Rightarrow> bool" where
  "slots_invar s \<longleftrightarrow>
     semTokens s = (if maxSessions s = 0 then 0 else handling s + pending s) \<and>
     semTokens s \<le> maxSessions s \<and>
     wg s = handling s + released s + (if servePc s = Added then 1 else 0)"

lemma slots_step: "slots_invar s \<Longrightarrow> srv_step s s' \<Longrightarrow> slots_invar s' \<and> maxSessions s' = maxSessions s"
  by (erule srv_stepE)
     (auto simp: slots_invar_def pending_def tryAcquireSession_def releaseSession_def canRelease_def
       split: if_splits)

interpretation slots: invariant_system srv_step "\<lambda>s. \<exists>n. s = newServer n" slots_invar
proof
  show "\<exists>n. s = newServer n \<Longrightarrow> slots_invar s" for s
    by (auto simp: slots_invar_def newServer_def pending_def)
  show "slots_invar s \<Longrightarrow> srv_step s s' \<Longrightarrow> slots_invar s'" for s s'
    using slots_step by blast
qed

lemma run_maxSessions: "rtranclp srv_step s s' \<Longrightarrow> slots_invar s \<Longrightarrow> maxSessions s' = maxSessions s"
proof (induction rule: rtranclp_induct)
  case (step y z)
  with slots.run_invar [of s y] slots_step [of y z] show ?case by simp
qed simp

lemma new_slots: "slots_invar (newServer n)"
  by (rule slots.start_invar) blast

text \<open>
  C15: the limit on concurrent sessions.  At every moment the sessions being handled, with
  the one being admitted, are as many as the slots taken and at most the configured limit; a
  connection is turned away exactly when the limit is reached.
\<close>

theorem session_limit:
  assumes "rtranclp srv_step (newServer n) s" "0 < n"
  shows "handling s + pending s = semTokens s \<and> int (semTokens s) \<le> n \<and>
    (servePc s = Accepted \<longrightarrow> snd (tryAcquireSession s) = (int (handling s) < n))"
proof -
  have m: "maxSessions s = nat n"
    using run_maxSessions [OF assms(1) new_slots] assms(2) by (simp add: newServer_def)
  have "slots_invar s" using slots.run_invar [OF assms(1) new_slots] .
  with m assms(2) show ?thesis
    by (auto simp: slots_invar_def tryAcquireSession_def pending_def)
qed

section \<open>Shutdown\<close>

definition inFlight :: "srv \<Rightarrow> nat" where
  "inFlight s = (if servePc s = Accepted \<or> servePc s = Acquired \<or> servePc s = Added then 1 else 0)"

definition shut_invar :: "srv \<Rightarrow> bool" where
  "shut_invar s \<longleftrightarrow>
     slots_invar s \<and>
     (shutPc s \<noteq> ShutIdle \<and> shutPc s \<noteq> FlagSet \<and> shutLn s \<longrightarrow> lnClosed s) \<and>
     (shutPc s = ShutReturned None \<and> shutLn s \<longrightarrow> handling s + released s + inFlight s \<le> 1)"

lemma shut_step:
  assumes "shut_invar s" "srv_step s s'"
  shows "shut_invar s'"
proof -
  have slots: "slots_invar s'" using assms slots_step by (auto simp: shut_invar_def)
  have s: "slots_invar s" using assms(1) by (simp add: shut_invar_def)
  from assms(2) show ?thesis
    by (cases rule: srv_step.cases)
       (use assms(1) s slots in \<open>auto simp: shut_invar_def inFlight_def tryAcquireSession_def releaseSession_def
          slots_invar_def split: if_splits\<close>)
qed

interpretation shut: invariant_system srv_step "\<lambda>s. \<exists>n. s = newServer n" shut_invar
proof
  show "\<exists>n. s = newServer n \<Longrightarrow> shut_invar s" for s
    using new_slots by (auto simp: shut_invar_def newServer_def inFlight_def)
  show "shut_invar s \<Longrightarrow> srv_step s s' \<Longrightarrow> shut_invar s'" for s s'
    by (rule shut_step)
qed

lemmas srv_to = step_to [where r = srv_step]

lemma late_session:
  "\<exists>s. rtranclp srv_step (newServer n) s \<and> shutPc s = ShutReturned None \<and> shutLn s \<and> handling s = 1"
proof -
  let ?s0 = "newServer n"
  let ?s1 = "?s0\<lparr>lnSet := True, servePc := AtAccept\<rparr>"
  let ?s2 = "?s1\<lparr>servePc := Accepted\<rparr>"
  let ?s3 = "?s2\<lparr>shuttingDown := True, shutLn := True, shutPc := FlagSet\<rparr>"
  let ?s4 = "?s3\<lparr>lnClosed := True, shutPc := Waiting\<rparr>"
  let ?s5 = "?s4\<lparr>shutPc := ShutReturned None\<rparr>"
  let ?s6 = "(fst (tryAcquireSession ?s5))\<lparr>servePc := Acquired\<rparr>"
  let ?s7 = "?s6\<lparr>wg := wg ?s6 + 1, servePc := Added\<rparr>"
  let ?s8 = "?s7\<lparr>handling := handling ?s7 + 1, servePc := AtAccept\<rparr>"
  have "rtranclp srv_step ?s0 ?s1"
    by (rule srv_to [OF rtranclp.rtrancl_refl srv_step.serve]) (simp_all add: newServer_def)
  then have "rtranclp srv_step ?s0 ?s2"
    by (rule srv_to [OF _ srv_step.accept]) (simp_all add: newServer_def)
  then have "rtranclp srv_step ?s0 ?s3"
    by (rule srv_to [OF _ srv_step.shutdown]) (simp_all add: newServer_def)
  then have "rtranclp srv_step ?s0 ?s4"
    by (rule srv_to [OF _ srv_step.close_listener]) (simp_all add: newServer_def)
  then have "rtranclp srv_step ?s0 ?s5"
    by (rule srv_to [OF _ srv_step.all_done]) (simp_all add: newServer_def)
  then have "rtranclp srv_step ?s0 ?s6"
    by (rule srv_to [OF _ srv_step.admit [of _ "fst (tryAcquireSession ?s5)"]])
       (simp_all add: newServer_def tryAcquireSession_def)
  then have "rtranclp srv_step ?s0 ?s7"
    by (rule srv_to [OF _ srv_step.wg_add]) simp_all
  then have "rtranclp srv_step ?s0 ?s8"
    by (rule srv_to [OF _ srv_step.spawn]) simp_all
  then show ?thesis
    by (intro exI [of _ ?s8]) (simp add: tryAcquireSession_def newServer_def)
qed

text \<open>
  A shutdown before \<open>Serve\<close> has stored its listener closes nothing; \<open>Serve\<close> does not look at
  the flag before an accept fails, so it goes on admitting sessions.
\<close>

lemma shutdown_before_serve:
  "\<exists>s. rtranclp srv_step (newServer n) s \<and> shutPc s = ShutReturned None \<and>
    \<not> shutLn s \<and> servePc s = AtAccept \<and> \<not> lnClosed s \<and> handling s = 0"
proof -
  let ?s0 = "newServer n"
  let ?s1 = "?s0\<lparr>shuttingDown := True, shutLn := False, shutPc := FlagSet\<rparr>"
  let ?s2 = "?s1\<lparr>lnClosed := False, shutPc := Waiting\<rparr>"
  let ?s3 = "?s2\<lparr>shutPc := ShutReturned None\<rparr>"
  let ?s4 = "?s3\<lparr>lnSet := True, servePc := AtAccept\<rparr>"
  have "rtranclp srv_step ?s0 ?s1"
    by (rule srv_to [OF rtranclp.rtrancl_refl srv_step.shutdown]) (simp_all add: newServer_def)
  then have "rtranclp srv_step ?s0 ?s2"
    by (rule srv_to [OF _ srv_step.close_listener]) (simp_all add: newServer_def)
  then have "rtranclp srv_step ?s0 ?s3"
    by (rule srv_to [OF _ srv_step.all_done]) (simp_all add: newServer_def)
  then have "rtranclp srv_step ?s0 ?s4"
    by (rule srv_to [OF _ srv_step.serve]) (simp_all add: newServer_def)
  then show ?thesis
    by (intro exI [of _ ?s4]) (simp add: newServer_def)
qed

lemma more_sessions:
  assumes s: "rtranclp srv_step (newServer n) s" "shutPc s = ShutReturned None" "\<not> shutLn s"
      "servePc s = AtAccept" "\<not> lnClosed s"
    and room: "n \<le> 0 \<or> int (handling s) < n"
  shows "\<exists>s'. rtranclp srv_step (newServer n) s' \<and> shutPc s' = ShutReturned None \<and> \<not> shutLn s' \<and>
    servePc s' = AtAccept \<and> \<not> lnClosed s' \<and> handling s' = Suc (handling s)"
proof -
  let ?s1 = "s\<lparr>servePc := Accepted\<rparr>"
  let ?s2 = "(fst (tryAcquireSession ?s1))\<lparr>servePc := Acquired\<rparr>"
  let ?s3 = "?s2\<lparr>wg := wg ?s2 + 1, servePc := Added\<rparr>"
  let ?s4 = "?s3\<lparr>handling := handling ?s3 + 1, servePc := AtAccept\<rparr>"
  have "slots_invar s" "maxSessions s = (if 0 < n then nat n else 0)"
    using slots.run_invar [OF s(1) new_slots] run_maxSessions [OF s(1) new_slots]
    by (simp_all add: newServer_def)
  then have free: "snd (tryAcquireSession ?s1)"
    using room s(4) by (auto simp: tryAcquireSession_def slots_invar_def pending_def)
  have "rtranclp srv_step (newServer n) ?s1"
    by (rule srv_to [OF s(1) srv_step.accept]) (simp_all add: s)
  then have "rtranclp srv_step (newServer n) ?s2"
    by (rule srv_to [OF _ srv_step.admit [of _ "fst (tryAcquireSession ?s1)"]])
       (use free in \<open>simp_all add: prod_eq_iff\<close>)
  then have "rtranclp srv_step (newServer n) ?s3"
    by (rule srv_to [OF _ srv_step.wg_add]) simp_all
  then have "rtranclp srv_step (newServer n) ?s4"
    by (rule srv_to [OF _ srv_step.spawn]) simp_all
  with s show ?thesis
    by (intro exI [of _ ?s4]) (auto simp: tryAcquireSession_def)
qed

lemma unbounded_after_shutdown:
  "n \<le> 0 \<or> int k \<le> n \<Longrightarrow> \<exists>s. rtranclp srv_step (newServer n) s \<and> shutPc s = ShutReturned None \<and>
    \<not> shutLn s \<and> servePc s = AtAccept \<and> \<not> lnClosed s \<and> handling s = k"
proof (induction k)
  case 0
  show ?case using shutdown_before_serve .
next
  case (Suc k)
  then obtain s where s: "rtranclp srv_step (newServer n) s" "shutPc s = ShutReturned None" "\<not> shutLn s"
      "servePc s = AtAccept" "\<not> lnClosed s" "handling s = k" by auto
  then show ?case using more_sessions [OF s(1-5)] Suc.prems by auto
qed

lemma one_session_left:
  assumes "rtranclp srv_step (newServer n) s" "shutPc s = ShutReturned None" "shutLn s"
  shows "lnClosed s \<and> handling s + released s \<le> 1"
proof -
  have "shut_invar s" using shut.reachable_invar [OF _ assms(1)] by blast
  with assms(2,3) show ?thesis by (auto simp: shut_invar_def)
qed

text \<open>
  C34: what a shutdown that reported success leaves.  If it found the listener that \<open>Serve\<close>
  stores (\<open>shutLn\<close>), the listener is closed and at most one session is left, the one whose
  connection was accepted before.  If it ran before \<open>Serve\<close> had stored its listener, it closed
  nothing: any number of sessions can be running afterwards, up to the configured limit.
\<close>

theorem shutdown_leaves_at_most_one:
  "(rtranclp srv_step (newServer n) s \<and> shutPc s = ShutReturned None \<and> shutLn s \<longrightarrow>
      lnClosed s \<and> handling s + released s \<le> 1) \<and>
   (n \<le> 0 \<or> int k \<le> n \<longrightarrow> (\<exists>s'. rtranclp srv_step (newServer n) s' \<and> shutPc s' = ShutReturned None \<and>
      \<not> shutLn s' \<and> \<not> lnClosed s' \<and> handling s' = k))"
  using one_session_left unbounded_after_shutdown by blast

theorem shutdown_leaves_at_most_one_witness:
  "(\<exists>s. rtranclp srv_step (newServer 1) s \<and> shutPc s = ShutReturned None \<and> handling s = 1 \<and> released s = 0) \<and>
   (\<exists>s. rtranclp srv_step (newServer 0) s \<and> shutPc s = ShutReturned None \<and> handling s = 100)"
proof -
  obtain s where s: "rtranclp srv_step (newServer 1) s" "shutPc s = ShutReturned None" "shutLn s"
      "handling s = 1"
    using late_session by blast
  then have "released s = 0" using shutdown_leaves_at_most_one [of 1 s 0] by auto
  with s show ?thesis using shutdown_leaves_at_most_one [of 0 "newServer 0" 100] by auto
qed

text \<open>
  The bound is reached.  A connection accepted just before the shutdown is added to the
  wait group only after \<open>Wait\<close> has returned: \<open>Shutdown\<close> reports success while a session
  starts.
\<close>

theorem shutdown_misses_a_session:
  "\<exists>s. rtranclp srv_step (newServer n) s \<and> shutPc s = ShutReturned None \<and> shutLn s \<and> handling s = 1"
  by (rule late_session)

text \<open>One session with a limit of one: the slot is taken, the next connection is refused.\<close>

lemma one_session:
  "\<exists>s. rtranclp srv_step (newServer 1) s \<and> handling s = 1 \<and> servePc s = Accepted"
proof -
  let ?s0 = "newServer 1"
  let ?s1 = "?s0\<lparr>lnSet := True, servePc := AtAccept\<rparr>"
  let ?s2 = "?s1\<lparr>servePc := Accepted\<rparr>"
  let ?s3 = "(fst (tryAcquireSession ?s2))\<lparr>servePc := Acquired\<rparr>"
  let ?s4 = "?s3\<lparr>wg := 1, servePc := Added\<rparr>"
  let ?s5 = "?s4\<lparr>handling := 1, servePc := AtAccept\<rparr>"
  let ?s6 = "?s5\<lparr>servePc := Accepted\<rparr>"
  have "rtranclp srv_step ?s0 ?s1"
    by (rule srv_to [OF rtranclp.rtrancl_refl srv_step.serve]) (simp_all add: newServer_def)
  then have "rtranclp srv_step ?s0 ?s2"
    by (rule srv_to [OF _ srv_step.accept]) (simp_all add: newServer_def)
  then have "rtranclp srv_step ?s0 ?s3"
    by (rule srv_to [OF _ srv_step.admit [of _ "fst (tryAcquireSession ?s2)"]])
       (simp_all add: newServer_def tryAcquireSession_def)
  then have "rtranclp srv_step ?s0 ?s4"
    by (rule srv_to [OF _ srv_step.wg_add]) (simp_all add: newServer_def tryAcquireSession_def)
  then have "rtranclp srv_step ?s0 ?s5"
    by (rule srv_to [OF _ srv_step.spawn]) (simp_all add: newServer_def tryAcquireSession_def)
  then have "rtranclp srv_step ?s0 ?s6"
    by (rule srv_to [OF _ srv_step.accept]) (simp_all add: newServer_def tryAcquireSession_def)
  then show ?thesis
    by (intro exI [of _ ?s6]) (simp add: tryAcquireSession_def newServer_def)
qed

theorem session_limit_witness:
  "\<exists>s. rtranclp srv_step (newServer 1) s \<and> handling s = 1 \<and> \<not> snd (tryAcquireSession s)"
proof -
  obtain s where s: "rtranclp srv_step (newServer 1) s" "handling s = 1" "servePc s = Accepted"
    using one_session by blast
  from session_limit [OF s(1)] s show ?thesis by auto
qed

end
