(* ===== verification/ServiceMain.thy ===== *)
theory ServiceMain
  imports Config ServerLoop
begin

text \<open>
  The server program (\<open>cmd/pcs-service/main.go\<close>): start-up, and when the process exits.  The
  process runs the steps of theory \<open>ServerLoop\<close>; the signal goroutine calls \<open>Shutdown\<close>, whose
  steps are among them, and \<open>main\<close> returns when \<open>Serve\<close> does.
\<close>

section \<open>Start-up\<close>

definition listeningLine :: "config \<Rightarrow> string" where
  "listeningLine c =
     ''pcs-service listening on '' @ cfgListen c @ '' (max-object-size='' @
     (if 0 < cfgMaxObjectSize c then fmtInt (cfgMaxObjectSize c) else ''unlimited'') @
     '', max-sessions='' @ fmtInt (cfgMaxSessions c) @ '')''"

text \<open>The lines printed, and the exit code or the server that starts to serve.\<close>

definition serviceStart :: "(string \<Rightarrow> string) \<Rightarrow> (string \<Rightarrow> go_error option)
    \<Rightarrow> string list \<Rightarrow> string list \<times> (nat + srv)" where
  "serviceStart env listen args =
     (case parseConfig env args of
        Inl e \<Rightarrow> ([''config: '' @ errMsg e], Inl 1)
      | Inr c \<Rightarrow>
          let logs = map (\<lambda>w. ''warning: '' @ w) (securityWarnings c) @ [listeningLine c] in
          (case listen (cfgListen c) of
             Some e \<Rightarrow> (logs @ [''listen: '' @ errMsg e], Inl 1)
           | None \<Rightarrow> (logs, Inr (newServer (cfgMaxSessions c)))))"

text \<open>\<open>ListenAndServe\<close>, which the program does not call: the error, or the address served.\<close>

definition listenAndServe :: "(string \<Rightarrow> go_error option) \<Rightarrow> config \<Rightarrow> srv result" where
  "listenAndServe listen c =
     (case listen (cfgListen c) of
        Some e \<Rightarrow> Inl (Wrapf (''listen '' @ cfgListen c) e)
      | None \<Rightarrow> Inr (newServer (cfgMaxSessions c)))"

text \<open>The lines of the signal goroutine: before and, if it fails, after \<open>Shutdown\<close>.\<close>

definition signalLines :: "shut_pc \<Rightarrow> string list" where
  "signalLines pc =
     (case pc of
        ShutIdle \<Rightarrow> []
      | ShutReturned (Some e) \<Rightarrow> [''pcs-service shutting down'', ''shutdown: '' @ errMsg e]
      | _ \<Rightarrow> [''pcs-service shutting down''])"

text \<open>The exit code of a process that has left \<open>main\<close>.\<close>

definition serviceExit :: "srv \<Rightarrow> nat option" where
  "serviceExit s =
     (case servePc s of
        ServeReturned None \<Rightarrow> Some 0
      | ServeReturned (Some e) \<Rightarrow> Some 1
      | _ \<Rightarrow> None)"

section \<open>The exit\<close>

definition serving :: "int \<Rightarrow> nat \<Rightarrow> srv" where
  "serving m k = (newServer m)\<lparr>lnSet := True, semTokens := (if maxSessions (newServer m) = 0 then 0 else k),
     wg := k, handling := k, servePc := AtAccept\<rparr>"

lemma serving_start: "rtranclp srv_step (newServer m) (serving m 0)"
proof -
  have "rtranclp srv_step (newServer m) ((newServer m)\<lparr>lnSet := True, servePc := AtAccept\<rparr>)"
    by (rule srv_to [OF rtranclp.rtrancl_refl srv_step.serve]) (simp_all add: newServer_def)
  then show ?thesis by (simp add: serving_def newServer_def)
qed

text \<open>One more session, when a slot is free.\<close>

lemma serving_more:
  assumes "maxSessions (newServer m) = 0 \<or> k < maxSessions (newServer m)"
  shows "rtranclp srv_step (serving m k) (serving m (Suc k))"
proof -
  let ?s0 = "serving m k"
  let ?s1 = "?s0\<lparr>servePc := Accepted\<rparr>"
  let ?t = "fst (tryAcquireSession ?s1)"
  let ?s2 = "?t\<lparr>servePc := Acquired\<rparr>"
  let ?s3 = "?s2\<lparr>wg := wg ?s2 + 1, servePc := Added\<rparr>"
  let ?s4 = "?s3\<lparr>handling := handling ?s3 + 1, servePc := AtAccept\<rparr>"
  have room: "0 < m \<longrightarrow> k < nat m" using assms by (auto simp: newServer_def)
  then have ok: "tryAcquireSession ?s1 = (?t, True)"
    by (simp add: tryAcquireSession_def serving_def newServer_def)
  have "rtranclp srv_step ?s0 ?s1"
    by (rule srv_to [OF rtranclp.rtrancl_refl srv_step.accept]) (simp_all add: serving_def newServer_def)
  then have "rtranclp srv_step ?s0 ?s2" by (rule srv_to [OF _ srv_step.admit [OF _ ok]]) simp_all
  then have "rtranclp srv_step ?s0 ?s3" by (rule srv_to [OF _ srv_step.wg_add]) simp_all
  then have "rtranclp srv_step ?s0 ?s4" by (rule srv_to [OF _ srv_step.spawn]) simp_all
  moreover have "?s4 = serving m (Suc k)"
    using room by (simp add: serving_def tryAcquireSession_def newServer_def)
  ultimately show ?thesis by simp
qed

lemma serving_many:
  "maxSessions (newServer m) = 0 \<or> k \<le> maxSessions (newServer m) \<Longrightarrow>
   rtranclp srv_step (newServer m) (serving m k)"
proof (induction k)
  case 0
  show ?case by (rule serving_start)
next
  case (Suc k)
  then have "rtranclp srv_step (newServer m) (serving m k)" by auto
  moreover from Suc.prems have "rtranclp srv_step (serving m k) (serving m (Suc k))"
    by (intro serving_more) auto
  ultimately show ?case by (rule rtranclp_trans)
qed

text \<open>
  C38: the graceful shutdown is none.  On a signal the listener is closed, \<open>Serve\<close> returns, and
  with it \<open>main\<close>: the process exits with code 0 while any number of sessions up to the limit is
  still running and \<open>Shutdown\<close> is still waiting for them.
\<close>

theorem exit_abandons_sessions:
  assumes "serviceStart env listen args = (logs, Inr s0)"
    and "maxSessions s0 = 0 \<or> k \<le> maxSessions s0"
  shows "\<exists>s. rtranclp srv_step s0 s \<and> serviceExit s = Some 0 \<and> handling s = k \<and> shutPc s = Waiting"
proof -
  obtain m where s0: "s0 = newServer m"
    using assms(1) by (auto simp: serviceStart_def Let_def split: sum.splits option.splits)
  let ?s1 = "(serving m k)\<lparr>shuttingDown := True, shutLn := lnSet (serving m k), shutPc := FlagSet\<rparr>"
  let ?s2 = "?s1\<lparr>lnClosed := (lnClosed ?s1 \<or> shutLn ?s1), shutPc := Waiting\<rparr>"
  let ?s3 = "?s2\<lparr>servePc := AcceptFailed EOF\<rparr>"
  let ?s4 = "?s3\<lparr>servePc := ServeReturned None\<rparr>"
  have "rtranclp srv_step s0 (serving m k)" using serving_many assms(2) by (simp add: s0)
  then have "rtranclp srv_step s0 ?s1"
    by (rule srv_to [OF _ srv_step.shutdown]) (simp_all add: serving_def newServer_def)
  then have "rtranclp srv_step s0 ?s2" by (rule srv_to [OF _ srv_step.close_listener]) simp_all
  then have "rtranclp srv_step s0 ?s3"
    by (rule srv_to [OF _ srv_step.accept_fails]) (simp_all add: serving_def)
  then have "rtranclp srv_step s0 ?s4"
    by (rule srv_to [OF _ srv_step.serve_returns]) (simp_all add: isShuttingDown_def)
  then show ?thesis
    by (intro exI [of _ ?s4]) (simp add: serviceExit_def serving_def)
qed

theorem exit_abandons_sessions_witness:
  "\<exists>s. rtranclp srv_step (newServer 0) s \<and> serviceExit s = Some 0 \<and> handling s = 17 \<and> shutPc s = Waiting"
proof -
  have "parseConfig (\<lambda>_. []) [] = Inr (flagDefaults (\<lambda>_. []))"
    by (simp add: parseConfig_def parseArgs_Nil flagDefaults_def envOr_def envOrInt_def envOrInt64_def
        config_defaults)
  then have "serviceStart (\<lambda>_. []) (\<lambda>_. None) [] =
      (fst (serviceStart (\<lambda>_. []) (\<lambda>_. None) []), Inr (newServer 0))"
    by (simp add: serviceStart_def Let_def flagDefaults_def envOrInt_def)
  from exit_abandons_sessions [OF this, of 17] show ?thesis by (simp add: newServer_def)
qed

end
