(* ===== verification/GoJson.thy ===== *)
theory GoJson
  imports Frames "HOL-Library.List_Lexorder" "HOL-Library.Char_ord"
begin

text \<open>
  What \<open>encoding/json\<close> does for the types of a session trailer: the text of strings and
  objects, and reading a text back.  A text is scanned into tokens and the tokens are parsed
  with an explicit stack, as the library's scanner keeps one, so that its limit on nesting is a
  bound on the stack.  Whether a text is accepted, and what it means, is modelled; the wording
  of the errors is not.
\<close>

section \<open>UTF-8\<close>

text \<open>
  The length of the UTF-8 sequence a text starts with, 0 when it starts with none
  (\<open>utf8.DecodeRuneInString\<close> answers \<open>RuneError\<close> and width 1).
\<close>

definition inRange :: "nat \<Rightarrow> nat \<Rightarrow> byte \<Rightarrow> bool" where
  "inRange lo hi c \<longleftrightarrow> lo \<le> code c \<and> code c \<le> hi"

definition contBytes :: "bytes \<Rightarrow> bool" where
  "contBytes cs \<longleftrightarrow> list_all (inRange 0x80 0xBF) cs"

definition utf8Len :: "bytes \<Rightarrow> nat" where
  "utf8Len s =
     (case s of
        [] \<Rightarrow> 0
      | a # r \<Rightarrow>
          if code a < 0x80 then 1
          else case r of
            [] \<Rightarrow> 0
          | b # r2 \<Rightarrow>
              if inRange 0xC2 0xDF a then (if contBytes [b] then 2 else 0)
              else case r2 of
                [] \<Rightarrow> 0
              | c # r3 \<Rightarrow>
                  if inRange 0xE0 0xEF a
                  then (if inRange (if code a = 0xE0 then 0xA0 else 0x80) (if code a = 0xED then 0x9F else 0xBF) b
                            \<and> contBytes [c] then 3 else 0)
                  else case r3 of
                    [] \<Rightarrow> 0
                  | d # r4 \<Rightarrow>
                      if inRange 0xF0 0xF4 a
                         \<and> inRange (if code a = 0xF0 then 0x90 else 0x80) (if code a = 0xF4 then 0x8F else 0xBF) b
                         \<and> contBytes [c, d]
                      then 4 else 0)"

text \<open>The bytes of a rune, and of \<open>U+FFFD\<close>, which stands for what cannot be decoded.\<close>

definition utf8Rune :: "nat \<Rightarrow> bytes" where
  "utf8Rune r =
     (if r < 0x80 then [char_of r]
      else if r < 0x800 then [char_of (0xC0 + r div 64), char_of (0x80 + r mod 64)]
      else if r < 0x10000
      then [char_of (0xE0 + r div 4096), char_of (0x80 + r div 64 mod 64), char_of (0x80 + r mod 64)]
      else [char_of (0xF0 + r div 262144), char_of (0x80 + r div 4096 mod 64),
            char_of (0x80 + r div 64 mod 64), char_of (0x80 + r mod 64)])"

definition runeError :: bytes where
  "runeError = utf8Rune 0xFFFD"

section \<open>Writing\<close>

text \<open>Bytes that stand for themselves in a JSON string, with HTML escaping on.\<close>

definition jsonSafe :: "byte \<Rightarrow> bool" where
  "jsonSafe c \<longleftrightarrow> 0x20 \<le> code c \<and> code c < 0x80 \<and> c \<notin> {CHR 0x22, CHR 0x5C, CHR ''<'', CHR ''>'', CHR ''&''}"

definition backslash :: byte where "backslash = CHR 0x5C"
definition quotes :: byte where "quotes = CHR 0x22"

definition jsonEscape :: "byte \<Rightarrow> string" where
  "jsonEscape c =
     backslash #
     (if c = quotes \<or> c = backslash then [c]
      else if code c = 8 then ''b''
      else if code c = 12 then ''f''
      else if code c = 10 then ''n''
      else if code c = 13 then ''r''
      else if code c = 9 then ''t''
      else ''u00'' @ [hexDigit (code c div 16), hexDigit (code c mod 16)])"

function jsonChars :: "bytes \<Rightarrow> string" where
  "jsonChars [] = []"
| "jsonChars (c # cs) =
     (if code c < 0x80 then (if jsonSafe c then [c] else jsonEscape c) @ jsonChars cs
      else let n = utf8Len (c # cs); rune = take n (c # cs) in
        if n = 0 then backslash # ''ufffd'' @ jsonChars cs
        else (if rune = utf8Rune 0x2028 then backslash # ''u2028''
              else if rune = utf8Rune 0x2029 then backslash # ''u2029'' else rune)
             @ jsonChars (drop n (c # cs)))"
  by pat_completeness auto
termination by (relation "measure length") auto

definition jsonString :: "bytes \<Rightarrow> string" where
  "jsonString s = quotes # jsonChars s @ [quotes]"

text \<open>Members are separated by commas; a value is given as its text.\<close>

fun commas :: "string list \<Rightarrow> string" where
  "commas [] = []"
| "commas [x] = x"
| "commas (x # xs) = x @ CHR '','' # commas xs"

definition jsonMember :: "bytes \<times> string \<Rightarrow> string" where
  "jsonMember kv = jsonString (fst kv) @ CHR '':'' # snd kv"

definition jsonObject :: "(bytes \<times> string) list \<Rightarrow> string" where
  "jsonObject kvs = CHR ''{'' # commas (map jsonMember kvs) @ ''}''"

definition jsonArray :: "string list \<Rightarrow> string" where
  "jsonArray vs = CHR ''['' # commas vs @ '']''"

text \<open>A map is written in the order of its keys.\<close>

definition jsonMap :: "('v \<Rightarrow> string) \<Rightarrow> (bytes \<rightharpoonup> 'v) \<Rightarrow> string" where
  "jsonMap f m = jsonObject (map (\<lambda>k. (k, f (the (m k)))) (sorted_list_of_set (dom m)))"

definition jsonBool :: "bool \<Rightarrow> string" where
  "jsonBool b = (if b then ''true'' else ''false'')"

section \<open>Scanning\<close>

datatype json =
    JNull
  | JBool bool
  | JNum string
  | JStr bytes
  | JArr "json list"
  | JObj "(bytes \<times> json) list"

datatype token =
    LBrace | RBrace | LBracket | RBracket | Colon | Comma
  | Scalar json

definition hexVal :: "byte \<Rightarrow> nat option" where
  "hexVal c =
     (if inRange 48 57 c then Some (code c - 48)
      else if inRange 97 102 c then Some (code c - 87)
      else if inRange 65 70 c then Some (code c - 55)
      else None)"

text \<open>A string up to its closing quote: what is between them, and what follows.\<close>

fun scanString :: "string \<Rightarrow> (string \<times> string) option" where
  "scanString [] = None"
| "scanString (c # cs) =
     (if c = quotes then Some ([], cs)
      else if c = backslash
      then (case cs of
              [] \<Rightarrow> None
            | e # ds \<Rightarrow>
                if e \<in> set ''bfnrt/'' \<or> e = backslash \<or> e = quotes
                then map_option (apfst (\<lambda>s. c # e # s)) (scanString ds)
                else if e = CHR ''u''
                then (case ds of
                        h1 # h2 # h3 # h4 # es \<Rightarrow>
                          if list_all (\<lambda>h. hexVal h \<noteq> None) [h1, h2, h3, h4]
                          then map_option (apfst (\<lambda>s. c # e # h1 # h2 # h3 # h4 # s)) (scanString es)
                          else None
                      | _ \<Rightarrow> None)
                else None)
      else if code c < 0x20 then None
      else map_option (apfst (\<lambda>s. c # s)) (scanString cs))"

text \<open>\<open>getu4\<close>: the value of an escape \<open>\u\<close> with its four digits.\<close>

definition getu4 :: "string \<Rightarrow> nat option" where
  "getu4 s =
     (case s of
        b # u # h1 # h2 # h3 # h4 # r \<Rightarrow>
          if b = backslash \<and> u = CHR ''u''
          then (case (hexVal h1, hexVal h2, hexVal h3, hexVal h4) of
                  (Some d1, Some d2, Some d3, Some d4) \<Rightarrow> Some (((d1 * 16 + d2) * 16 + d3) * 16 + d4)
                | _ \<Rightarrow> None)
          else None
      | _ \<Rightarrow> None)"

definition surrogate :: "nat \<Rightarrow> bool" where
  "surrogate r \<longleftrightarrow> 0xD800 \<le> r \<and> r < 0xE000"

definition simpleEscape :: "byte \<Rightarrow> byte" where
  "simpleEscape e =
     (if e = CHR ''b'' then CHR 0x08 else if e = CHR ''f'' then CHR 0x0C else if e = CHR ''n'' then CHR 0x0A
      else if e = CHR ''r'' then CHR 0x0D else if e = CHR ''t'' then CHR 0x09 else e)"

function unquote :: "string \<Rightarrow> bytes" where
  "unquote [] = []"
| "unquote (c # cs) =
     (if c = backslash
      then (case cs of
              [] \<Rightarrow> []
            | e # ds \<Rightarrow>
                if e \<noteq> CHR ''u'' then simpleEscape e # unquote ds
                else case getu4 (c # cs) of
                  None \<Rightarrow> []
                | Some r \<Rightarrow>
                    if \<not> surrogate r then utf8Rune r @ unquote (drop 5 cs)
                    else case getu4 (drop 5 cs) of
                      Some r2 \<Rightarrow>
                        if r < 0xDC00 \<and> 0xDC00 \<le> r2 \<and> r2 < 0xE000
                        then utf8Rune (0x10000 + (r - 0xD800) * 0x400 + (r2 - 0xDC00)) @ unquote (drop 11 cs)
                        else runeError @ unquote (drop 5 cs)
                    | None \<Rightarrow> runeError @ unquote (drop 5 cs))
      else if code c < 0x80 then c # unquote cs
      else let n = utf8Len (c # cs) in
        if n = 0 then runeError @ unquote cs else take n (c # cs) @ unquote (drop n (c # cs)))"
  by pat_completeness auto
termination by (relation "measure length") auto


text \<open>A number literal and what follows it: digits, and optionally a fraction and an exponent.\<close>

definition scanFraction :: "string \<Rightarrow> (string \<times> string) option" where
  "scanFraction s =
     (if s = [] \<or> hd s \<noteq> CHR ''.'' then Some ([], s)
      else let ds = takeWhile isDigit (tl s) in
        if ds = [] then None else Some (CHR ''.'' # ds, dropWhile isDigit (tl s)))"

definition scanExponent :: "string \<Rightarrow> (string \<times> string) option" where
  "scanExponent s =
     (if s = [] \<or> hd s \<notin> {CHR ''e'', CHR ''E''} then Some ([], s)
      else let sgn = takeWhile (\<lambda>c. c \<in> {CHR ''+'', CHR ''-''}) (take 1 (tl s));
               r = drop (length sgn) (tl s); ds = takeWhile isDigit r in
        if ds = [] then None else Some (hd s # sgn @ ds, dropWhile isDigit r))"

definition scanInteger :: "string \<Rightarrow> (string \<times> string) option" where
  "scanInteger s =
     (if s = [] \<or> \<not> isDigit (hd s) then None
      else if hd s = CHR ''0'' then Some (''0'', tl s)
      else Some (takeWhile isDigit s, dropWhile isDigit s))"

definition scanNumber :: "string \<Rightarrow> (string \<times> string) option" where
  "scanNumber s =
     (let sgn = takeWhile (\<lambda>c. c = CHR ''-'') (take 1 s) in
      case scanInteger (drop (length sgn) s) of
        None \<Rightarrow> None
      | Some (i, r1) \<Rightarrow>
          (case scanFraction r1 of
             None \<Rightarrow> None
           | Some (f, r2) \<Rightarrow>
               (case scanExponent r2 of
                  None \<Rightarrow> None
                | Some (x, r3) \<Rightarrow> Some (sgn @ i @ f @ x, r3))))"

definition jsonSpace :: "byte \<Rightarrow> bool" where
  "jsonSpace c \<longleftrightarrow> code c \<in> {9, 10, 13, 32}"

definition punctuation :: "byte \<Rightarrow> token option" where
  "punctuation c =
     (if c = CHR ''{'' then Some LBrace else if c = CHR ''}'' then Some RBrace
      else if c = CHR ''['' then Some LBracket else if c = CHR '']'' then Some RBracket
      else if c = CHR '':'' then Some Colon else if c = CHR '','' then Some Comma else None)"

text \<open>The next token and what follows it.\<close>

definition scanToken :: "string \<Rightarrow> (token \<times> string) option" where
  "scanToken s =
     (case punctuation (hd s) of
        Some t \<Rightarrow> Some (t, tl s)
      | None \<Rightarrow>
          if hd s = quotes then map_option (apfst (\<lambda>raw. Scalar (JStr (unquote raw)))) (scanString (tl s))
          else if hasPrefix s ''true'' then Some (Scalar (JBool True), drop 4 s)
          else if hasPrefix s ''false'' then Some (Scalar (JBool False), drop 5 s)
          else if hasPrefix s ''null'' then Some (Scalar JNull, drop 4 s)
          else map_option (apfst (\<lambda>n. Scalar (JNum n))) (scanNumber s))"

lemma scanString_shorter: "scanString s = Some (raw, r) \<Longrightarrow> length r < length s"
proof (induction s arbitrary: raw r rule: length_induct)
  case (1 s)
  have IH: "length r' < length s'" if "length s' < length s" "scanString s' = Some (raw', r')" for s' raw' r'
    using 1 that by blast
  show ?case
  proof (cases s)
    case Nil
    with "1.prems" show ?thesis by simp
  next
    case (Cons c cs)
    then have later: "length r' < length s" if "scanString s' = Some (raw', r')" "length s' < length s" for s' raw' r'
      using IH [OF that(2,1)] that(2) by simp
    show ?thesis
      using "1.prems" later unfolding Cons
      by (auto split: if_splits list.splits)
  qed
qed

lemma dropWhile_shorter: "length (dropWhile P s) \<le> length s"
  by (induction s) auto

lemma scanInteger_shorter: "scanInteger s = Some (i, r) \<Longrightarrow> length r < length s"
proof -
  assume i: "scanInteger s = Some (i, r)"
  then obtain c cs where s: "s = c # cs" by (cases s) (auto simp: scanInteger_def)
  with i dropWhile_shorter [of isDigit cs] show ?thesis
    by (auto simp: scanInteger_def split: if_splits)
qed

lemma scanFraction_shorter: "scanFraction s = Some (f, r) \<Longrightarrow> length r \<le> length s"
  using dropWhile_shorter [of isDigit "tl s"] by (auto simp: scanFraction_def Let_def split: if_splits)

lemma scanExponent_shorter: "scanExponent s = Some (x, r) \<Longrightarrow> length r \<le> length s"
  by (auto simp: scanExponent_def Let_def split: if_splits intro!: order_trans [OF dropWhile_shorter])

lemma scanNumber_shorter: "scanNumber s = Some (n, r) \<Longrightarrow> length r < length s"
  by (auto simp: scanNumber_def Let_def split: option.splits
      dest!: scanInteger_shorter scanFraction_shorter scanExponent_shorter, linarith)

lemma scanToken_shorter:
  assumes "s \<noteq> []" "scanToken s = Some (t, r)"
  shows "length r < length s"
  using assms
  by (cases s) (auto simp: scanToken_def dest: scanString_shorter scanNumber_shorter split: option.splits if_splits)

function scanTokens :: "string \<Rightarrow> token list option" where
  "scanTokens s =
     (if s = [] then Some []
      else if jsonSpace (hd s) then scanTokens (tl s)
      else case scanToken s of
        None \<Rightarrow> None
      | Some (t, r) \<Rightarrow> map_option (\<lambda>ts. t # ts) (scanTokens r))"
  by pat_completeness auto
termination
  by (relation "measure length") (auto dest: scanToken_shorter)

declare scanTokens.simps [simp del]

section \<open>Parsing\<close>

text \<open>
  The open arrays and objects, innermost first; a key is set while its value is read.  The
  library refuses more than 10000 of them.
\<close>

datatype frame =
    InArray "json list"
  | InObject "(bytes \<times> json) list"
  | InMember "(bytes \<times> json) list" bytes

datatype expect =
    ValueStart
  | ValueOrBracket
  | KeyOrBrace
  | KeyStart
  | AfterKey bytes
  | AfterValue json

definition maxNesting :: nat where "maxNesting = 10000"

definition startValue :: "token \<Rightarrow> frame list \<Rightarrow> (expect \<times> frame list) option" where
  "startValue t st =
     (case t of
        Scalar v \<Rightarrow> Some (AfterValue v, st)
      | LBrace \<Rightarrow> if length st < maxNesting then Some (KeyOrBrace, InObject [] # st) else None
      | LBracket \<Rightarrow> if length st < maxNesting then Some (ValueOrBracket, InArray [] # st) else None
      | _ \<Rightarrow> None)"

definition startKey :: "token \<Rightarrow> frame list \<Rightarrow> (expect \<times> frame list) option" where
  "startKey t st = (case t of Scalar (JStr k) \<Rightarrow> Some (AfterKey k, st) | _ \<Rightarrow> None)"

fun parseStep :: "token \<Rightarrow> expect \<Rightarrow> frame list \<Rightarrow> (expect \<times> frame list) option" where
  "parseStep t ValueStart st = startValue t st"
| "parseStep RBracket ValueOrBracket (InArray vs # st) = Some (AfterValue (JArr vs), st)"
| "parseStep t ValueOrBracket st = startValue t st"
| "parseStep RBrace KeyOrBrace (InObject ms # st) = Some (AfterValue (JObj ms), st)"
| "parseStep t KeyOrBrace st = startKey t st"
| "parseStep t KeyStart st = startKey t st"
| "parseStep Colon (AfterKey k) (InObject ms # st) = Some (ValueStart, InMember ms k # st)"
| "parseStep Comma (AfterValue v) (InMember ms k # st) = Some (KeyStart, InObject (ms @ [(k, v)]) # st)"
| "parseStep RBrace (AfterValue v) (InMember ms k # st) = Some (AfterValue (JObj (ms @ [(k, v)])), st)"
| "parseStep Comma (AfterValue v) (InArray vs # st) = Some (ValueStart, InArray (vs @ [v]) # st)"
| "parseStep RBracket (AfterValue v) (InArray vs # st) = Some (AfterValue (JArr (vs @ [v])), st)"
| "parseStep _ _ _ = None"

fun parseTokens :: "token list \<Rightarrow> expect \<Rightarrow> frame list \<Rightarrow> json option" where
  "parseTokens [] (AfterValue v) [] = Some v"
| "parseTokens [] _ _ = None"
| "parseTokens (t # ts) x st =
     (case parseStep t x st of None \<Rightarrow> None | Some (x', st') \<Rightarrow> parseTokens ts x' st')"

definition parseJson :: "string \<Rightarrow> json option" where
  "parseJson s = (case scanTokens s of None \<Rightarrow> None | Some ts \<Rightarrow> parseTokens ts ValueStart [])"


section \<open>What is written is read back\<close>

definition ascii :: "bytes \<Rightarrow> bool" where
  "ascii s \<longleftrightarrow> list_all (\<lambda>c. code c < 0x80) s"

lemma ascii_simps [simp]:
  "ascii []" "ascii (c # s) \<longleftrightarrow> code c < 0x80 \<and> ascii s" "ascii (s @ t) \<longleftrightarrow> ascii s \<and> ascii t"
  by (auto simp: ascii_def)

subsection \<open>Strings\<close>

lemma hexVal_hexDigit: "d < 16 \<Longrightarrow> hexVal (hexDigit d) = Some d"
  using code_hexDigit [of d] by (auto simp: hexVal_def inRange_def)

text \<open>The three forms of an ASCII byte in a string.\<close>

lemma jsonByte_cases:
  assumes "code c < 0x80"
  obtains (plain) "jsonSafe c"
  | (escape) e where "\<not> jsonSafe c" "jsonEscape c = [backslash, e]" "e \<in> set ''bfnrt/'' \<or> e = backslash \<or> e = quotes"
      "e \<noteq> CHR ''u''" "simpleEscape e = c"
  | (hex) "\<not> jsonSafe c"
      "jsonEscape c = backslash # CHR ''u'' # CHR ''0'' # CHR ''0'' # hexDigit (code c div 16) # hexDigit (code c mod 16) # []"
proof (cases "jsonSafe c")
  case False
  show ?thesis
  proof (cases "c = quotes \<or> c = backslash \<or> code c \<in> {8, 9, 10, 12, 13}")
    case True
    then have "c = quotes \<or> c = backslash \<or> code c = code (CHR 0x08) \<or> code c = code (CHR 0x09) \<or>
        code c = code (CHR 0x0A) \<or> code c = code (CHR 0x0C) \<or> code c = code (CHR 0x0D)" by auto
    then consider "c = quotes" | "c = backslash" | "c = CHR 0x08" | "c = CHR 0x09" | "c = CHR 0x0A"
      | "c = CHR 0x0C" | "c = CHR 0x0D"
      unfolding of_char_eq_iff by blast
    then show ?thesis
      by (cases; rule escape [of "jsonEscape c ! 1"];
        simp add: jsonSafe_def jsonEscape_def quotes_def backslash_def simpleEscape_def)
  next
    case no: False
    then have "jsonEscape c = backslash # CHR ''u'' # CHR ''0'' # CHR ''0'' # hexDigit (code c div 16) # hexDigit (code c mod 16) # []"
      by (auto simp: jsonEscape_def)
    with hex False show ?thesis by blast
  qed
qed (rule plain)

lemma jsonSafe_D: "jsonSafe c \<Longrightarrow> c \<noteq> quotes \<and> c \<noteq> backslash \<and> 0x20 \<le> code c \<and> code c < 0x80"
  by (auto simp: jsonSafe_def quotes_def backslash_def)

lemma scanString_jsonChars:
  "ascii s \<Longrightarrow> scanString (jsonChars s @ quotes # rest) = Some (jsonChars s, rest)"
proof (induction s)
  case Nil
  then show ?case by (simp add: quotes_def)
next
  case (Cons c s)
  then have c: "code c < 0x80" and IH: "scanString (jsonChars s @ quotes # rest) = Some (jsonChars s, rest)"
    by simp_all
  from c have d: "code c div 16 < 16" "code c mod 16 < 16" by simp_all
  have bq: "backslash \<noteq> quotes" "hexVal (CHR ''0'') = Some 0" by (simp_all add: backslash_def quotes_def hexVal_def inRange_def)
  from c show ?case
  proof (cases rule: jsonByte_cases)
    case plain
    with c IH jsonSafe_D [OF plain] show ?thesis by simp
  next
    case (escape e)
    with c IH bq show ?thesis by auto
  next
    case hex
    then have chars: "jsonChars (c # s) = backslash # CHR ''u'' # CHR ''0'' # CHR ''0'' #
        hexDigit (code c div 16) # hexDigit (code c mod 16) # jsonChars s"
      using c by simp
    have "scanString (backslash # CHR ''u'' # h1 # h2 # h3 # h4 # s') =
        map_option (apfst (\<lambda>s. backslash # CHR ''u'' # h1 # h2 # h3 # h4 # s)) (scanString s')"
      if "hexVal h1 \<noteq> None" "hexVal h2 \<noteq> None" "hexVal h3 \<noteq> None" "hexVal h4 \<noteq> None" for h1 h2 h3 h4 s'
      using that bq(1) by (simp add: backslash_def quotes_def)
    from this [of "CHR ''0''" "CHR ''0''" "hexDigit (code c div 16)" "hexDigit (code c mod 16)"]
    show ?thesis
      unfolding chars append.simps using IH bq(2) hexVal_hexDigit [OF d(1)] hexVal_hexDigit [OF d(2)] by simp
  qed
qed

lemma unquote_jsonChars: "ascii s \<Longrightarrow> unquote (jsonChars s) = s"
proof (induction s)
  case (Cons c s)
  then have c: "code c < 0x80" and IH: "unquote (jsonChars s) = s" by simp_all
  from c have d: "code c div 16 < 16" "code c mod 16 < 16" "code c div 16 * 16 + code c mod 16 = code c" by simp_all
  from c show ?case
  proof (cases rule: jsonByte_cases)
    case plain
    with c IH jsonSafe_D [OF plain] show ?thesis by simp
  next
    case (escape e)
    with c IH show ?thesis by simp
  next
    case hex
    have zero: "hexVal (CHR ''0'') = Some 0" by (simp add: hexVal_def inRange_def)
    have "getu4 (jsonEscape c @ jsonChars s) = Some (code c)"
      unfolding hex using d(3) zero by (simp add: getu4_def hexVal_hexDigit [OF d(1)] hexVal_hexDigit [OF d(2)])
    moreover have "\<not> surrogate (code c)" "utf8Rune (code c) = [c]"
      using c by (simp_all add: surrogate_def utf8Rune_def)
    ultimately show ?thesis using c IH hex by simp
  qed
qed simp


subsection \<open>Tokens\<close>

text \<open>A text that scans to the same tokens before everything a value can be followed by.\<close>

definition delimited :: "string \<Rightarrow> bool" where
  "delimited r \<longleftrightarrow> r = [] \<or> hd r \<in> set '',]}''"

definition scansTo :: "string \<Rightarrow> token list \<Rightarrow> bool" where
  "scansTo txt ts \<longleftrightarrow>
     (\<forall>rest. delimited rest \<longrightarrow> scanTokens (txt @ rest) = map_option (\<lambda>us. ts @ us) (scanTokens rest))"

lemma scanTokens_token:
  "s \<noteq> [] \<Longrightarrow> \<not> jsonSpace (hd s) \<Longrightarrow> scanToken s = Some (t, r) \<Longrightarrow>
   scanTokens s = map_option (\<lambda>ts. t # ts) (scanTokens r)"
  by (subst scanTokens.simps) simp

lemma scanTokens_punctuation:
  assumes "punctuation c = Some t"
  shows "scanTokens (c # s) = map_option (\<lambda>ts. t # ts) (scanTokens s)"
proof -
  have "\<not> jsonSpace c" using assms by (auto simp: punctuation_def jsonSpace_def split: if_splits)
  then show ?thesis using assms by (intro scanTokens_token) (simp_all add: scanToken_def)
qed

lemma scansTo_punctuation:
  "punctuation c = Some t \<Longrightarrow> scansTo s ts \<Longrightarrow> scansTo (c # s) (t # ts)"
  by (simp add: scansTo_def scanTokens_punctuation option.map_comp o_def)

lemma scansTo_single: "punctuation c = Some t \<Longrightarrow> scansTo [c] [t]"
  by (simp add: scansTo_def scanTokens_punctuation)

lemma scansTo_join:
  assumes "scansTo a ts" "punctuation c = Some t" "c \<in> set '',]}''" "scansTo b us"
  shows "scansTo (a @ c # b) (ts @ t # us)"
proof -
  have "delimited (c # b @ rest)" for rest using assms(3) by (simp add: delimited_def)
  with assms show ?thesis
    by (auto simp: scansTo_def scanTokens_punctuation option.map_comp o_def)
qed

lemma scanTokens_jsonString:
  assumes "ascii s"
  shows "scanTokens (jsonString s @ rest) = map_option (\<lambda>ts. Scalar (JStr s) # ts) (scanTokens rest)"
proof -
  have "scanToken (jsonString s @ rest) = Some (Scalar (JStr s), rest)"
    using scanString_jsonChars [OF assms] unquote_jsonChars [OF assms]
    by (simp add: scanToken_def jsonString_def) (simp add: punctuation_def quotes_def)
  then show ?thesis
    by (intro scanTokens_token) (simp_all add: jsonString_def, simp add: jsonSpace_def quotes_def)
qed

lemma scansTo_member:
  assumes "ascii k" "scansTo v ts"
  shows "scansTo (jsonMember (k, v)) (Scalar (JStr k) # Colon # ts)"
  using assms scanTokens_punctuation [of "CHR '':''" Colon]
  by (simp add: scansTo_def jsonMember_def scanTokens_jsonString option.map_comp o_def punctuation_def)

subsection \<open>Values\<close>

text \<open>A text of a value that needs \<open>d\<close> levels of nesting.\<close>

definition textOf :: "nat \<Rightarrow> json \<Rightarrow> string \<Rightarrow> bool" where
  "textOf d v txt \<longleftrightarrow> (\<exists>ts. scansTo txt ts \<and>
     (\<forall>us st. length st + d \<le> maxNesting \<longrightarrow>
        parseTokens (ts @ us) ValueStart st = parseTokens us (AfterValue v) st))"

lemma textOf_scalar: "scansTo txt [Scalar v] \<Longrightarrow> textOf d v txt"
  unfolding textOf_def by (intro exI [of _ "[Scalar v]"]) (simp add: startValue_def)

lemma textOf_parse: "textOf d v txt \<Longrightarrow> d \<le> maxNesting \<Longrightarrow> parseJson txt = Some v"
proof -
  assume "textOf d v txt" "d \<le> maxNesting"
  then obtain ts where ts: "scansTo txt ts"
      "\<And>us st. length st + d \<le> maxNesting \<Longrightarrow>
         parseTokens (ts @ us) ValueStart st = parseTokens us (AfterValue v) st"
    unfolding textOf_def by blast
  have "scanTokens [] = Some []" by (subst scanTokens.simps) simp
  with ts(1) have "scanTokens txt = Some ts"
    unfolding scansTo_def by (metis append_Nil2 delimited_def option.simps(9))
  with ts(2) [of "[]" "[]"] \<open>d \<le> maxNesting\<close> show ?thesis by (simp add: parseJson_def)
qed

lemma textOf_string: "ascii s \<Longrightarrow> textOf d (JStr s) (jsonString s)"
  by (rule textOf_scalar) (simp add: scansTo_def scanTokens_jsonString)

lemma textOf_bool: "textOf d (JBool b) (jsonBool b)"
proof (rule textOf_scalar)
  have "scanTokens (jsonBool b @ rest) = map_option (\<lambda>ts. Scalar (JBool b) # ts) (scanTokens rest)" for rest
    by (rule scanTokens_token)
      (auto simp: jsonBool_def jsonSpace_def scanToken_def punctuation_def hasPrefix_def quotes_def)
  then show "scansTo (jsonBool b) [Scalar (JBool b)]" by (simp add: scansTo_def)
qed

text \<open>Members up to the closing brace.\<close>

lemma members_scan:
  assumes "list_all2 (\<lambda>kv v. ascii (fst kv) \<and> textOf d v (snd kv)) kvs vs" "kvs \<noteq> []"
  shows "\<exists>k ts. scansTo (commas (map jsonMember kvs) @ ''}'') (Scalar (JStr k) # ts) \<and>
    (\<forall>us ms st. length st + Suc d \<le> maxNesting \<longrightarrow>
       parseTokens (ts @ us) (AfterKey k) (InObject ms # st) =
       parseTokens us (AfterValue (JObj (ms @ zip (map fst kvs) vs))) st)"
  using assms
proof (induction kvs arbitrary: vs)
  case (Cons kv kvs)
  obtain v vs' where vs: "vs = v # vs'" and v: "ascii (fst kv)" "textOf d v (snd kv)"
      and rest: "list_all2 (\<lambda>kv v. ascii (fst kv) \<and> textOf d v (snd kv)) kvs vs'"
    using Cons.prems(1) by (auto simp: list_all2_Cons1)
  obtain ts where ts: "scansTo (snd kv) ts"
      "\<And>us st. length st + d \<le> maxNesting \<Longrightarrow>
         parseTokens (ts @ us) ValueStart st = parseTokens us (AfterValue v) st"
    using v(2) unfolding textOf_def by blast
  have member: "scansTo (jsonMember kv) (Scalar (JStr (fst kv)) # Colon # ts)"
    using scansTo_member [OF v(1) ts(1)] by simp
  show ?case
  proof (cases kvs)
    case Nil
    have "scansTo (jsonMember kv @ ''}'') ((Scalar (JStr (fst kv)) # Colon # ts) @ [RBrace])"
      using member by (simp add: scansTo_def delimited_def scanTokens_punctuation punctuation_def option.map_comp o_def)
    then show ?thesis
      using Nil rest ts(2) vs
      by (intro exI [of _ "fst kv"] exI [of _ "Colon # ts @ [RBrace]"]) simp
  next
    case (Cons kv' kvs')
    from Cons.IH [OF rest] Cons obtain k us where IH:
      "scansTo (commas (map jsonMember kvs) @ ''}'') (Scalar (JStr k) # us)"
      "\<And>ws ms st. length st + Suc d \<le> maxNesting \<Longrightarrow>
         parseTokens (us @ ws) (AfterKey k) (InObject ms # st) =
         parseTokens ws (AfterValue (JObj (ms @ zip (map fst kvs) vs'))) st"
      by blast
    have "scansTo (jsonMember kv @ CHR '','' # (commas (map jsonMember kvs) @ ''}''))
        ((Scalar (JStr (fst kv)) # Colon # ts) @ Comma # Scalar (JStr k) # us)"
      by (rule scansTo_join [OF member _ _ IH(1)]) (simp_all add: punctuation_def)
    then show ?thesis
      using ts(2) IH(2) vs Cons
      by (intro exI [of _ "fst kv"] exI [of _ "Colon # ts @ Comma # Scalar (JStr k) # us"])
        (simp add: startKey_def)
  qed
qed simp

lemma textOf_object:
  assumes "list_all2 (\<lambda>kv v. ascii (fst kv) \<and> textOf d v (snd kv)) kvs vs"
  shows "textOf (Suc d) (JObj (zip (map fst kvs) vs)) (jsonObject kvs)"
proof (cases "kvs = []")
  case True
  have "scansTo (jsonObject []) [LBrace, RBrace]"
    unfolding jsonObject_def
    by (auto intro!: scansTo_punctuation scansTo_single simp: punctuation_def)
  with True show ?thesis
    unfolding textOf_def by (intro exI [of _ "[LBrace, RBrace]"]) (simp add: startValue_def)
next
  case False
  obtain k ts where m: "scansTo (commas (map jsonMember kvs) @ ''}'') (Scalar (JStr k) # ts)"
      "\<And>us ms st. length st + Suc d \<le> maxNesting \<Longrightarrow>
         parseTokens (ts @ us) (AfterKey k) (InObject ms # st) =
         parseTokens us (AfterValue (JObj (ms @ zip (map fst kvs) vs))) st"
    using members_scan [OF assms False] by blast
  have "scansTo (jsonObject kvs) (LBrace # Scalar (JStr k) # ts)"
    unfolding jsonObject_def by (rule scansTo_punctuation [OF _ m(1)]) (simp add: punctuation_def)
  with m(2) show ?thesis
    unfolding textOf_def
    by (intro exI [of _ "LBrace # Scalar (JStr k) # ts"]) (simp add: startValue_def startKey_def)
qed

text \<open>Members with their texts, and with their values.\<close>

definition memberOf :: "nat \<Rightarrow> bytes \<times> string \<Rightarrow> bytes \<times> json \<Rightarrow> bool" where
  "memberOf d kt kv \<longleftrightarrow> fst kt = fst kv \<and> ascii (fst kv) \<and> textOf d (snd kv) (snd kt)"

lemma textOf_members:
  assumes "list_all2 (memberOf d) kts kvs"
  shows "textOf (Suc d) (JObj kvs) (jsonObject kts)"
proof -
  have "list_all2 (\<lambda>kt v. ascii (fst kt) \<and> textOf d v (snd kt)) kts (map snd kvs)" "map fst kts = map fst kvs"
    using assms by (induction kts kvs rule: list_all2_induct) (simp_all add: memberOf_def)
  from textOf_object [OF this(1)] this(2) show ?thesis by (simp add: zip_map_fst_snd)
qed

lemma textOf_map:
  assumes "finite (dom m)" "\<forall>k v. m k = Some v \<longrightarrow> ascii k \<and> textOf d (g v) (f v)"
  shows "textOf (Suc d) (JObj (map (\<lambda>k. (k, g (the (m k)))) (sorted_list_of_set (dom m)))) (jsonMap f m)"
proof -
  have "list_all2 (memberOf d) (map (\<lambda>k. (k, f (the (m k)))) ks) (map (\<lambda>k. (k, g (the (m k)))) ks)"
    if "set ks \<subseteq> dom m" for ks
    using that by (induction ks) (use assms(2) in \<open>auto simp: memberOf_def\<close>)
  from textOf_members [OF this] assms(1) show ?thesis by (simp add: jsonMap_def)
qed

text \<open>Arrays of strings.\<close>

lemma elements_scan:
  assumes "list_all ascii ss" "ss \<noteq> []"
  shows "\<exists>ts. scansTo (commas (map jsonString ss) @ '']'') (Scalar (JStr (hd ss)) # ts) \<and>
    (\<forall>us vs st. parseTokens (ts @ us) (AfterValue (JStr (hd ss))) (InArray vs # st) =
       parseTokens us (AfterValue (JArr (vs @ map JStr ss))) st)"
  using assms
proof (induction ss)
  case (Cons s ss)
  then have s: "scansTo (jsonString s) [Scalar (JStr s)]" by (simp add: scansTo_def scanTokens_jsonString)
  show ?case
  proof (cases ss)
    case Nil
    have "scansTo (jsonString s @ '']'') ([Scalar (JStr s)] @ [RBracket])"
      using s by (simp add: scansTo_def delimited_def scanTokens_punctuation punctuation_def option.map_comp o_def)
    then show ?thesis using Nil by (intro exI [of _ "[RBracket]"]) simp
  next
    case (Cons s' ss')
    with Cons.IH Cons.prems obtain ts where IH:
      "scansTo (commas (map jsonString ss) @ '']'') (Scalar (JStr s') # ts)"
      "\<And>us vs st. parseTokens (ts @ us) (AfterValue (JStr s')) (InArray vs # st) =
         parseTokens us (AfterValue (JArr (vs @ map JStr ss))) st"
      by auto
    have "scansTo (jsonString s @ CHR '','' # (commas (map jsonString ss) @ '']''))
        ([Scalar (JStr s)] @ Comma # Scalar (JStr s') # ts)"
      by (rule scansTo_join [OF s _ _ IH(1)]) (simp_all add: punctuation_def)
    with IH(2) Cons show ?thesis
      by (intro exI [of _ "Comma # Scalar (JStr s') # ts"]) (simp add: startValue_def)
  qed
qed simp

lemma textOf_strings:
  assumes "list_all ascii ss" "ss \<noteq> []"
  shows "textOf (Suc d) (JArr (map JStr ss)) (jsonArray (map jsonString ss))"
proof -
  obtain ts where m: "scansTo (commas (map jsonString ss) @ '']'') (Scalar (JStr (hd ss)) # ts)"
      "\<And>us vs st. parseTokens (ts @ us) (AfterValue (JStr (hd ss))) (InArray vs # st) =
         parseTokens us (AfterValue (JArr (vs @ map JStr ss))) st"
    using elements_scan [OF assms] by blast
  have "scansTo (jsonArray (map jsonString ss)) (LBracket # Scalar (JStr (hd ss)) # ts)"
    unfolding jsonArray_def by (rule scansTo_punctuation [OF _ m(1)]) (simp add: punctuation_def)
  with m(2) show ?thesis
    unfolding textOf_def
    by (intro exI [of _ "LBracket # Scalar (JStr (hd ss)) # ts"]) (simp add: startValue_def)
qed

subsection \<open>Numbers\<close>

lemma fmtNat_zero_first: "hd (fmtNat 10 n) = CHR ''0'' \<Longrightarrow> n = 0"
proof (induction n rule: less_induct)
  case (less n)
  show ?case
  proof (cases "n < 10")
    case True
    have z: "CHR ''0'' = hexDigit 0" by (simp add: hexDigit_values)
    from True less.prems have "hexDigit n = hexDigit 0" unfolding z by (subst (asm) fmtNat.simps) simp
    then have "code (hexDigit n) = code (hexDigit 0)" by simp
    then show ?thesis using code_hexDigit [of n] code_hexDigit [of 0] True by simp
  next
    case False
    then have "hd (fmtNat 10 (n div 10)) = CHR ''0''" using less.prems by (subst (asm) fmtNat.simps) simp
    from less.IH [OF _ this] False show ?thesis by simp
  qed
qed

lemma scanInteger_fmtNat:
  assumes "r = [] \<or> \<not> isDigit (hd r)"
  shows "scanInteger (fmtNat 10 n @ r) = Some (fmtNat 10 n, r)"
proof -
  have ds: "takeWhile isDigit (fmtNat 10 n @ r) = fmtNat 10 n" "dropWhile isDigit (fmtNat 10 n @ r) = r"
    using assms isDigit_fmtNat by (cases r; simp add: takeWhile_append2 dropWhile_append2)+
  note digit_first [of n]
  moreover have "hd (fmtNat 10 n @ r) = hd (fmtNat 10 n)" "fmtNat 10 n @ r \<noteq> []" by simp_all
  moreover have "fmtNat 10 0 = ''0''" by (subst fmtNat.simps) (simp add: hexDigit_values)
  ultimately show ?thesis
    using ds fmtNat_zero_first [of n] by (cases "hd (fmtNat 10 n) = CHR ''0''") (simp_all add: scanInteger_def)
qed

lemma delimited_digit: "delimited r \<Longrightarrow> r = [] \<or> \<not> isDigit (hd r)"
  by (auto simp: delimited_def isDigit_def)

lemma scanNumber_fmtInt:
  assumes "delimited r"
  shows "scanNumber (fmtInt x @ r) = Some (fmtInt x, r)"
proof -
  have "hd (fmtNat 10 n) \<noteq> CHR ''-''" for n
    using digit_first [of n] by (auto simp: isDigit_def)
  then have first: "takeWhile (\<lambda>c. c = CHR ''-'') (take (Suc 0) (fmtNat 10 n @ r)) = []" for n
  proof -
    obtain c cs where n: "fmtNat 10 n = c # cs" using fmtNat_nonempty [of 10 n] by (cases "fmtNat 10 n") auto
    with \<open>\<And>n. hd (fmtNat 10 n) \<noteq> CHR ''-''\<close> [of n] show ?thesis by simp
  qed
  have tail: "scanFraction r = Some ([], r)" "scanExponent r = Some ([], r)"
    using assms by (auto simp: scanFraction_def scanExponent_def delimited_def)
  show ?thesis
    using scanInteger_fmtNat [OF delimited_digit [OF assms]] first tail
    by (simp add: scanNumber_def fmtInt_def Let_def)
qed

lemma textOf_number: "textOf d (JNum (fmtInt x)) (fmtInt x)"
proof (rule textOf_scalar)
  have hd: "hd (fmtInt x) = CHR ''-'' \<or> isDigit (hd (fmtInt x))"
    using digit_first by (simp add: fmtInt_def)
  have "scanTokens (fmtInt x @ r) = map_option (\<lambda>ts. Scalar (JNum (fmtInt x)) # ts) (scanTokens r)"
    if "delimited r" for r
  proof (rule scanTokens_token)
    obtain c cs where x: "fmtInt x = c # cs" using fmtInt_nonempty [of x] by (cases "fmtInt x") auto
    with hd have c: "c = CHR ''-'' \<or> isDigit c" by simp
    have "punctuation c = None" "c \<noteq> quotes" "c \<noteq> CHR ''t''" "c \<noteq> CHR ''f''" "c \<noteq> CHR ''n''"
      using c by (auto simp: punctuation_def quotes_def isDigit_def)
    then show "scanToken (fmtInt x @ r) = Some (Scalar (JNum (fmtInt x)), r)"
      using scanNumber_fmtInt [OF that, of x] by (simp add: x scanToken_def hasPrefix_def)
    have "\<not> jsonSpace c" using c by (auto simp: jsonSpace_def isDigit_def)
    then show "fmtInt x @ r \<noteq> []" "\<not> jsonSpace (hd (fmtInt x @ r))" by (simp_all add: x)
  qed
  then show "scansTo (fmtInt x) [Scalar (JNum (fmtInt x))]" by (simp add: scansTo_def)
qed

end
