(* ===== verification/TrailerJson.thy ===== *)
theory TrailerJson
  imports TrailerData GoJson
begin

text \<open>
  The JSON text of a session trailer (\<open>internal/protocol/trailer.go\<close>: the field tags of
  \<open>Trailer\<close>): what \<open>json.Marshal\<close> writes for it and what \<open>json.Unmarshal\<close> makes of a text.  A
  map that is \<open>nil\<close> and an empty one are one value here; the trailers the server builds have
  no \<open>nil\<close> maps but the footers of a merge, which are omitted when empty.
\<close>

section \<open>Writing\<close>

definition jsonUint :: "nat \<Rightarrow> string" where
  "jsonUint n = fmtInt (int n)"

definition optMember :: "bytes \<Rightarrow> bool \<Rightarrow> string \<Rightarrow> (bytes \<times> string) list" where
  "optMember k present v = (if present then [(k, v)] else [])"

definition trailerMembers :: "trailer \<Rightarrow> (bytes \<times> string) list" where
  "trailerMembers t =
     [(''secret_sha256'', jsonString (trSecretSHA256 t)),
      (''fingerprint_shard'', jsonMap jsonString (trFingerprintShard t)),
      (''cross_crc'', jsonMap (\<lambda>w. jsonUint (unat w)) (trCrossCRC t)),
      (''length'', jsonUint (unat (trLength t))),
      (''write_id'', jsonString (trWriteID t))] @
     optMember ''write_id_valid'' (trWriteIDValid t \<noteq> None) (jsonBool (the (trWriteIDValid t))) @
     optMember ''footer'' (dom (trFooter t) \<noteq> {}) (jsonMap jsonString (trFooter t)) @
     [(''bytes_processed'', fmtInt (trBytesProcessed t)),
      (''mode'', jsonString (trMode t))] @
     optMember ''hash_valid'' (trHashValid t \<noteq> None) (jsonBool (the (trHashValid t))) @
     optMember ''recoveries'' (trRecoveries t \<noteq> []) (jsonArray (map jsonString (trRecoveries t)))"

definition trailerJson :: "trailer \<Rightarrow> string" where
  "trailerJson t = jsonObject (trailerMembers t)"

section \<open>Reading\<close>

text \<open>
  Member names are matched exactly, or else up to case; two letters outside ASCII, the long s
  and the Kelvin sign, fold to ASCII ones.
\<close>

fun foldName :: "bytes \<Rightarrow> bytes" where
  "foldName [] = []"
| "foldName (a # s) =
     (if inRange 97 122 a then char_of (code a - 32) # foldName s
      else if code a = 0xC5 \<and> s \<noteq> [] \<and> code (hd s) = 0xBF then CHR ''S'' # foldName (tl s)
      else if code a = 0xE2 \<and> length s \<ge> 2 \<and> code (hd s) = 0x84 \<and> code (s ! 1) = 0xAA
      then CHR ''K'' # foldName (drop 2 s)
      else a # foldName s)"

definition fieldNames :: "bytes list" where
  "fieldNames = [''secret_sha256'', ''fingerprint_shard'', ''cross_crc'', ''length'', ''write_id'',
     ''write_id_valid'', ''footer'', ''bytes_processed'', ''mode'', ''hash_valid'', ''recoveries'']"

definition fieldFor :: "bytes \<Rightarrow> bytes option" where
  "fieldFor key =
     (if key \<in> set fieldNames then Some key else find (\<lambda>f. foldName f = foldName key) fieldNames)"

text \<open>What the values do to the fields; \<open>null\<close> leaves a string, a number and a Boolean alone.\<close>

fun asString :: "json \<Rightarrow> bytes \<Rightarrow> bytes option" where
  "asString JNull old = Some old"
| "asString (JStr s) old = Some s"
| "asString _ old = None"

fun asUint :: "nat \<Rightarrow> json \<Rightarrow> nat \<Rightarrow> nat option" where
  "asUint bits JNull old = Some old"
| "asUint bits (JNum n) old = (case parseUint n 10 bits of Inl e \<Rightarrow> None | Inr x \<Rightarrow> Some x)"
| "asUint bits _ old = None"

fun asInt :: "json \<Rightarrow> int \<Rightarrow> int option" where
  "asInt JNull old = Some old"
| "asInt (JNum n) old = (case atoi n of Inl e \<Rightarrow> None | Inr x \<Rightarrow> Some x)"
| "asInt _ old = None"

fun asBoolPtr :: "json \<Rightarrow> bool option option" where
  "asBoolPtr JNull = Some None"
| "asBoolPtr (JBool b) = Some (Some b)"
| "asBoolPtr _ = None"

text \<open>The members are added to the map that is there.\<close>

fun mapMembers :: "(json \<Rightarrow> 'v option) \<Rightarrow> (bytes \<times> json) list \<Rightarrow> (bytes \<rightharpoonup> 'v) \<Rightarrow> (bytes \<rightharpoonup> 'v) option" where
  "mapMembers el [] m = Some m"
| "mapMembers el ((k, v) # ms) m =
     (case el v of None \<Rightarrow> None | Some x \<Rightarrow> mapMembers el ms (m(k \<mapsto> x)))"

fun asMap :: "(json \<Rightarrow> 'v option) \<Rightarrow> json \<Rightarrow> (bytes \<rightharpoonup> 'v) \<Rightarrow> (bytes \<rightharpoonup> 'v) option" where
  "asMap el JNull m = Some Map.empty"
| "asMap el (JObj ms) m = mapMembers el ms m"
| "asMap el _ m = None"

text \<open>
  The elements replace those of the slice that is there; \<open>null\<close> leaves the old one.  (The
  library reuses the memory of a slice that was cut short by an earlier member of the same
  name; a \<open>null\<close> in a third such member is not modelled.)
\<close>

fun elements :: "json list \<Rightarrow> bytes list \<Rightarrow> bytes list option" where
  "elements [] old = Some []"
| "elements (v # vs) old =
     (case asString v (if old = [] then [] else hd old) of
        None \<Rightarrow> None
      | Some s \<Rightarrow> map_option (\<lambda>ss. s # ss) (elements vs (tl old)))"

fun asStrings :: "json \<Rightarrow> bytes list \<Rightarrow> bytes list option" where
  "asStrings JNull old = Some []"
| "asStrings (JArr vs) old = elements vs old"
| "asStrings _ old = None"

definition crcOf :: "json \<Rightarrow> 32 word option" where
  "crcOf v = map_option word_of_nat (asUint 32 v 0)"

definition setField :: "bytes \<Rightarrow> json \<Rightarrow> trailer \<Rightarrow> trailer option" where
  "setField f v t =
     (if f = ''secret_sha256'' then map_option (\<lambda>s. t\<lparr>trSecretSHA256 := s\<rparr>) (asString v (trSecretSHA256 t))
      else if f = ''fingerprint_shard''
      then map_option (\<lambda>m. t\<lparr>trFingerprintShard := m\<rparr>) (asMap (\<lambda>v. asString v []) v (trFingerprintShard t))
      else if f = ''cross_crc'' then map_option (\<lambda>m. t\<lparr>trCrossCRC := m\<rparr>) (asMap crcOf v (trCrossCRC t))
      else if f = ''length''
      then map_option (\<lambda>n. t\<lparr>trLength := word_of_nat n\<rparr>) (asUint 64 v (unat (trLength t)))
      else if f = ''write_id'' then map_option (\<lambda>s. t\<lparr>trWriteID := s\<rparr>) (asString v (trWriteID t))
      else if f = ''write_id_valid'' then map_option (\<lambda>b. t\<lparr>trWriteIDValid := b\<rparr>) (asBoolPtr v)
      else if f = ''footer'' then map_option (\<lambda>m. t\<lparr>trFooter := m\<rparr>) (asMap (\<lambda>v. asString v []) v (trFooter t))
      else if f = ''bytes_processed''
      then map_option (\<lambda>n. t\<lparr>trBytesProcessed := n\<rparr>) (asInt v (trBytesProcessed t))
      else if f = ''mode'' then map_option (\<lambda>s. t\<lparr>trMode := s\<rparr>) (asString v (trMode t))
      else if f = ''hash_valid'' then map_option (\<lambda>b. t\<lparr>trHashValid := b\<rparr>) (asBoolPtr v)
      else map_option (\<lambda>ss. t\<lparr>trRecoveries := ss\<rparr>) (asStrings v (trRecoveries t)))"

fun setFields :: "(bytes \<times> json) list \<Rightarrow> trailer \<Rightarrow> trailer option" where
  "setFields [] t = Some t"
| "setFields ((k, v) # ms) t =
     (case fieldFor k of
        None \<Rightarrow> setFields ms t
      | Some f \<Rightarrow> (case setField f v t of None \<Rightarrow> None | Some t' \<Rightarrow> setFields ms t'))"

definition zeroTrailer :: trailer where
  "zeroTrailer = \<lparr>trSecretSHA256 = [], trFingerprintShard = Map.empty, trCrossCRC = Map.empty,
     trLength = 0, trWriteID = [], trWriteIDValid = None, trFooter = Map.empty, trBytesProcessed = 0,
     trMode = [], trHashValid = None, trRecoveries = []\<rparr>"

definition jsonTrailer :: "string \<Rightarrow> trailer option" where
  "jsonTrailer s =
     (case parseJson s of
        Some JNull \<Rightarrow> Some zeroTrailer
      | Some (JObj ms) \<Rightarrow> setFields ms zeroTrailer
      | _ \<Rightarrow> None)"

text \<open>The codec the program uses; \<open>errText\<close> is the library's error for a text it refuses.\<close>

definition goJson :: "(bytes \<Rightarrow> go_error) \<Rightarrow> trailer json_codec" where
  "goJson errText =
     \<lparr>marshal = (\<lambda>t. Inr (trailerJson t)),
      unmarshal = (\<lambda>s. case jsonTrailer s of None \<Rightarrow> Inl (errText s) | Some t \<Rightarrow> Inr t)\<rparr>"

section \<open>A trailer is read back\<close>

text \<open>Finite maps, ASCII text and an \<open>int64\<close>.\<close>

definition asciiMap :: "(bytes \<rightharpoonup> bytes) \<Rightarrow> bool" where
  "asciiMap m \<longleftrightarrow> finite (dom m) \<and> (\<forall>k v. m k = Some v \<longrightarrow> ascii k \<and> ascii v)"

definition plainTrailer :: "trailer \<Rightarrow> bool" where
  "plainTrailer t \<longleftrightarrow>
     ascii (trSecretSHA256 t) \<and> asciiMap (trFingerprintShard t) \<and>
     finite (dom (trCrossCRC t)) \<and> (\<forall>k \<in> dom (trCrossCRC t). ascii k) \<and>
     ascii (trWriteID t) \<and> asciiMap (trFooter t) \<and> is_int64 (trBytesProcessed t) \<and>
     ascii (trMode t) \<and> list_all ascii (trRecoveries t)"

lemma mapMembers_read:
  assumes "\<forall>v. el (J v) = Some v"
  shows "distinct ks \<Longrightarrow> set ks \<subseteq> dom m \<Longrightarrow>
    mapMembers el (map (\<lambda>k. (k, J (the (m k)))) ks) m' = Some (\<lambda>k. if k \<in> set ks then m k else m' k)"
proof (induction ks arbitrary: m')
  case (Cons k ks)
  then obtain v where "m k = Some v" by auto
  with Cons assms show ?case by (auto simp: fun_eq_iff)
qed simp

lemma asMap_read:
  assumes "\<forall>v. el (J v) = Some v" "finite (dom m)"
  shows "asMap el (JObj (map (\<lambda>k. (k, J (the (m k)))) (sorted_list_of_set (dom m)))) Map.empty = Some m"
proof -
  have "(\<lambda>k. if k \<in> dom m then m k else None) = m" by (auto simp: fun_eq_iff domIff)
  with mapMembers_read [OF assms(1), of "sorted_list_of_set (dom m)" m Map.empty] assms(2) show ?thesis by simp
qed

lemma asUint_read: "n < 2 ^ bits \<Longrightarrow> asUint bits (JNum (jsonUint n)) old = Some n"
  by (simp add: jsonUint_def fmtInt_def parseUint_fmtNat)

lemma elements_read: "elements (map JStr ss) old = Some ss"
  by (induction ss arbitrary: old) simp_all

text \<open>The values of the members.\<close>

definition optValue :: "bytes \<Rightarrow> bool \<Rightarrow> json \<Rightarrow> (bytes \<times> json) list" where
  "optValue k present v = (if present then [(k, v)] else [])"

abbreviation mapValue :: "('v \<Rightarrow> json) \<Rightarrow> (bytes \<rightharpoonup> 'v) \<Rightarrow> json" where
  "mapValue J m \<equiv> JObj (map (\<lambda>k. (k, J (the (m k)))) (sorted_list_of_set (dom m)))"

definition trailerValues :: "trailer \<Rightarrow> (bytes \<times> json) list" where
  "trailerValues t =
     [(''secret_sha256'', JStr (trSecretSHA256 t)),
      (''fingerprint_shard'', mapValue JStr (trFingerprintShard t)),
      (''cross_crc'', mapValue (\<lambda>w. JNum (jsonUint (unat w))) (trCrossCRC t)),
      (''length'', JNum (jsonUint (unat (trLength t)))),
      (''write_id'', JStr (trWriteID t))] @
     optValue ''write_id_valid'' (trWriteIDValid t \<noteq> None) (JBool (the (trWriteIDValid t))) @
     optValue ''footer'' (dom (trFooter t) \<noteq> {}) (mapValue JStr (trFooter t)) @
     [(''bytes_processed'', JNum (fmtInt (trBytesProcessed t))),
      (''mode'', JStr (trMode t))] @
     optValue ''hash_valid'' (trHashValid t \<noteq> None) (JBool (the (trHashValid t))) @
     optValue ''recoveries'' (trRecoveries t \<noteq> []) (JArr (map JStr (trRecoveries t)))"

lemma memberOf_opt:
  "(present \<Longrightarrow> memberOf d (k, txt) (k, v)) \<Longrightarrow> list_all2 (memberOf d) (optMember k present txt) (optValue k present v)"
  by (simp add: optMember_def optValue_def)

lemma textOf_uint: "textOf d (JNum (jsonUint n)) (jsonUint n)"
  unfolding jsonUint_def by (rule textOf_number)

lemma trailerJson_text:
  assumes "plainTrailer t"
  shows "textOf 2 (JObj (trailerValues t)) (trailerJson t)"
proof -
  have maps: "textOf (Suc 0) (mapValue JStr m) (jsonMap jsonString m)" if "asciiMap m" for m
    using that by (intro textOf_map) (auto simp: asciiMap_def intro: textOf_string)
  have crc: "textOf (Suc 0) (mapValue (\<lambda>w. JNum (jsonUint (unat w))) (trCrossCRC t))
      (jsonMap (\<lambda>w. jsonUint (unat w)) (trCrossCRC t))"
    using assms by (intro textOf_map) (auto simp: plainTrailer_def intro: textOf_uint)
  have recs: "textOf (Suc 0) (JArr (map JStr (trRecoveries t))) (jsonArray (map jsonString (trRecoveries t)))"
    if "trRecoveries t \<noteq> []"
    using assms that by (intro textOf_strings) (auto simp: plainTrailer_def)
  have "list_all2 (memberOf (Suc 0)) (trailerMembers t) (trailerValues t)"
    unfolding trailerMembers_def trailerValues_def
    by (intro list_all2_appendI list.rel_intros memberOf_opt)
      (use assms maps crc recs in \<open>auto simp: memberOf_def plainTrailer_def textOf_string textOf_bool textOf_uint textOf_number\<close>)
  from textOf_members [OF this] show ?thesis by (simp add: trailerJson_def numeral_2_eq_2)
qed

lemma setFields_append:
  "setFields (a @ b) t = (case setFields a t of None \<Rightarrow> None | Some t' \<Rightarrow> setFields b t')"
  by (induction a t rule: setFields.induct) (auto split: option.splits)

lemma setFields_opt:
  "fieldFor k = Some k \<Longrightarrow>
   setFields (optValue k present v) t = (if present then setField k v t else Some t)"
  by (auto simp: optValue_def split: option.split)

lemma fieldFor_names:
  "fieldFor ''secret_sha256'' = Some ''secret_sha256''"
  "fieldFor ''fingerprint_shard'' = Some ''fingerprint_shard''"
  "fieldFor ''cross_crc'' = Some ''cross_crc''"
  "fieldFor ''length'' = Some ''length''"
  "fieldFor ''write_id'' = Some ''write_id''"
  "fieldFor ''write_id_valid'' = Some ''write_id_valid''"
  "fieldFor ''footer'' = Some ''footer''"
  "fieldFor ''bytes_processed'' = Some ''bytes_processed''"
  "fieldFor ''mode'' = Some ''mode''"
  "fieldFor ''hash_valid'' = Some ''hash_valid''"
  "fieldFor ''recoveries'' = Some ''recoveries''"
  by (simp_all add: fieldFor_def fieldNames_def)

lemma crcOf_read: "\<forall>w. crcOf (JNum (jsonUint (unat w))) = Some (w :: 32 word)"
proof
  fix w :: "32 word"
  have "unat w < 2 ^ 32" using unsigned_less [of w, where 'a = nat] by simp
  from asUint_read [OF this] show "crcOf (JNum (jsonUint (unat w))) = Some w"
    by (simp add: crcOf_def del: asUint.simps)
qed

lemma trailer_read:
  assumes "plainTrailer t"
  shows "setFields (trailerValues t) zeroTrailer = Some t"
proof -
  have maps: "asMap (\<lambda>v. asString v []) (mapValue JStr m) Map.empty = Some m" if "asciiMap m" for m
    using that by (intro asMap_read) (simp_all add: asciiMap_def)
  have crc: "asMap crcOf (mapValue (\<lambda>w. JNum (jsonUint (unat w))) (trCrossCRC t)) Map.empty = Some (trCrossCRC t)"
    using assms by (intro asMap_read crcOf_read) (simp add: plainTrailer_def)
  have len: "asUint 64 (JNum (jsonUint (unat (trLength t)))) old = Some (unat (trLength t))" for old
    using unsigned_less [of "trLength t", where 'a = nat] by (intro asUint_read) simp
  let ?t1 = "zeroTrailer\<lparr>trSecretSHA256 := trSecretSHA256 t, trFingerprintShard := trFingerprintShard t,
    trCrossCRC := trCrossCRC t, trLength := trLength t, trWriteID := trWriteID t\<rparr>"
  have 1: "setFields [(''secret_sha256'', JStr (trSecretSHA256 t)),
      (''fingerprint_shard'', mapValue JStr (trFingerprintShard t)),
      (''cross_crc'', mapValue (\<lambda>w. JNum (jsonUint (unat w))) (trCrossCRC t)),
      (''length'', JNum (jsonUint (unat (trLength t)))),
      (''write_id'', JStr (trWriteID t))] zeroTrailer = Some ?t1"
    using assms maps [of "trFingerprintShard t"] crc len
    by (simp add: fieldFor_names setField_def plainTrailer_def zeroTrailer_def del: asMap.simps asUint.simps)
  let ?t2 = "?t1\<lparr>trWriteIDValid := trWriteIDValid t\<rparr>"
  have 2: "setFields (optValue ''write_id_valid'' (trWriteIDValid t \<noteq> None) (JBool (the (trWriteIDValid t)))) ?t1 = Some ?t2"
    by (auto simp: setFields_opt fieldFor_names setField_def zeroTrailer_def)
  let ?t3 = "?t2\<lparr>trFooter := trFooter t\<rparr>"
  have 3: "setFields (optValue ''footer'' (dom (trFooter t) \<noteq> {}) (mapValue JStr (trFooter t))) ?t2 = Some ?t3"
    using assms maps [of "trFooter t"]
    by (auto simp: setFields_opt fieldFor_names setField_def zeroTrailer_def plainTrailer_def simp del: asMap.simps)
  let ?t4 = "?t3\<lparr>trBytesProcessed := trBytesProcessed t, trMode := trMode t\<rparr>"
  have 4: "setFields [(''bytes_processed'', JNum (fmtInt (trBytesProcessed t))), (''mode'', JStr (trMode t))] ?t3 = Some ?t4"
    using assms by (simp add: fieldFor_names setField_def plainTrailer_def atoi_fmtInt)
  let ?t5 = "?t4\<lparr>trHashValid := trHashValid t\<rparr>"
  have 5: "setFields (optValue ''hash_valid'' (trHashValid t \<noteq> None) (JBool (the (trHashValid t)))) ?t4 = Some ?t5"
    by (auto simp: setFields_opt fieldFor_names setField_def zeroTrailer_def)
  have 6: "setFields (optValue ''recoveries'' (trRecoveries t \<noteq> []) (JArr (map JStr (trRecoveries t)))) ?t5 = Some t"
    by (auto simp: setFields_opt fieldFor_names setField_def zeroTrailer_def elements_read)
  show ?thesis
    unfolding trailerValues_def by (simp only: setFields_append 1 2 3 4 5 6 option.case)
qed

lemma jsonTrailer_written: "plainTrailer t \<Longrightarrow> jsonTrailer (trailerJson t) = Some t"
  using textOf_parse [OF trailerJson_text] trailer_read by (simp add: jsonTrailer_def maxNesting_def)

end
