(* ===== verification/TrailingFooter.thy ===== *)
theory TrailingFooter
  imports Lines GoText
begin

text \<open>
  \<open>internal/particleio/trailing_footer.go\<close>: a reader that holds the last \<open>fsz\<close> bytes of a
  stream back, so that reads deliver the payload first and the footer after its EOF.
  \<open>fsz\<close> is the module's \<open>footer.Size\<close> (64), a parameter here.
\<close>

record 'r tfr =
  under :: 'r
  tail :: bytes
  payloadDone :: bool
  footPhase :: bool
  footOff :: nat
  peakTail :: nat

definition newTrailingFooterReader :: "'r \<Rightarrow> 'r tfr" where
  "newTrailingFooterReader r =
     \<lparr>under = r, tail = [], payloadDone = False, footPhase = False, footOff = 0, peakTail = 0\<rparr>"

definition noteTail :: "'r tfr \<Rightarrow> 'r tfr" where
  "noteTail t = (if peakTail t < length (tail t) then t\<lparr>peakTail := length (tail t)\<rparr> else t)"

definition shortStream :: "bytes \<Rightarrow> go_error" where
  "shortStream held = Errorf (''stream shorter than footer ('' @ fmtNat 10 (length held) @ '' bytes)'')"

definition footRead :: "nat \<Rightarrow> 'r tfr readfn" where
  "footRead fsz t k =
     (if fsz \<le> footOff t then (t, [], Some EOF)
      else
        let bs = take k (drop (footOff t) (take fsz (tail t)));
            t' = t\<lparr>footOff := footOff t + length bs\<rparr>
        in if fsz \<le> footOff t' then (t', bs, Some EOF) else (t', bs, None))"

definition payloadRead :: "nat \<Rightarrow> 'r readfn \<Rightarrow> 'r tfr readfn" where
  "payloadRead fsz rd t k =
     (case rd (under t) k of (r', bs, err) \<Rightarrow>
        let t0 = t\<lparr>under := r'\<rparr> in
        if bs \<noteq> [] then
          let combined = tail t @ bs in
          if length combined \<le> fsz then
            let t1 = noteTail (t0\<lparr>tail := combined\<rparr>) in
            if err = Some EOF then
              (if length (tail t1) < fsz then (t1, [], Some (shortStream (tail t1)))
               else (t1\<lparr>payloadDone := True\<rparr>, [], Some EOF))
            else (t1, [], None)
          else
            let emitLen = length combined - fsz;
                t1 = noteTail (t0\<lparr>tail := drop emitLen combined\<rparr>)
            in if err = Some EOF
               then (t1\<lparr>payloadDone := True\<rparr>, take emitLen combined, Some EOF)
               else (t1, take emitLen combined, None)
        else if err = Some EOF then
          (if length (tail t0) < fsz then (t0, [], Some (shortStream (tail t0)))
           else (t0\<lparr>payloadDone := True\<rparr>, [], Some EOF))
        else (t0, [], err))"

definition tfr_Read :: "nat \<Rightarrow> 'r readfn \<Rightarrow> 'r tfr readfn" where
  "tfr_Read fsz rd t k =
     (if footPhase t then footRead fsz t k
      else if payloadDone t then footRead fsz (t\<lparr>footPhase := True\<rparr>) k
      else payloadRead fsz rd t k)"

definition peakTailHold :: "'r tfr \<Rightarrow> nat" where
  "peakTailHold t = peakTail t"

text \<open>\<open>footer.Parse\<close> of the module is the parameter \<open>parse\<close>.\<close>

definition parsedFooter :: "nat \<Rightarrow> (bytes \<Rightarrow> 'f result) \<Rightarrow> 'r tfr \<Rightarrow> 'f result" where
  "parsedFooter fsz parse t =
     (if \<not> footPhase t \<or> footOff t < fsz then Inl (Errorf ''footer not available yet'')
      else parse (tail t))"

section \<open>The look-behind invariant\<close>

text \<open>
  While the payload is being read, what has been held back and what is still to come are
  what the consumer has not seen: its last \<open>fsz\<close> bytes are the footer, the rest is the
  payload still to deliver.  After the payload the tail is the footer.
\<close>

definition holdsAtMost :: "nat \<Rightarrow> 'r tfr \<Rightarrow> bool" where
  "holdsAtMost fsz t \<longleftrightarrow> length (tail t) \<le> fsz \<and> peakTail t \<le> fsz \<and> length (tail t) \<le> peakTail t"

lemma noteTail_fields [simp]:
  "under (noteTail t) = under t" "tail (noteTail t) = tail t"
  "payloadDone (noteTail t) = payloadDone t" "footPhase (noteTail t) = footPhase t"
  "footOff (noteTail t) = footOff t" "peakTail (noteTail t) = max (peakTail t) (length (tail t))"
  by (simp_all add: noteTail_def)

lemma footRead_holds: "holdsAtMost fsz t \<Longrightarrow> footRead fsz t k = (t', bs, e) \<Longrightarrow> holdsAtMost fsz t'"
  by (auto simp: footRead_def holdsAtMost_def Let_def split: if_splits)

lemma payloadRead_holds:
  "holdsAtMost fsz t \<Longrightarrow> payloadRead fsz rd t k = (t', bs, e) \<Longrightarrow> holdsAtMost fsz t'"
  by (auto simp: payloadRead_def holdsAtMost_def Let_def split: if_splits prod.splits)

lemma tfr_Read_holds:
  assumes "holdsAtMost fsz t" "tfr_Read fsz rd t k = (t', bs, e)"
  shows "holdsAtMost fsz t'"
proof -
  have "holdsAtMost fsz (t\<lparr>footPhase := True\<rparr>)" using assms(1) by (simp add: holdsAtMost_def)
  with assms show ?thesis
    by (auto simp: tfr_Read_def split: if_splits intro: footRead_holds payloadRead_holds)
qed

text \<open>Reads with any buffer sizes, errors included.\<close>

fun tfr_run :: "nat \<Rightarrow> 'r readfn \<Rightarrow> nat list \<Rightarrow> 'r tfr \<Rightarrow> 'r tfr" where
  "tfr_run fsz rd [] t = t"
| "tfr_run fsz rd (k # ks) t = tfr_run fsz rd ks (fst (tfr_Read fsz rd t k))"

lemma tfr_run_holds: "holdsAtMost fsz t \<Longrightarrow> holdsAtMost fsz (tfr_run fsz rd ks t)"
proof (induction ks arbitrary: t)
  case (Cons k ks)
  obtain t' bs e where "tfr_Read fsz rd t k = (t', bs, e)" by (cases "tfr_Read fsz rd t k")
  with Cons tfr_Read_holds [OF Cons.prems] show ?case by simp
qed simp

text \<open>
  C27: whatever the underlying reader does and whatever buffers the consumer brings, the
  reader never holds back more than one footer, and its peak counter says so.
\<close>

theorem look_behind_bounded:
  "length (tail (tfr_run fsz rd ks (newTrailingFooterReader r))) \<le> fsz
   \<and> peakTailHold (tfr_run fsz rd ks (newTrailingFooterReader r)) \<le> fsz"
proof -
  have "holdsAtMost fsz (newTrailingFooterReader r)"
    by (simp add: holdsAtMost_def newTrailingFooterReader_def)
  then have "holdsAtMost fsz (tfr_run fsz rd ks (newTrailingFooterReader r))"
    by (rule tfr_run_holds)
  then show ?thesis by (simp add: holdsAtMost_def peakTailHold_def)
qed

section \<open>Payload, then footer\<close>

definition payloadState :: "('r \<Rightarrow> bool) \<Rightarrow> ('r \<Rightarrow> bytes) \<Rightarrow> nat \<Rightarrow> 'r tfr \<Rightarrow> bool" where
  "payloadState ok content fsz t \<longleftrightarrow>
     ok (under t) \<and> \<not> payloadDone t \<and> \<not> footPhase t \<and> footOff t = 0 \<and> length (tail t) \<le> fsz"

definition unseen :: "('r \<Rightarrow> bytes) \<Rightarrow> 'r tfr \<Rightarrow> bytes" where
  "unseen content t = tail t @ content (under t)"

text \<open>The bytes of a stream before its footer, and the footer.\<close>

definition payloadOf :: "nat \<Rightarrow> bytes \<Rightarrow> bytes" where
  "payloadOf fsz s = take (length s - fsz) s"

definition footerOf :: "nat \<Rightarrow> bytes \<Rightarrow> bytes" where
  "footerOf fsz s = drop (length s - fsz) s"

lemma payload_footer_split: "payloadOf fsz s @ footerOf fsz s = s"
  by (simp add: payloadOf_def footerOf_def)

lemma payloadOf_append: "fsz \<le> length s \<Longrightarrow> payloadOf fsz (bs @ s) = bs @ payloadOf fsz s"
  by (simp add: payloadOf_def)

lemma footerOf_append: "fsz \<le> length s \<Longrightarrow> footerOf fsz (bs @ s) = footerOf fsz s"
  by (simp add: footerOf_def)

lemma footerOf_exact: "length s = fsz \<Longrightarrow> footerOf fsz s = s \<and> payloadOf fsz s = []"
  by (simp add: footerOf_def payloadOf_def)

context io_reader
begin

text \<open>
  One read in the payload phase.  It goes on (the bytes it returns are the next bytes of the
  stream), or ends the payload with the footer in hand, or fails because the stream is
  shorter than a footer or ends with an error of its own.
\<close>

lemma payload_step:
  assumes t: "payloadState ok content fsz t" and r: "tfr_Read fsz rd t k = (t', bs, e)" and k: "0 < k"
  shows "(e = None \<longrightarrow> payloadState ok content fsz t' \<and> unseen content t = bs @ unseen content t' \<and>
           (bs \<noteq> [] \<longrightarrow> fsz \<le> length (unseen content t')) \<and>
           final (under t') = final (under t) \<and> gas (under t') < gas (under t))
    \<and> (\<forall>x. e = Some x \<longrightarrow> final (under t) = EOF \<longrightarrow> fsz \<le> length (unseen content t) \<longrightarrow>
           x = EOF \<and> unseen content t = bs @ tail t' \<and> length (tail t') = fsz \<and>
           payloadDone t' \<and> \<not> footPhase t' \<and> footOff t' = 0)
    \<and> (\<forall>x. e = Some x \<longrightarrow> final (under t) = EOF \<longrightarrow> length (unseen content t) < fsz \<longrightarrow>
           bs = [] \<and> x = shortStream (unseen content t))
    \<and> (\<forall>x. e = Some x \<longrightarrow> final (under t) \<noteq> EOF \<longrightarrow>
           bs = [] \<and> x = final (under t) \<and> unseen content t = tail t)"
proof -
  obtain r' cs err where step: "rd (under t) k = (r', cs, err)" by (cases "rd (under t) k")
  have ok: "ok (under t)" using t by (simp add: payloadState_def)
  note laws = rd_step [OF ok step]
  have read: "payloadRead fsz rd t k = (t', bs, e)"
    using r t by (simp add: tfr_Read_def payloadState_def)
  consider (idle) "cs = []" | (hold) "cs \<noteq> []" "length (tail t @ cs) \<le> fsz"
    | (emit) "cs \<noteq> []" "fsz < length (tail t @ cs)" by force
  then show ?thesis
  proof cases
    case idle
    with read step laws t k show ?thesis
      by (cases err) (auto simp: payloadRead_def Let_def payloadState_def unseen_def split: if_splits)
  next
    case hold
    with laws have "gas r' < gas (under t)" by (cases cs) auto
    with hold read step laws t show ?thesis
      by (cases err) (auto simp: payloadRead_def Let_def payloadState_def unseen_def split: if_splits)
  next
    case emit
    with laws have less: "gas r' < gas (under t)" by (cases cs) auto
    define n where "n = length (tail t @ cs) - fsz"
    define em where "em = take n (tail t @ cs)"
    define kp where "kp = drop n (tail t @ cs)"
    have split: "tail t @ cs = em @ kp" and len: "length kp = fsz"
      using emit by (simp_all add: em_def kp_def n_def del: take_append drop_append)
    have res: "bs = em" "tail t' = kp" "under t' = r'"
        "footPhase t' = footPhase t" "footOff t' = footOff t"
        "payloadDone t' = (err = Some EOF \<or> payloadDone t)"
        "e = (if err = Some EOF then Some EOF else None)"
      using emit read step
      by (auto simp: payloadRead_def Let_def em_def kp_def n_def split: if_splits)
    have "unseen content t = (tail t @ cs) @ content r'"
      using laws by (simp add: unseen_def)
    then have uns: "unseen content t = em @ kp @ content r'" by (simp add: split)
    have "err \<noteq> None \<Longrightarrow> content r' = []" using laws by auto
    with uns res len laws t less show ?thesis
      by (auto simp: payloadState_def unseen_def [of content t'])
  qed
qed

lemma tfr_drain:
  "payloadState ok content fsz t \<Longrightarrow> \<forall>k \<in> set ks. 0 < k \<Longrightarrow> gas (under t) < length ks \<Longrightarrow>
   final (under t) = EOF \<Longrightarrow> fsz \<le> length (unseen content t) \<Longrightarrow>
   \<exists>t'. drain (tfr_Read fsz rd) ks t = (t', payloadOf fsz (unseen content t), Some EOF) \<and>
     tail t' = footerOf fsz (unseen content t) \<and> payloadDone t' \<and> \<not> footPhase t' \<and> footOff t' = 0"
proof (induction ks arbitrary: t)
  case Nil
  then show ?case by simp
next
  case (Cons k ks)
  obtain t' bs e where step: "tfr_Read fsz rd t k = (t', bs, e)" by (cases "tfr_Read fsz rd t k")
  note laws = payload_step [OF Cons.prems(1) step]
  show ?case
  proof (cases e)
    case None
    with laws Cons.prems have nx: "payloadState ok content fsz t'"
        "unseen content t = bs @ unseen content t'" "final (under t') = EOF"
        "gas (under t') < length ks" "fsz \<le> length (unseen content t')"
      by (auto simp: less_Suc_eq)
    then obtain t'' where "drain (tfr_Read fsz rd) ks t' = (t'', payloadOf fsz (unseen content t'), Some EOF)"
        "tail t'' = footerOf fsz (unseen content t')" "payloadDone t''" "\<not> footPhase t''" "footOff t'' = 0"
      using Cons.IH [of t'] Cons.prems(2) by auto
    with step None nx show ?thesis by (simp add: payloadOf_append footerOf_append)
  next
    case (Some x)
    with laws Cons.prems have "x = EOF" "unseen content t = bs @ tail t'" "length (tail t') = fsz"
        "payloadDone t'" "\<not> footPhase t'" "footOff t' = 0" by auto
    with step Some show ?thesis
      using footerOf_exact [of "tail t'" fsz] by (simp add: payloadOf_append footerOf_append)
  qed
qed

lemma tfr_drain_short:
  "payloadState ok content fsz t \<Longrightarrow> \<forall>k \<in> set ks. 0 < k \<Longrightarrow> gas (under t) < length ks \<Longrightarrow>
   final (under t) = EOF \<Longrightarrow> length (unseen content t) < fsz \<Longrightarrow>
   \<exists>t'. drain (tfr_Read fsz rd) ks t = (t', [], Some (shortStream (unseen content t)))"
proof (induction ks arbitrary: t)
  case (Cons k ks)
  obtain t' bs e where step: "tfr_Read fsz rd t k = (t', bs, e)" by (cases "tfr_Read fsz rd t k")
  note laws = payload_step [OF Cons.prems(1) step]
  show ?case
  proof (cases e)
    case None
    with laws Cons.prems have "bs = []" by auto
    with None laws Cons.prems have "payloadState ok content fsz t'"
        "unseen content t = unseen content t'" "final (under t') = EOF" "gas (under t') < length ks"
      by auto
    with Cons.IH [of t'] Cons.prems step None \<open>bs = []\<close> show ?thesis by auto
  next
    case (Some x)
    with laws Cons.prems step show ?thesis by auto
  qed
qed simp

lemma tfr_drain_broken:
  "payloadState ok content fsz t \<Longrightarrow> \<forall>k \<in> set ks. 0 < k \<Longrightarrow> gas (under t) < length ks \<Longrightarrow>
   final (under t) \<noteq> EOF \<Longrightarrow>
   \<exists>t'. drain (tfr_Read fsz rd) ks t = (t', payloadOf fsz (unseen content t), Some (final (under t)))"
proof (induction ks arbitrary: t)
  case (Cons k ks)
  obtain t' bs e where step: "tfr_Read fsz rd t k = (t', bs, e)" by (cases "tfr_Read fsz rd t k")
  note laws = payload_step [OF Cons.prems(1) step]
  show ?case
  proof (cases e)
    case None
    with laws Cons.prems have nx: "payloadState ok content fsz t'"
        "final (under t') = final (under t)" "gas (under t') < length ks"
        "unseen content t = bs @ unseen content t'" "bs \<noteq> [] \<longrightarrow> fsz \<le> length (unseen content t')"
      by (auto simp: less_Suc_eq)
    then obtain t'' where "drain (tfr_Read fsz rd) ks t' =
        (t'', payloadOf fsz (unseen content t'), Some (final (under t)))"
      using Cons.IH [of t'] Cons.prems by auto
    with step None nx show ?thesis by (cases "bs = []") (simp_all add: payloadOf_append)
  next
    case (Some x)
    with laws Cons.prems have "bs = []" "x = final (under t)" "unseen content t = tail t" by auto
    moreover have "length (tail t) \<le> fsz" using Cons.prems(1) by (simp add: payloadState_def)
    ultimately show ?thesis using step Some by (simp add: payloadOf_def)
  qed
qed simp

end

section \<open>The footer phase is a reader of the footer\<close>

definition footOk :: "nat \<Rightarrow> 'r tfr \<Rightarrow> bool" where
  "footOk fsz t \<longleftrightarrow> (payloadDone t \<or> footPhase t) \<and> length (tail t) = fsz \<and> footOff t \<le> fsz"

definition footContent :: "'r tfr \<Rightarrow> bytes" where
  "footContent t = drop (footOff t) (tail t)"

lemma tfr_Read_foot:
  "footOk fsz t \<Longrightarrow> tfr_Read fsz rd t k = footRead fsz (t\<lparr>footPhase := True\<rparr>) k"
  by (cases t) (auto simp: tfr_Read_def footOk_def)

lemma drop_split: "drop i s = take k (drop i s) @ drop (i + k) s"
  by (metis add.commute append_take_drop_id drop_drop)

lemma footRead_step:
  assumes "footOk fsz t" "tfr_Read fsz rd t k = (t', bs, e)"
  shows "footOk fsz t' \<and> length bs \<le> k \<and> footContent t = bs @ footContent t' \<and>
    fsz - footOff t' + length bs \<le> fsz - footOff t \<and> tail t' = tail t \<and> footPhase t' \<and>
    (\<forall>x. e = Some x \<longrightarrow> x = EOF \<and> footContent t' = []) \<and>
    (e = None \<and> 0 < k \<longrightarrow> fsz - footOff t' < fsz - footOff t)"
proof (cases "fsz \<le> footOff t")
  case True
  with assms show ?thesis
    by (auto simp: tfr_Read_foot footRead_def footOk_def footContent_def)
next
  case False
  have bs: "bs = take k (drop (footOff t) (tail t))"
    and t': "t' = t\<lparr>footPhase := True, footOff := footOff t + length bs\<rparr>"
    and e: "e = (if fsz \<le> footOff t + length bs then Some EOF else None)"
    using assms False by (auto simp: tfr_Read_foot footRead_def footOk_def Let_def split: if_splits)
  have "drop (footOff t) (tail t) = bs @ drop (footOff t + length bs) (tail t)"
  proof (cases "k \<le> length (tail t) - footOff t")
    case True
    then have "length bs = k" by (simp add: bs)
    then show ?thesis unfolding bs using drop_split by metis
  qed (simp add: bs)
  moreover have "footOff t + length bs \<le> fsz" "length bs \<le> k"
    using assms(1) False by (auto simp: footOk_def bs)
  moreover have "fsz - (footOff t + length bs) < fsz - footOff t" if "0 < k"
  proof -
    have "0 < length bs" using assms(1) False that by (simp add: footOk_def bs)
    then show ?thesis using False by linarith
  qed
  ultimately show ?thesis
    using assms(1) False t' e by (auto simp: footOk_def footContent_def)
qed

interpretation foot: io_reader "tfr_Read fsz rd" "footOk fsz" footContent "\<lambda>_. EOF"
    "\<lambda>t. fsz - footOff t" for fsz rd
  by unfold_locales (use footRead_step in blast)+

lemma readFullLoop_foot_tail:
  "footOk fsz t \<Longrightarrow> readFullLoop (tfr_Read fsz rd) fuel t m = (t', bs, e) \<Longrightarrow>
   tail t' = tail t \<and> (0 < fuel \<and> 0 < m \<longrightarrow> footPhase t')"
proof (induction fuel arbitrary: t m t' bs e)
  case 0
  then show ?case by simp
next
  case (Suc fuel)
  obtain t1 cs x where step: "tfr_Read fsz rd t m = (t1, cs, x)" by (cases "tfr_Read fsz rd t m")
  note laws = footRead_step [OF Suc.prems(1) step]
  show ?case
  proof (cases "m = 0 \<or> m \<le> length cs \<or> x \<noteq> None")
    case True
    with Suc.prems step laws show ?thesis by (auto split: if_splits option.splits)
  next
    case False
    then obtain t2 ds y where rest:
        "readFullLoop (tfr_Read fsz rd) fuel t1 (m - length cs) = (t2, ds, y)"
      by (cases "readFullLoop (tfr_Read fsz rd) fuel t1 (m - length cs)")
    from Suc.IH [OF _ rest] laws False Suc.prems step rest show ?thesis
      by (cases fuel) auto
  qed
qed

lemma readFull_foot_tail:
  "footOk fsz t \<Longrightarrow> readFull (tfr_Read fsz rd) (Suc fuel) t m = (t', bs, e) \<Longrightarrow> 0 < m \<Longrightarrow>
   tail t' = tail t \<and> footPhase t'"
  using readFullLoop_foot_tail [of fsz t rd "Suc fuel" m]
  by (auto simp: readFull_def split: prod.splits)

section \<open>A particle stream on the merge server\<close>

text \<open>
  The server reads a particle through this reader over the buffered connection whose token
  has been consumed.
\<close>

lemma newTfr_payloadState:
  "crOk b \<Longrightarrow> payloadState crOk crContent fsz (newTrailingFooterReader b)"
  "unseen crContent (newTrailingFooterReader b) = crContent b"
  by (simp_all add: payloadState_def newTrailingFooterReader_def unseen_def)

text \<open>
  C12: a complete particle file on a connection, read with any buffer sizes over any
  segmentation: the consumer sees exactly the payload and then EOF; after that a full read of
  one footer returns exactly the trailing bytes, and the footer is parsed from them.
\<close>

theorem particle_payload_then_footer:
  assumes "crOk b" "crContent b = payload @ foot" "crFinal b = EOF"
    and "length foot = fsz" "0 < fsz" "\<forall>k \<in> set ks. 0 < k" "crGas b < length ks"
  shows "\<exists>t t'. drain (tfr_Read fsz cr_Read) ks (newTrailingFooterReader b) = (t, payload, Some EOF)
    \<and> readFull (tfr_Read fsz cr_Read) (Suc fsz) t fsz = (t', foot, None)
    \<and> parsedFooter fsz parse t' = parse foot"
proof -
  let ?t = "newTrailingFooterReader b"
  have u: "under ?t = b" by (simp add: newTrailingFooterReader_def)
  have "payloadOf fsz (payload @ foot) = payload" "footerOf fsz (payload @ foot) = foot"
    using assms(4) by (simp_all add: payloadOf_def footerOf_def)
  then obtain t where t: "drain (tfr_Read fsz cr_Read) ks ?t = (t, payload, Some EOF)"
      "tail t = foot" "payloadDone t" "footOff t = 0"
    using cr.tfr_drain [OF newTfr_payloadState(1) [OF assms(1)], of ks fsz] assms
    by (auto simp: u newTfr_payloadState(2))
  have ok: "footOk fsz t" "footContent t = foot"
    using t assms(4) by (simp_all add: footOk_def footContent_def)
  obtain t' bs e where r: "readFull (tfr_Read fsz cr_Read) (Suc fsz) t fsz = (t', bs, e)"
    by (cases "readFull (tfr_Read fsz cr_Read) (Suc fsz) t fsz")
  have "bs = foot" "e = None" "footContent t' = []" "footOk fsz t'"
    using foot.readFull_spec [OF ok(1) _ r] ok(2) assms(4) by auto
  moreover have "tail t' = foot \<and> footPhase t'"
    using readFull_foot_tail [OF ok(1) r assms(5)] t(2) by simp
  ultimately show ?thesis
    using t(1) r assms(4) by (auto simp: parsedFooter_def footOk_def footContent_def)
qed

theorem particle_payload_then_footer_witness:
  "\<exists>t t'. drain (tfr_Read 2 cr_Read) [3, 1, 3, 1, 3, 3, 3]
       (newTrailingFooterReader (newBufio \<lparr>chunks = [''ab'', ''cd''], inpEnd = EOF, early = False\<rparr>))
       = (t, ''ab'', Some EOF)
    \<and> readFull (tfr_Read 2 cr_Read) 3 t 2 = (t', ''cd'', None)
    \<and> parsedFooter 2 Inr t' = Inr ''cd''"
proof -
  let ?b = "newBufio \<lparr>chunks = [''ab'', ''cd''], inpEnd = EOF, early = False\<rparr>"
  have "crOk ?b" "crContent ?b = ''ab'' @ ''cd''" "crFinal ?b = EOF" "crGas ?b = 6"
    by (simp_all add: wf_inp_def inpContent_def inpGas_def)
  then show ?thesis
    using particle_payload_then_footer [of ?b "''ab''" "''cd''" 2 "[3, 1, 3, 1, 3, 3, 3]" Inr]
    by simp
qed

text \<open>
  C28: what the consumer gets of any stream, cut off or not: everything but the last \<open>fsz\<close>
  bytes, and then the connection's error if it broke, the length error if the stream ended in
  order with less than a footer, and otherwise EOF, with its last \<open>fsz\<close> bytes in hand as the
  footer.  So a stream that breaks or is shorter than a footer is never taken for a particle,
  and one that ends in order too early, but after a footer's length, is: whether these last
  bytes are a footer is for the footer module to check.
\<close>

theorem particle_stream_outcome:
  assumes "crOk b" "\<forall>k \<in> set ks. 0 < k" "crGas b < length ks"
  shows "\<exists>t. drain (tfr_Read fsz cr_Read) ks (newTrailingFooterReader b) =
      (t, payloadOf fsz (crContent b),
       Some (if crFinal b = EOF \<and> length (crContent b) < fsz then shortStream (crContent b)
             else crFinal b))
    \<and> (crFinal b = EOF \<and> fsz \<le> length (crContent b) \<longrightarrow> payloadDone t \<and> tail t = footerOf fsz (crContent b))"
proof -
  let ?t = "newTrailingFooterReader b"
  have u: "under ?t = b" by (simp add: newTrailingFooterReader_def)
  note st = newTfr_payloadState(1) [OF assms(1), of fsz] and un = newTfr_payloadState(2)
  consider (whole) "crFinal b = EOF" "fsz \<le> length (crContent b)"
    | (short) "crFinal b = EOF" "length (crContent b) < fsz" | (broken) "crFinal b \<noteq> EOF" by force
  then show ?thesis
  proof cases
    case whole
    with cr.tfr_drain [OF st assms(2)] assms(3) show ?thesis by (auto simp: u un)
  next
    case short
    with cr.tfr_drain_short [OF st assms(2)] assms(3) show ?thesis by (auto simp: u un payloadOf_def)
  next
    case broken
    with cr.tfr_drain_broken [OF st assms(2)] assms(3) show ?thesis by (auto simp: u un)
  qed
qed

theorem particle_stream_outcome_witness:
  "(\<exists>t. drain (tfr_Read 64 cr_Read) [7]
       (newTrailingFooterReader (newBufio \<lparr>chunks = [], inpEnd = EOF, early = False\<rparr>))
       = (t, [], Some (shortStream []))) \<and>
   (\<exists>t. drain (tfr_Read 2 cr_Read) [3, 1, 3, 1, 3, 3, 3]
       (newTrailingFooterReader (newBufio \<lparr>chunks = [''ab'', ''cd''], inpEnd = UnexpectedEOF, early = False\<rparr>))
       = (t, ''ab'', Some UnexpectedEOF))"
proof -
  let ?b = "newBufio \<lparr>chunks = [], inpEnd = EOF, early = False\<rparr>"
  let ?c = "newBufio \<lparr>chunks = [''ab'', ''cd''], inpEnd = UnexpectedEOF, early = False\<rparr>"
  have "crOk ?b" "crContent ?b = []" "crFinal ?b = EOF" "crGas ?b = 0"
    by (simp_all add: wf_inp_def inpContent_def inpGas_def)
  moreover have "crOk ?c" "crContent ?c = ''abcd''" "crFinal ?c = UnexpectedEOF" "crGas ?c = 6"
    by (simp_all add: wf_inp_def inpContent_def inpGas_def)
  ultimately show ?thesis
    using particle_stream_outcome [of ?b "[7]" 64] particle_stream_outcome [of ?c "[3, 1, 3, 1, 3, 3, 3]" 2]
    by (simp add: payloadOf_def)
qed

end
