(* ===== verification/Server.thy ===== *)
theory Server
  imports Config MergePlan SessionNet TrailerData TrailingFooter
begin

text \<open>
  One session of the server (\<open>internal/server/server.go\<close>: \<open>handleCom\<close>; \<open>split.go\<close>, \<open>merge.go\<close>,
  \<open>session.go\<close>), from the handshake to the trailer or error frame and the release of the
  connections.  The stream encoder and decoder of the shared module are arguments: an
  encoder takes the chunk size and the document reader and yields what it writes to the six
  particle streams and its result; a decoder takes the six sources and the document writer.
\<close>

section \<open>Sources of a merge\<close>

definition fullInventory :: "particle_kind \<rightharpoonup> bool" where
  "fullInventory = [EvenCypher \<mapsto> True, OddCypher \<mapsto> True, EvenNoise \<mapsto> True, OddNoise \<mapsto> True,
     CypherParity \<mapsto> True, NoiseParity \<mapsto> True]"

definition mergeSendPlan :: "pcs_module \<Rightarrow> merge_profile \<Rightarrow> merge_send_plan result" where
  "mergeSendPlan M profile =
     mergeSendPlanFrom M (Some (newInventory M fullInventory)) (missingMap profile)"

fun payload_Read :: "payload readfn" where
  "payload_Read (Payload pc) k = (case payloadConn_Read pc k of (pc', bs, e) \<Rightarrow> (Payload pc', bs, e))"
| "payload_Read (RawConn c) k = (case inp_Read c k of (c', bs, e) \<Rightarrow> (RawConn c', bs, e))"

text \<open>Both kinds of connection are readers.\<close>

fun payOk :: "payload \<Rightarrow> bool" where
  "payOk (Payload pc) = crOk pc"
| "payOk (RawConn c) = wf_inp c"

fun payContent :: "payload \<Rightarrow> bytes" where
  "payContent (Payload pc) = crContent pc"
| "payContent (RawConn c) = inpContent c"

fun payFinal :: "payload \<Rightarrow> go_error" where
  "payFinal (Payload pc) = crFinal pc"
| "payFinal (RawConn c) = inpEnd c"

fun payGas :: "payload \<Rightarrow> nat" where
  "payGas (Payload pc) = crGas pc"
| "payGas (RawConn c) = inpGas c"

lemma payload_Read_step:
  assumes "payOk p" "payload_Read p k = (p', bs, e)"
  shows "payOk p' \<and> length bs \<le> k \<and> payContent p = bs @ payContent p' \<and> payFinal p' = payFinal p \<and>
    payGas p' + length bs \<le> payGas p \<and> (\<forall>x. e = Some x \<longrightarrow> x = payFinal p \<and> payContent p' = []) \<and>
    (0 < k \<and> e = None \<longrightarrow> payGas p' < payGas p)"
proof (cases p)
  case (Payload pc)
  obtain pc' where r: "cr_Read pc k = (pc', bs, e)" "p' = Payload pc'"
    using assms(2) Payload by (auto simp: payloadConn_Read_def split: prod.splits)
  with cr.rd_step [of pc k pc' bs e] assms(1) Payload show ?thesis by simp
next
  case (RawConn c)
  obtain c' where r: "inp_Read c k = (c', bs, e)" "p' = RawConn c'"
    using assms(2) RawConn by (auto split: prod.splits)
  with inp.rd_step [of c k c' bs e] assms(1) RawConn show ?thesis by simp
qed

interpretation pay: io_reader payload_Read payOk payContent payFinal payGas
  by unfold_locales (blast dest: payload_Read_step)+

text \<open>An absent source is \<open>stream.Source{}\<close>; a present one has the payload length \<open>-1\<close>.\<close>

type_synonym source = "payload tfr option"

definition mergeStreamOpen :: "payload \<Rightarrow> payload tfr" where
  "mergeStreamOpen r = newTrailingFooterReader r"

definition mergeSource :: "payload option \<Rightarrow> bool \<Rightarrow> source" where
  "mergeSource r send =
     (case r of
        None \<Rightarrow> None
      | Some c \<Rightarrow> if \<not> send then None else Some (mergeStreamOpen c))"

definition buildMergeSources :: "pcs_module \<Rightarrow> session_ports \<Rightarrow> merge_profile
    \<Rightarrow> (particle_kind \<Rightarrow> source) result" where
  "buildMergeSources M ports profile =
     (case mergeSendPlan M profile of
        Inl e \<Rightarrow> Inl e
      | Inr plan \<Rightarrow> Inr (\<lambda>kind. case kind of
            EvenCypher \<Rightarrow> mergeSource (Some (spEC ports)) (mget (Send plan) EvenCypher)
          | OddCypher \<Rightarrow> mergeSource (Some (spOC ports)) (mget (Send plan) OddCypher)
          | EvenNoise \<Rightarrow> mergeSource (Some (spEN ports)) (mget (Send plan) EvenNoise)
          | OddNoise \<Rightarrow> mergeSource (Some (spON ports)) (mget (Send plan) OddNoise)
          | CypherParity \<Rightarrow> mergeSource (Some (spCP ports)) (mget (Send plan) CypherParity)
          | NoiseParity \<Rightarrow> mergeSource (Some (spNP ports)) (mget (Send plan) NoiseParity)
          | OtherKind n \<Rightarrow> None))"

section \<open>Statistics and the log\<close>

record session_stats =
  statMode :: mode
  statBytes :: int
  statRecoveries :: "string list"
  statHashValid :: "bool option"

definition noStats :: session_stats where
  "noStats = \<lparr>statMode = [], statBytes = 0, statRecoveries = [], statHashValid = None\<rparr>"

definition recoveryUsed :: "session_stats \<Rightarrow> bool" where
  "recoveryUsed s \<longleftrightarrow> 0 < length (statRecoveries s)"

definition fmtBool :: "bool \<Rightarrow> string" where
  "fmtBool b = (if b then ''true'' else ''false'')"

definition logSession :: "session_stats \<Rightarrow> int \<Rightarrow> go_error option \<Rightarrow> string" where
  "logSession stats durationMs err =
     (let msg = (case err of None \<Rightarrow> [] | Some e \<Rightarrow> errMsg e);
          hashValid = (case statHashValid stats of None \<Rightarrow> ''n/a'' | Some b \<Rightarrow> fmtBool b)
      in ''pcs-service session mode='' @ statMode stats @ '' bytes='' @ fmtInt (statBytes stats) @
         '' duration_ms='' @ fmtInt durationMs @ '' recovery='' @ fmtBool (recoveryUsed stats) @
         '' hash_valid='' @ hashValid @ '' error='' @ goQuote msg)"

section \<open>The world of a session\<close>

text \<open>
  The server's side of a session: the control channel's sending half and whether a deadline
  is set on it or it is closed, the document's sending half, what went out on the particle
  streams, the open listeners and data connections, the half-closed ones, and the log.
\<close>

record session_io =
  ctl :: outp
  ctlDeadline :: bool
  ctlClosed :: bool
  docOut :: outp
  particleOut :: "particle_kind \<Rightarrow> bytes"
  net :: net_state
  halfClosed :: "nat set"
  logged :: "(session_stats \<times> go_error option) list"

definition ctlWrite :: "bytes \<Rightarrow> session_io \<Rightarrow> session_io \<times> go_error option" where
  "ctlWrite p io = (case outp_Write (ctl io) p of (w, n, e) \<Rightarrow> (io\<lparr>ctl := w\<rparr>, e))"

text \<open>\<open>Trailer.Write\<close> on the control channel, in its two writes.\<close>

definition sendTrailer :: "trailer json_codec \<Rightarrow> trailer \<Rightarrow> session_io \<Rightarrow> session_io \<times> go_error option" where
  "sendTrailer J t io =
     (case marshal J t of
        Inl e \<Rightarrow> (io, Some (Wrapf ''marshal trailer'' e))
      | Inr data \<Rightarrow>
          (case ctlWrite (fmtNat 10 (length data) @ [newline]) io of
             (io', Some e) \<Rightarrow> (io', Some e)
           | (io', None) \<Rightarrow> ctlWrite data io'))"

type_synonym 'f encoder = "int \<Rightarrow> strip_reader doc_reader
  \<Rightarrow> (particle_kind \<Rightarrow> bytes) \<times> 'f stream_meta result"

type_synonym 'f decoder = "int \<Rightarrow> (particle_kind \<Rightarrow> source) \<Rightarrow> outp doc_writer
  \<Rightarrow> outp doc_writer \<times> 'f stream_meta result"

section \<open>Split\<close>

definition splitStreaming :: "pcs_module \<Rightarrow> 'f footer_module \<Rightarrow> trailer json_codec \<Rightarrow> 'f encoder \<Rightarrow> config
    \<Rightarrow> session_ports \<Rightarrow> strip_reader \<Rightarrow> session_io \<Rightarrow> session_io \<times> int result" where
  "splitStreaming M F J enc cfg ports doc io =
     (case enc (cfgChunkSize cfg) (limitedDocReader doc (cfgMaxObjectSize cfg)) of (out, res) \<Rightarrow>
        let io1 = io\<lparr>particleOut := \<lambda>k. particleOut io k @ out k\<rparr> in
        (case res of
           Inl e \<Rightarrow> (io1, Inl (Wrapf ''stream encode'' e))
         | Inr meta \<Rightarrow>
             let io2 = io1\<lparr>halfClosed := closeWriteParticlePorts ports (halfClosed io1)\<rparr>;
                 t = buildTrailerFromEncodeMeta M F ModeSplit meta
             in (case sendTrailer J t io2 of
                   (io3, Some e) \<Rightarrow> (io3, Inl e)
                 | (io3, None) \<Rightarrow> (io3, Inr (metaBytes meta)))))"

definition closeSession :: "session_io \<Rightarrow> session_io" where
  "closeSession io = io\<lparr>net := closePorts (net io)\<rparr>"

definition handleSplit :: "pcs_module \<Rightarrow> 'f footer_module \<Rightarrow> trailer json_codec \<Rightarrow> 'f encoder \<Rightarrow> config
    \<Rightarrow> session_ports \<Rightarrow> session_io \<Rightarrow> session_io \<times> session_stats \<times> go_error option" where
  "handleSplit M F J enc cfg ports io =
     (let stats = noStats\<lparr>statMode := ModeSplit\<rparr>;
          doc = newStripTokenReader (spDoc ports) (cfgToken cfg)
      in case splitStreaming M F J enc cfg ports doc io of
        (io', Inl e) \<Rightarrow> (closeSession io', stats\<lparr>statBytes := 0\<rparr>, Some e)
      | (io', Inr n) \<Rightarrow> (closeSession io', stats\<lparr>statBytes := n\<rparr>, None))"

section \<open>Merge\<close>

text \<open>The document connection of a merge is a TCP connection, whose sending half can be closed.\<close>

definition mergeStreaming :: "pcs_module \<Rightarrow> 'f footer_module \<Rightarrow> trailer json_codec \<Rightarrow> 'f decoder \<Rightarrow> config
    \<Rightarrow> session_ports \<Rightarrow> merge_profile \<Rightarrow> session_io
    \<Rightarrow> session_io \<times> session_stats \<times> go_error option" where
  "mergeStreaming M F J dec cfg ports profile io =
     (let s0 = noStats\<lparr>statMode := ModeMerge\<rparr>;
          stats = (if MissingMask profile \<noteq> 0
                   then s0\<lparr>statRecoveries := [''parity recovery used'']\<rparr> else s0)
      in case buildMergeSources M ports profile of
        Inl e \<Rightarrow> (io, stats, Some e)
      | Inr sources \<Rightarrow>
          (case dec (cfgChunkSize cfg) sources (limitedDocWriter (docOut io) (cfgMaxObjectSize cfg)) of
             (dw, res) \<Rightarrow>
               let io1 = io\<lparr>docOut := underW dw\<rparr> in
               (case res of
                  Inl e \<Rightarrow> (io1, stats, Some (Wrapf ''stream decode'' e))
                | Inr meta \<Rightarrow>
                   let stats1 = stats\<lparr>statBytes := metaBytes meta, statHashValid := Some True\<rparr>;
                       io2 = io1\<lparr>halfClosed := insert 0 (halfClosed io1)\<rparr>;
                       t = buildTrailerFromDecodeMeta M F ModeMerge meta (statRecoveries stats1)
                   in (case sendTrailer J t io2 of (io3, e) \<Rightarrow> (io3, stats1, e)))))"

definition handleMerge :: "pcs_module \<Rightarrow> 'f footer_module \<Rightarrow> trailer json_codec \<Rightarrow> 'f decoder \<Rightarrow> config
    \<Rightarrow> session_ports \<Rightarrow> merge_profile \<Rightarrow> session_io
    \<Rightarrow> session_io \<times> session_stats \<times> go_error option" where
  "handleMerge M F J dec cfg ports profile io =
     (case mergeStreaming M F J dec cfg ports profile io of
        (io', stats, err) \<Rightarrow> (closeSession io', stats, err))"

section \<open>A whole session\<close>

text \<open>
  What the environment of a session supplies: the client's bytes on the control channel, the
  answers of \<open>net.Listen\<close>, what becomes of the seven accepts and in which order they finish.
\<close>

record session_env =
  ctlIn :: inp
  listenOn :: "nat \<Rightarrow> int result"
  acceptsOn :: "accept_outcome list"
  acceptOrder :: "nat list"

text \<open>The deferred close of the control connection, on every return.\<close>

definition endSession :: "session_io \<Rightarrow> session_io" where
  "endSession io = io\<lparr>ctlClosed := True\<rparr>"

definition serveMode :: "pcs_module \<Rightarrow> 'f footer_module \<Rightarrow> trailer json_codec \<Rightarrow> 'f encoder \<Rightarrow> 'f decoder
    \<Rightarrow> config \<Rightarrow> mode \<Rightarrow> merge_profile \<Rightarrow> session_ports \<Rightarrow> session_io
    \<Rightarrow> session_io \<times> session_stats \<times> go_error option" where
  "serveMode M F J enc dec cfg mode profile sess io =
     (if mode = ModeSplit then handleSplit M F J enc cfg sess io
      else if mode = ModeMerge then handleMerge M F J dec cfg sess profile io
      else (io, noStats, Some (Quotef ''unknown mode '' mode '''')))"

definition reportAndLog :: "session_io \<times> session_stats \<times> go_error option \<Rightarrow> session_io" where
  "reportAndLog r =
     (case r of (io, stats, err) \<Rightarrow>
        let io1 = fst (ctlWrite (writeErrorLine err) io)
        in endSession (io1\<lparr>logged := logged io1 @ [(stats, err)]\<rparr>))"

text \<open>
  \<open>None\<close> is a session that does not return.  It waits for a client that stalls: in the handshake,
  if no deadline is set on the control connection (with one, the read fails in the end and the
  session is over), or for a data connection or its token, on which there is none.  Or the
  codec waits for a stream that stalls, or panics, which ends the process.
\<close>

definition finishSession :: "session_io \<times> session_stats \<times> go_error option \<Rightarrow> session_io option" where
  "finishSession r =
     (case snd (snd r) of
        Some e \<Rightarrow> if endless e then None else Some (reportAndLog r)
      | None \<Rightarrow> Some (reportAndLog r))"

lemma finishSession_simps [simp]:
  "finishSession (io, stats, None) = Some (reportAndLog (io, stats, None))"
  "finishSession (io, stats, Some e) = (if endless e then None else Some (reportAndLog (io, stats, Some e)))"
  by (simp_all add: finishSession_def)

lemma finishSession_Some: "finishSession r = Some io' \<Longrightarrow> io' = reportAndLog r"
  by (auto simp: finishSession_def split: option.splits if_splits)

definition handleCom :: "pcs_module \<Rightarrow> 'f footer_module \<Rightarrow> trailer json_codec \<Rightarrow> 'f encoder \<Rightarrow> 'f decoder
    \<Rightarrow> config \<Rightarrow> session_env \<Rightarrow> session_io \<Rightarrow> session_io option" where
  "handleCom M F J enc dec cfg env io0 =
     (let io = io0\<lparr>ctlDeadline := (0 < cfgSessionTimeout cfg)\<rparr> in
      case readClientHandshake (ctlIn env) of
        (_, Inl e) \<Rightarrow> if endless e \<and> \<not> ctlDeadline io then None else Some (endSession io)
      | (_, Inr (mode, profile)) \<Rightarrow>
          (case (if mode = ModeMerge then validateProfile profile else Inr ()) of
             Inl e \<Rightarrow> Some (endSession (fst (ctlWrite (writeErrorLine (Some e)) io)))
           | Inr _ \<Rightarrow>
               (case allocatePorts (listenOn env) (net io) of
                  (n1, Inl e) \<Rightarrow> Some (endSession (io\<lparr>net := n1\<rparr>))
                | (n1, Inr ports) \<Rightarrow>
                    (case ctlWrite (formatInvitation
                           \<lparr>invToken = cfgToken cfg, invMode = mode, invPorts = ports\<rparr>) (io\<lparr>net := n1\<rparr>) of
                       (io1, Some e) \<Rightarrow> Some (endSession io1)
                     | (io1, None) \<Rightarrow>
                         (case acceptSession (cfgToken cfg) (acceptOrder env) (acceptsOn env)
                                (mode = ModeMerge) (net io1) of
                            None \<Rightarrow> None
                          | Some (n2, Inl e) \<Rightarrow> Some (endSession (io1\<lparr>net := n2\<rparr>))
                          | Some (n2, Inr sess) \<Rightarrow>
                              finishSession (serveMode M F J enc dec cfg mode profile sess
                                (io1\<lparr>net := n2, ctlDeadline := False\<rparr>)))))))"

section \<open>Resources\<close>


lemma listenLoop_net:
  "i \<le> n \<Longrightarrow> listeners st = {j. j < i} \<Longrightarrow> listenLoop listen [i..<n] st ps = (st', r) \<Longrightarrow>
   conns st' = conns st \<and> listeners st' = (if isl r then {} else {j. j < n})"
proof (induction "n - i" arbitrary: i st ps)
  case 0
  then have "i = n" by simp
  with 0 have "st' = st" "r = Inr ps" by simp_all
  with 0 \<open>i = n\<close> show ?case by simp
next
  case (Suc d)
  then have i: "i < n" "[i..<n] = i # [Suc i..<n]" by (auto simp: upt_conv_Cons)
  show ?case
  proof (cases "listen i")
    case (Inl e)
    have "st' = st\<lparr>listeners := listeners st - {j. j < i}\<rparr>" "r = Inl (Wrapf ''listen ephemeral port'' e)"
      using Suc.prems(3) Inl unfolding i(2) by simp_all
    then show ?thesis using Suc.prems(2) by simp
  next
    case (Inr p)
    have "insert i {j. j < i} = {j. j < Suc i}" by auto
    then have "listeners (st\<lparr>listeners := insert i (listeners st)\<rparr>) = {j. j < Suc i}"
      using Suc.prems(2) by simp
    moreover have "listenLoop listen [Suc i..<n] (st\<lparr>listeners := insert i (listeners st)\<rparr>) (ps @ [p]) = (st', r)"
      using Suc.prems(3) Inr unfolding i(2) by simp
    moreover have "d = n - Suc i" "Suc i \<le> n" using Suc.hyps(2) i by auto
    ultimately show ?thesis
      using Suc.hyps(1) [of "Suc i" "st\<lparr>listeners := insert i (listeners st)\<rparr>" "ps @ [p]"] by simp
  qed
qed

lemma allocatePorts_net:
  assumes "allocatePorts listen noNet = (st, r)"
  shows "conns st = {}" "listeners st = (if isl r then {} else {0..<7})"
proof -
  obtain st' r' where l: "listenLoop listen [0..<7] noNet [] = (st', r')"
    by (cases "listenLoop listen [0..<7] noNet []")
  with listenLoop_net [of 0 7 noNet listen "[]" st' r'] assms
  show "conns st = {}" "listeners st = (if isl r then {} else {0..<7})"
    by (auto simp: noNet_def allocatePorts_def split: sum.splits)
qed

lemma acceptOne_net:
  "conns (acceptOne i a st) = conns st \<union> (if \<exists>c. a = Some (Inr c) then {i} else {})"
  "listeners (acceptOne i a st) = listeners st - (if \<exists>c. a = Some (Inr c) then {i} else {})"
  by (auto simp: acceptOne_def split: option.split sum.split)

lemma acceptAll_net:
  "conns (acceptAll order accs st) = conns st \<union> {i \<in> set order. \<exists>c. accs ! i = Some (Inr c)}"
  "listeners (acceptAll order accs st) = listeners st - {i \<in> set order. \<exists>c. accs ! i = Some (Inr c)}"
proof (induction order arbitrary: st)
  case (Cons i order)
  have "acceptAll (i # order) accs st = acceptAll order accs (acceptOne i (accs ! i) st)" for st
    by (simp add: acceptAll_def)
  note step = this
  {
    case 1
    show ?case unfolding step Cons.IH acceptOne_net by auto
  next
    case 2
    show ?case unfolding step Cons.IH acceptOne_net by auto
  }
qed (simp_all add: acceptAll_def)

lemma firstError_None:
  "firstError i accs = None \<Longrightarrow> None \<notin> set accs \<Longrightarrow> j < length accs \<Longrightarrow> \<exists>c. accs ! j = Some (Inr c)"
proof (induction accs arbitrary: i j)
  case (Cons a accs)
  then obtain r where a: "a = Some r" by (cases a) auto
  with Cons show ?case by (cases r; cases j) auto
qed simp

lemma acceptSession_net:
  assumes "acceptSession token order accs v st = Some (st', r)" "length accs = 7"
    "set order = {0..<7}" "conns st = {}"
  shows "conns st' = (if isl r then {} else {0..<7})" "listeners st' = listeners st - accepted accs"
proof -
  have acc: "{i \<in> set order. \<exists>c. accs ! i = Some (Inr c)} = accepted accs"
    using assms(2,3) by (auto simp: accepted_def)
  have ok: "firstError 0 accs = None \<Longrightarrow> None \<notin> set accs \<Longrightarrow> accepted accs = {0..<7}"
    using firstError_None [of 0 accs] assms(2) by (auto simp: accepted_def)
  show "listeners st' = listeners st - accepted accs"
    using assms acc by (auto simp: acceptSession_def Let_def acceptAll_net closeAll_def
        split: if_splits option.splits sum.splits)
  show "conns st' = (if isl r then {} else {0..<7})"
    using assms acc ok by (auto simp: acceptSession_def Let_def acceptAll_net closeAll_def
        split: if_splits option.splits sum.splits)
qed

lemma readClientHandshake_mode:
  "readClientHandshake r = (r', Inr (m, p)) \<Longrightarrow> m = ModeSplit \<or> m = ModeMerge"
  by (auto simp: readClientHandshake_def readProfileFor_def parseModeLine_def Let_def
      split: prod.splits if_splits sum.splits option.splits)

lemma ctlWrite_net [simp]: "ctlWrite p io = (io', e) \<Longrightarrow> net io' = net io"
  by (auto simp: ctlWrite_def split: prod.splits)

lemma sendTrailer_net: "sendTrailer J t io = (io', e) \<Longrightarrow> net io' = net io"
  by (auto simp: sendTrailer_def split: sum.splits prod.splits option.splits)

lemma closeSession_conns: "conns (net io) \<subseteq> {0..<7} \<Longrightarrow> conns (net (closeSession io)) = {}"
  by (auto simp: closeSession_def closePorts_def closeAll_def)

lemma closeSession_listeners: "listeners (net (closeSession io)) = listeners (net io)"
  by (simp add: closeSession_def closePorts_def closeAll_def)

lemma splitStreaming_net: "splitStreaming M F J enc cfg ports doc io = (io', r) \<Longrightarrow> net io' = net io"
  by (auto simp: splitStreaming_def Let_def split: prod.splits sum.splits option.splits
      dest!: sendTrailer_net)

lemma mergeStreaming_net: "mergeStreaming M F J dec cfg ports profile io = (io', r) \<Longrightarrow> net io' = net io"
  by (auto simp: mergeStreaming_def Let_def split: prod.splits sum.splits if_splits
      dest!: sendTrailer_net)

lemma serveMode_net:
  assumes "mode = ModeSplit \<or> mode = ModeMerge" "conns (net io) \<subseteq> {0..<7}"
    and "serveMode M F J enc dec cfg mode profile sess io = (io', r)"
  shows "conns (net io') = {} \<and> listeners (net io') = listeners (net io)"
proof -
  have "\<exists>io1. net io1 = net io \<and> io' = closeSession io1"
    using assms(1,3)
    by (auto simp: serveMode_def handleSplit_def handleMerge_def Let_def
        split: if_splits prod.splits sum.splits dest!: splitStreaming_net mergeStreaming_net)
  then show ?thesis
    using assms(2) closeSession_conns closeSession_listeners by auto
qed

lemma reportAndLog_net: "net (reportAndLog (io, stats, err)) = net io \<and> ctlClosed (reportAndLog (io, stats, err))"
  by (auto simp: reportAndLog_def endSession_def Let_def split: prod.splits)
     (metis ctlWrite_net prod.collapse)

lemma fst_ctlWrite_net: "net (fst (ctlWrite p io)) = net io"
  by (metis ctlWrite_net prod.collapse)

lemma invited_net:
  assumes "(case acceptSession (cfgToken cfg) (acceptOrder env) (acceptsOn env) (mode = ModeMerge) (net io1) of
      None \<Rightarrow> None
    | Some (n2, Inl e) \<Rightarrow> Some (endSession (io1\<lparr>net := n2\<rparr>))
    | Some (n2, Inr sess) \<Rightarrow> finishSession (serveMode M F J enc dec cfg mode profile sess
        (io1\<lparr>net := n2, ctlDeadline := False\<rparr>))) = Some io'"
    and mode: "mode = ModeSplit \<or> mode = ModeMerge"
    and accepts: "length (acceptsOn env) = 7" "set (acceptOrder env) = {0..<7}"
    and none: "conns (net io1) = {}"
  shows "ctlClosed io' \<and> conns (net io') = {}"
proof -
  obtain n2 ar where acc: "acceptSession (cfgToken cfg) (acceptOrder env) (acceptsOn env)
      (mode = ModeMerge) (net io1) = Some (n2, ar)"
    using assms(1) by (auto split: option.splits)
  note n2 = acceptSession_net(1) [OF acc accepts none]
  note got = assms(1)[unfolded acc option.case prod.case]
  show ?thesis
  proof (cases ar)
    case (Inl e)
    with got n2 show ?thesis by (auto simp: endSession_def)
  next
    case (Inr sess)
    let ?io2 = "io1\<lparr>net := n2, ctlDeadline := False\<rparr>"
    obtain io3 stats err where m: "serveMode M F J enc dec cfg mode profile sess ?io2 = (io3, stats, err)"
      by (cases "serveMode M F J enc dec cfg mode profile sess ?io2")
    have "conns (net io3) = {}" using serveMode_net [OF mode _ m] n2 Inr by simp
    moreover have "io' = reportAndLog (io3, stats, err)"
      using got Inr m finishSession_Some [of "(io3, stats, err)" io'] by simp
    ultimately show ?thesis using reportAndLog_net by simp
  qed
qed

lemma handleCom_net:
  assumes "handleCom M F J enc dec cfg env io0 = Some io'" "net io0 = noNet"
    and "length (acceptsOn env) = 7" "set (acceptOrder env) = {0..<7}"
  shows "ctlClosed io' \<and> conns (net io') = {}"
proof -
  let ?io = "io0\<lparr>ctlDeadline := 0 < cfgSessionTimeout cfg\<rparr>"
  obtain c h where hs: "readClientHandshake (ctlIn env) = (c, h)" by (cases "readClientHandshake (ctlIn env)")
  show ?thesis
  proof (cases h)
    case (Inl e)
    with hs assms(1,2) show ?thesis
      by (auto simp: handleCom_def Let_def endSession_def noNet_def split: if_splits)
  next
    case (Inr mp)
    then obtain mode profile where h: "h = Inr (mode, profile)" by (cases mp) auto
    with hs have mode: "mode = ModeSplit \<or> mode = ModeMerge" using readClientHandshake_mode by blast
    note start = assms(1)[unfolded handleCom_def Let_def hs h prod.case sum.case]
    show ?thesis
    proof (cases "if mode = ModeMerge then validateProfile profile else Inr ()")
      case (Inl e)
      with start assms(2) show ?thesis by (auto simp: endSession_def fst_ctlWrite_net noNet_def)
    next
      case (Inr u)
      obtain n1 r where alloc: "allocatePorts (listenOn env) (net ?io) = (n1, r)"
        by (cases "allocatePorts (listenOn env) (net ?io)")
      then have n1: "conns n1 = {}" using allocatePorts_net(1) assms(2) by simp
      note alloced = start[unfolded Inr alloc prod.case sum.case]
      show ?thesis
      proof (cases r)
        case (Inl e)
        with alloced n1 show ?thesis by (auto simp: endSession_def)
      next
        case (Inr ports)
        let ?p = "formatInvitation \<lparr>invToken = cfgToken cfg, invMode = mode, invPorts = ports\<rparr>"
        obtain io1 we where w: "ctlWrite ?p (?io\<lparr>net := n1\<rparr>) = (io1, we)"
          by (cases "ctlWrite ?p (?io\<lparr>net := n1\<rparr>)")
        then have net1: "net io1 = n1" using ctlWrite_net by fastforce
        note written = alloced[unfolded Inr sum.case w prod.case]
        show ?thesis
        proof (cases we)
          case (Some e)
          with written net1 n1 show ?thesis by (auto simp: endSession_def)
        next
          case None
          with written net1 n1 show ?thesis
            by (intro invited_net [OF _ mode assms(3,4)]) auto
        qed
      qed
    qed
  qed
qed

text \<open>
  C19: a session that returns, on whatever path, has closed its control connection and every
  data connection it accepted.
\<close>

theorem session_releases_connections:
  assumes "handleCom M F J enc dec cfg env io0 = Some io'" "net io0 = noNet"
    and "length (acceptsOn env) = 7" "set (acceptOrder env) = {0..<7}"
  shows "ctlClosed io' \<and> conns (net io') = {}"
  using assms by (rule handleCom_net)

lemma listenLoop_ok:
  "\<forall>i \<in> set is. \<not> isl (listen i) \<Longrightarrow>
   listenLoop listen is st ps =
     (st\<lparr>listeners := listeners st \<union> set is\<rparr>, Inr (ps @ map (projr \<circ> listen) is))"
proof (induction "is" arbitrary: st ps)
  case (Cons i "is")
  then obtain p where "listen i = Inr p" by (cases "listen i") auto
  with Cons show ?case by (simp add: insert_commute)
qed simp

definition portsFrom :: "(nat \<Rightarrow> int result) \<Rightarrow> data_ports" where
  "portsFrom listen = portsOf (map (projr \<circ> listen) [0..<7])"

lemma allocatePorts_ok:
  assumes "\<forall>i < 7. \<not> isl (listen i)"
  shows "allocatePorts listen noNet = (\<lparr>listeners = {0..<7}, conns = {}\<rparr>, Inr (portsFrom listen))"
proof -
  have "\<forall>i \<in> set [0..<7]. \<not> isl (listen i)" using assms by auto
  from listenLoop_ok [OF this, of noNet "[]"] show ?thesis
    by (simp add: allocatePorts_def noNet_def portsFrom_def del: upt.simps)
qed

text \<open>The part of a session up to the invitation, when nothing goes wrong.\<close>

definition goodStart :: "config \<Rightarrow> session_env \<Rightarrow> session_io \<Rightarrow> mode \<Rightarrow> merge_profile \<Rightarrow> bool" where
  "goodStart cfg env io mode profile \<longleftrightarrow>
     snd (readClientHandshake (ctlIn env)) = Inr (mode, profile) \<and>
     (mode = ModeMerge \<longrightarrow> validateProfile profile = Inr ()) \<and>
     (\<forall>i < 7. \<not> isl (listenOn env i)) \<and> net io = noNet \<and> length (acceptsOn env) = 7"

definition invitationFor :: "config \<Rightarrow> session_env \<Rightarrow> mode \<Rightarrow> bytes" where
  "invitationFor cfg env mode = formatInvitation
     \<lparr>invToken = cfgToken cfg, invMode = mode, invPorts = portsFrom (listenOn env)\<rparr>"

lemma handleCom_started:
  assumes "goodStart cfg env io0 mode profile"
  shows "handleCom M F J enc dec cfg env io0 =
    (case ctlWrite (invitationFor cfg env mode)
            (io0\<lparr>ctlDeadline := (0 < cfgSessionTimeout cfg), net := \<lparr>listeners = {0..<7}, conns = {}\<rparr>\<rparr>) of
       (io1, Some e) \<Rightarrow> Some (endSession io1)
     | (io1, None) \<Rightarrow>
         (case acceptSession (cfgToken cfg) (acceptOrder env) (acceptsOn env) (mode = ModeMerge) (net io1) of
            None \<Rightarrow> None
          | Some (n2, Inl e) \<Rightarrow> Some (endSession (io1\<lparr>net := n2\<rparr>))
          | Some (n2, Inr sess) \<Rightarrow>
              finishSession (serveMode M F J enc dec cfg mode profile sess
                (io1\<lparr>net := n2, ctlDeadline := False\<rparr>))))"
proof -
  obtain c where hs: "readClientHandshake (ctlIn env) = (c, Inr (mode, profile))"
    using assms by (cases "readClientHandshake (ctlIn env)") (auto simp: goodStart_def)
  have ok: "(if mode = ModeMerge then validateProfile profile else Inr ()) = Inr ()"
    using assms by (simp add: goodStart_def)
  have net0: "net io0 = noNet" and listen: "\<forall>i < 7. \<not> isl (listenOn env i)"
    using assms by (simp_all add: goodStart_def)
  show ?thesis
    unfolding handleCom_def Let_def hs prod.case sum.case ok
    using allocatePorts_ok [OF listen] by (simp add: net0 invitationFor_def)
qed

lemma ctlWrite_fits:
  "length p \<le> quota (ctl io) \<Longrightarrow> \<exists>w. ctlWrite p io = (io\<lparr>ctl := w\<rparr>, None) \<and> sent w = sent (ctl io) @ p"
  by (auto simp: ctlWrite_def outp_Write_def)

lemma ctlWrite_short:
  "\<not> length p \<le> quota (ctl io) \<Longrightarrow> \<exists>w. ctlWrite p io = (io\<lparr>ctl := w\<rparr>, Some (outErr (ctl io)))"
  by (auto simp: ctlWrite_def outp_Write_def)

lemma acceptSession_waits:
  assumes "length accs = 7" "set order = {0..<7}" "\<forall>c. Some (Inr c) \<in> set accs \<longrightarrow> wf_inp c"
  shows "acceptSession token order accs validateDoc st = None \<longleftrightarrow>
    None \<in> set accs \<or> firstError 0 accs = None \<and>
      authWaits token (zip [validateDoc, True, True, True, True, True, True] (map (\<lambda>a. projr (the a)) accs))"
proof (cases "None \<in> set accs \<or> firstError 0 accs \<noteq> None")
  case True
  with assms(1) show ?thesis by (auto simp: acceptSession_def Let_def)
next
  case False
  then have ok: "None \<notin> set accs" "firstError 0 accs = None" by blast+
  let ?cs = "map (\<lambda>a. projr (the a)) accs"
  have "Some (Inr (projr (the a))) = a" if "a \<in> set accs" for a
  proof -
    have "\<forall>a \<in> set accs. \<not> (a \<noteq> None \<and> isl (the a))" using False by (simp add: firstError_none)
    with that have "\<not> (a \<noteq> None \<and> isl (the a))" by (rule bspec [rotated])
    moreover obtain r where "a = Some r" using False \<open>a \<in> set accs\<close> by (cases a) auto
    ultimately show ?thesis by (cases r) simp_all
  qed
  then have "map (\<lambda>c. Some (Inr c)) ?cs = accs" unfolding map_map o_def by (rule map_idI)
  note accs = this [symmetric]
  have len: "length ?cs = 7" using assms(1) by simp
  have "\<forall>c. Some (Inr c) \<in> set (map (\<lambda>c. Some (Inr c)) ?cs :: accept_outcome list) \<longrightarrow> wf_inp c"
    unfolding accs [symmetric] by (rule assms(3))
  then have "\<forall>c \<in> set ?cs. wf_inp c" by auto
  note outcome = accept_session_outcome [OF len assms(2) this, of token validateDoc st, folded accs]
  show ?thesis
  proof (cases "authWaits token (zip [validateDoc, True, True, True, True, True, True] ?cs)")
    case True
    then show ?thesis using outcome ok by simp
  next
    case waits: False
    then have "acceptSession token order accs validateDoc st \<noteq> None" using outcome by auto
    then show ?thesis using waits ok by simp
  qed
qed

text \<open>Who does not send the token that the session waits for.\<close>

definition clientWaits :: "config \<Rightarrow> session_env \<Rightarrow> mode \<Rightarrow> bool" where
  "clientWaits cfg env mode \<longleftrightarrow> None \<in> set (acceptsOn env) \<or> firstError 0 (acceptsOn env) = None \<and>
     authWaits (cfgToken cfg) (zip [mode = ModeMerge, True, True, True, True, True, True]
       (map (\<lambda>a. projr (the a)) (acceptsOn env)))"

text \<open>The codec, once the connections are there, waits for a stream that stalls, or panics.\<close>

definition codecWaits :: "pcs_module \<Rightarrow> 'f footer_module \<Rightarrow> trailer json_codec \<Rightarrow> 'f encoder \<Rightarrow> 'f decoder
    \<Rightarrow> config \<Rightarrow> session_env \<Rightarrow> session_io \<Rightarrow> mode \<Rightarrow> merge_profile \<Rightarrow> bool" where
  "codecWaits M F J enc dec cfg env io mode profile \<longleftrightarrow>
     (case acceptSession (cfgToken cfg) (acceptOrder env) (acceptsOn env) (mode = ModeMerge) (net io) of
        Some (n2, Inr sess) \<Rightarrow>
          (case serveMode M F J enc dec cfg mode profile sess (io\<lparr>net := n2, ctlDeadline := False\<rparr>) of
             (io3, stats, err) \<Rightarrow> \<exists>e. err = Some e \<and> endless e)
      | _ \<Rightarrow> False)"

definition wellFormedAccepts :: "session_env \<Rightarrow> bool" where
  "wellFormedAccepts env \<longleftrightarrow> set (acceptOrder env) = {0..<7} \<and> (\<forall>c. Some (Inr c) \<in> set (acceptsOn env) \<longrightarrow> wf_inp c)"

lemma handleCom_blocks_iff:
  assumes "goodStart cfg env io0 mode profile" "length (invitationFor cfg env mode) \<le> quota (ctl io0)"
    and "wellFormedAccepts env"
  shows "handleCom M F J enc dec cfg env io0 = None \<longleftrightarrow>
    clientWaits cfg env mode \<or> codecWaits M F J enc dec cfg env
      (io0\<lparr>ctl := wroteTo (ctl io0) (invitationFor cfg env mode), ctlDeadline := (0 < cfgSessionTimeout cfg),
           net := \<lparr>listeners = {0..<7}, conns = {}\<rparr>\<rparr>) mode profile"
proof -
  let ?io = "io0\<lparr>ctlDeadline := (0 < cfgSessionTimeout cfg), net := \<lparr>listeners = {0..<7}, conns = {}\<rparr>\<rparr>"
  have w: "ctlWrite (invitationFor cfg env mode) ?io =
      (?io\<lparr>ctl := wroteTo (ctl io0) (invitationFor cfg env mode)\<rparr>, None)"
    using assms(2) by (simp add: ctlWrite_def outp_Write_fits)
  have "length (acceptsOn env) = 7" using assms(1) by (simp add: goodStart_def)
  note waits = acceptSession_waits [OF this, of "acceptOrder env" "cfgToken cfg" "mode = ModeMerge"
      "\<lparr>listeners = {0..<7}, conns = {}\<rparr>"]
  show ?thesis
    unfolding handleCom_started [OF assms(1)] w codecWaits_def
    using waits assms(3)
    by (auto simp: wellFormedAccepts_def clientWaits_def finishSession_def split: option.splits sum.splits prod.splits)
qed

lemma handleCom_handshake_fails:
  assumes "snd (readClientHandshake (ctlIn env)) = Inl e"
  shows "handleCom M F J enc dec cfg env io0 = None \<longleftrightarrow> endless e \<and> cfgSessionTimeout cfg \<le> 0"
  using assms by (cases "readClientHandshake (ctlIn env)") (auto simp: handleCom_def Let_def)

text \<open>
  C33: the session timeout covers the handshake and nothing after it.  Here no write waits.  A
  session whose handshake cannot be read returns, unless the client stalls and no timeout is
  set.  One that has sent its invitation does not return, whatever the timeout, exactly if one
  of the seven data connections never comes, if the first checked connection without the token
  stalls inside it, or if the codec waits for a stream that stalls (or panics).
\<close>

theorem session_waits_for_ever:
  "(\<forall>e. snd (readClientHandshake (ctlIn env)) = Inl e \<longrightarrow>
      (handleCom M F J enc dec cfg env io0 = None \<longleftrightarrow> endless e \<and> cfgSessionTimeout cfg \<le> 0)) \<and>
   (goodStart cfg env io0 mode profile \<and> length (invitationFor cfg env mode) \<le> quota (ctl io0) \<and>
      wellFormedAccepts env \<longrightarrow>
      (handleCom M F J enc dec cfg env io0 = None \<longleftrightarrow>
        clientWaits cfg env mode \<or> codecWaits M F J enc dec cfg env
          (io0\<lparr>ctl := wroteTo (ctl io0) (invitationFor cfg env mode), ctlDeadline := (0 < cfgSessionTimeout cfg),
               net := \<lparr>listeners = {0..<7}, conns = {}\<rparr>\<rparr>) mode profile))"
  using handleCom_handshake_fails handleCom_blocks_iff by blast

text \<open>
  When the invitation cannot be written, the session ends with its seven listeners
  still open.
\<close>

theorem unsent_invitation_leaks_listeners:
  assumes "goodStart cfg env io0 mode profile" "quota (ctl io0) < length (invitationFor cfg env mode)"
  shows "\<exists>io'. handleCom M F J enc dec cfg env io0 = Some io' \<and> listeners (net io') = {0..<7}"
proof -
  let ?io = "io0\<lparr>ctlDeadline := (0 < cfgSessionTimeout cfg), net := \<lparr>listeners = {0..<7}, conns = {}\<rparr>\<rparr>"
  obtain w where w: "ctlWrite (invitationFor cfg env mode) ?io = (?io\<lparr>ctl := w\<rparr>, Some (outErr (ctl io0)))"
    using ctlWrite_short [of "invitationFor cfg env mode" ?io] assms(2) by auto
  then show ?thesis
    unfolding handleCom_started [OF assms(1)] by (simp add: endSession_def)
qed

section \<open>What goes out on the control connection\<close>

lemma ctlWrite_room: "length p \<le> quota (ctl io) \<Longrightarrow> ctlWrite p io = (io\<lparr>ctl := wroteTo (ctl io) p\<rparr>, None)"
  by (simp add: ctlWrite_def outp_Write_fits)

lemma sendTrailer_room:
  assumes "\<And>data. marshal J t = Inr data \<Longrightarrow> length (trailerFrame data) \<le> quota (ctl io)"
  shows "sendTrailer J t io =
    (case marshal J t of
       Inl e \<Rightarrow> (io, Some (Wrapf ''marshal trailer'' e))
     | Inr data \<Rightarrow> (io\<lparr>ctl := wroteTo (ctl io) (trailerFrame data)\<rparr>, None))"
proof (cases "marshal J t")
  case (Inr data)
  have "length (fmtNat 10 (length data) @ [newline]) + length data \<le> quota (ctl io)"
    using assms [OF Inr] by (simp add: trailerFrame_def)
  then show ?thesis
    by (simp add: sendTrailer_def Inr ctlWrite_room wroteTo_twice trailerFrame_def)
qed (simp add: sendTrailer_def)

lemma noteFooter_keeps:
  "noteFooter M F b kf (t, x) = (t', x') \<Longrightarrow>
   trMode t' = trMode t \<and> trBytesProcessed t' = trBytesProcessed t"
  by (auto simp: noteFooter_def Let_def split: prod.splits if_splits)

lemma fold_noteFooter_keeps:
  "fold (noteFooter M F b) kfs (t, x) = (t', x') \<Longrightarrow>
   trMode t' = trMode t \<and> trBytesProcessed t' = trBytesProcessed t"
proof (induction kfs arbitrary: t x)
  case (Cons kf kfs)
  obtain t1 x1 where "noteFooter M F b kf (t, x) = (t1, x1)" by (cases "noteFooter M F b kf (t, x)")
  with Cons noteFooter_keeps [OF this] show ?case by auto
qed simp

lemma built_trailers:
  "trMode (buildTrailerFromEncodeMeta M F mode meta) = mode"
  "trBytesProcessed (buildTrailerFromEncodeMeta M F mode meta) = metaBytes meta"
  "trMode (buildTrailerFromDecodeMeta M F mode meta recs) = mode"
  "trBytesProcessed (buildTrailerFromDecodeMeta M F mode meta recs) = metaBytes meta"
  by (auto simp: buildTrailerFromEncodeMeta_def buildTrailerFromDecodeMeta_def Let_def
      dest: fold_noteFooter_keeps split: prod.split)

text \<open>
  A handler either sends one trailer, which says what the log says, or sends nothing; \<open>T\<close> holds
  the trailers that the two builders make of what the codec returns.
\<close>

definition sentTrailer :: "trailer json_codec \<Rightarrow> trailer set \<Rightarrow> outp \<Rightarrow> outp \<Rightarrow> mode \<Rightarrow> int \<Rightarrow> bool" where
  "sentTrailer J T w w' m n \<longleftrightarrow> (\<exists>t \<in> T. \<exists>data. marshal J t = Inr data \<and>
     w' = wroteTo w (trailerFrame data) \<and> trMode t = m \<and> trBytesProcessed t = n)"

definition codecReturns :: "'f encoder \<Rightarrow> 'f decoder \<Rightarrow> 'f stream_meta \<Rightarrow> bool" where
  "codecReturns enc dec meta \<longleftrightarrow>
     (\<exists>n d out. enc n d = (out, Inr meta)) \<or> (\<exists>n srcs w w'. dec n srcs w = (w', Inr meta))"

definition serverTrailers :: "pcs_module \<Rightarrow> 'f footer_module \<Rightarrow> 'f stream_meta \<Rightarrow> trailer set" where
  "serverTrailers M F meta =
     {buildTrailerFromEncodeMeta M F ModeSplit meta,
      buildTrailerFromDecodeMeta M F ModeMerge meta [],
      buildTrailerFromDecodeMeta M F ModeMerge meta [''parity recovery used'']}"

lemma sentTrailer_built:
  "marshal J t = Inr data \<Longrightarrow> t \<in> serverTrailers M F meta \<Longrightarrow> serverTrailers M F meta \<subseteq> T \<Longrightarrow>
   trMode t = mode \<Longrightarrow> sentTrailer J T w (wroteTo w (trailerFrame data)) mode (metaBytes meta)"
  unfolding sentTrailer_def using built_trailers(2,4) by (fastforce simp: serverTrailers_def)

lemma serveMode_ctl_split:
  assumes mode: "mode = ModeSplit"
    and built: "\<And>meta. codecReturns enc dec meta \<Longrightarrow> serverTrailers M F meta \<subseteq> T"
    and room: "\<And>t data. t \<in> T \<Longrightarrow> marshal J t = Inr data \<Longrightarrow> length (trailerFrame data) \<le> quota (ctl io)"
    and run: "serveMode M F J enc dec cfg mode profile sess io = (io', stats, err)"
  shows "case err of
      Some e \<Rightarrow> ctl io' = ctl io
    | None \<Rightarrow> sentTrailer J T (ctl io) (ctl io') mode (statBytes stats)"
proof -
  let ?d = "limitedDocReader (newStripTokenReader (spDoc sess) (cfgToken cfg)) (cfgMaxObjectSize cfg)"
  obtain out res where enc: "enc (cfgChunkSize cfg) ?d = (out, res)" by (cases "enc (cfgChunkSize cfg) ?d")
  show ?thesis
  proof (cases res)
    case (Inl e)
    with mode enc run show ?thesis
      by (auto simp: serveMode_def handleSplit_def splitStreaming_def Let_def closeSession_def)
  next
    case (Inr meta)
    let ?t = "buildTrailerFromEncodeMeta M F ModeSplit meta"
    have sub: "serverTrailers M F meta \<subseteq> T" and t: "?t \<in> serverTrailers M F meta"
      using built [of meta] enc Inr by (auto simp: codecReturns_def serverTrailers_def)
    then have fits: "marshal J ?t = Inr data \<Longrightarrow> length (trailerFrame data) \<le> quota (ctl io)" for data
      using room by blast
    show ?thesis
      using mode enc run Inr fits sentTrailer_built [OF _ t sub built_trailers(1)]
      by (auto simp: serveMode_def handleSplit_def splitStreaming_def Let_def sendTrailer_room
          closeSession_def noStats_def split: sum.splits)
  qed
qed

lemma ModeMerge_not_split: "ModeMerge \<noteq> ModeSplit"
  by (simp add: ModeSplit_def ModeMerge_def)

lemma serveMode_ctl_merge:
  assumes mode: "mode = ModeMerge"
    and built: "\<And>meta. codecReturns enc dec meta \<Longrightarrow> serverTrailers M F meta \<subseteq> T"
    and room: "\<And>t data. t \<in> T \<Longrightarrow> marshal J t = Inr data \<Longrightarrow> length (trailerFrame data) \<le> quota (ctl io)"
    and run: "serveMode M F J enc dec cfg mode profile sess io = (io', stats, err)"
  shows "case err of
      Some e \<Rightarrow> ctl io' = ctl io
    | None \<Rightarrow> sentTrailer J T (ctl io) (ctl io') mode (statBytes stats)"
proof -
  note mode = mode ModeMerge_not_split
  show ?thesis
  proof (cases "\<exists>srcs dw meta. buildMergeSources M sess profile = Inr srcs \<and>
      dec (cfgChunkSize cfg) srcs (limitedDocWriter (docOut io) (cfgMaxObjectSize cfg)) = (dw, Inr meta)")
    case False
    with mode run show ?thesis
      by (auto simp: serveMode_def handleMerge_def mergeStreaming_def Let_def closeSession_def noStats_def
          split: prod.splits sum.splits if_splits)
  next
    case True
    then obtain srcs dw meta where dec: "buildMergeSources M sess profile = Inr srcs"
      "dec (cfgChunkSize cfg) srcs (limitedDocWriter (docOut io) (cfgMaxObjectSize cfg)) = (dw, Inr meta)" by blast
    have "codecReturns enc dec meta" unfolding codecReturns_def using dec(2) by blast
    then have sub: "serverTrailers M F meta \<subseteq> T" by (rule built)
    define recs where "recs = (if MissingMask profile \<noteq> 0 then [''parity recovery used''] else [])"
    let ?t = "buildTrailerFromDecodeMeta M F ModeMerge meta recs"
    have t: "?t \<in> serverTrailers M F meta" by (simp add: serverTrailers_def recs_def)
    then have fits: "marshal J ?t = Inr data \<Longrightarrow> length (trailerFrame data) \<le> quota (ctl io)" for data
      using room sub by blast
    show ?thesis
      using mode run dec fits sentTrailer_built [OF _ t sub built_trailers(3)]
      by (auto simp: serveMode_def handleMerge_def mergeStreaming_def Let_def sendTrailer_room
          closeSession_def noStats_def recs_def split: sum.splits if_splits)
  qed
qed

lemma serveMode_ctl:
  assumes "mode = ModeSplit \<or> mode = ModeMerge"
    and built: "\<And>meta. codecReturns enc dec meta \<Longrightarrow> serverTrailers M F meta \<subseteq> T"
    and room: "\<And>t data. t \<in> T \<Longrightarrow> marshal J t = Inr data \<Longrightarrow> length (trailerFrame data) \<le> quota (ctl io)"
    and run: "serveMode M F J enc dec cfg mode profile sess io = (io', stats, err)"
  shows "case err of
      Some e \<Rightarrow> ctl io' = ctl io
    | None \<Rightarrow> sentTrailer J T (ctl io) (ctl io') mode (statBytes stats)"
  using assms(1)
proof
  assume "mode = ModeSplit"
  then show ?thesis using built room run by (rule serveMode_ctl_split)
next
  assume "mode = ModeMerge"
  then show ?thesis using built room run by (rule serveMode_ctl_merge)
qed

section \<open>A concrete session\<close>

definition sample_config :: config where
  "sample_config = \<lparr>cfgListen = ''127.0.0.1:4567'', cfgToken = ''T'', cfgSessionTimeout = 300,
     cfgMaxObjectSize = 0, cfgChunkSize = 32768, cfgMaxSessions = 0\<rparr>"

definition sample_io :: "nat \<Rightarrow> session_io" where
  "sample_io q = \<lparr>ctl = \<lparr>sent = [], quota = q, outErr = OSError ''broken pipe''\<rparr>, ctlDeadline = False,
     ctlClosed = False, docOut = \<lparr>sent = [], quota = 0, outErr = EOF\<rparr>, particleOut = (\<lambda>k. []),
     net = noNet, halfClosed = {}, logged = []\<rparr>"

text \<open>A split client that names its mode and opens the data connections \<open>as\<close>.\<close>

definition sample_env :: "accept_outcome list \<Rightarrow> session_env" where
  "sample_env as = \<lparr>ctlIn = \<lparr>chunks = [''split'' @ [newline]], inpEnd = EOF, early = False\<rparr>,
     listenOn = (\<lambda>i. Inr (int i)), acceptsOn = as, acceptOrder = [0..<7]\<rparr>"

lemma sample_good:
  assumes "length as = 7"
  shows "goodStart sample_config (sample_env as) (sample_io q) ModeSplit noProfile"
proof -
  let ?c = "\<lparr>chunks = [''split'' @ [newline]], inpEnd = EOF, early = False\<rparr>"
  have "wf_inp ?c" "inpContent ?c = ''split'' @ [newline]" "inpEnd ?c = EOF"
    by (simp_all add: wf_inp_def inpContent_def)
  moreover have "frontLine (''split'' @ [newline]) = ModeSplit @ [newline]"
    by (simp add: frontLine_def ModeSplit_def)
  moreover have "parseModeLine (ModeSplit @ [newline]) = Inr ModeSplit"
    by (rule parseModeLine_known) simp
  moreover have "ModeSplit \<noteq> ModeMerge" by (simp add: ModeSplit_def ModeMerge_def)
  ultimately have "snd (readClientHandshake ?c) = Inr (ModeSplit, noProfile)"
    by (simp add: readClientHandshake_eq handshakeSpec_def profileSpec_def)
  with assms \<open>ModeSplit \<noteq> ModeMerge\<close> show ?thesis
    by (simp add: goodStart_def sample_env_def sample_io_def)
qed

lemma sample_invitation: "length (invitationFor sample_config (sample_env as) ModeSplit) = 22"
  by (simp add: invitationFor_def sample_config_def sample_env_def portsFrom_def portsOf_def
      formatInvitation_def ModeSplit_def fmtInt_def upt_rec fmtNat.simps)

lemma sample_parts [simp]:
  "acceptsOn (sample_env as) = as" "quota (ctl (sample_io q)) = q" "net (sample_io q) = noNet"
  "set (acceptOrder (sample_env as)) = {0..<7}"
  by (auto simp: sample_env_def sample_io_def)

definition sample_codec :: "trailer json_codec" where
  "sample_codec = \<lparr>marshal = (\<lambda>t. Inr ''{}''), unmarshal = (\<lambda>bs. Inl (Errorf ''not JSON''))\<rparr>"

definition sample_encoder :: "nat encoder" where
  "sample_encoder n d = (\<lambda>k. ''data'', Inr \<lparr>metaSHA256 = [], metaBytes = 4, metaFooters = []\<rparr>)"

definition sample_decoder :: "nat decoder" where
  "sample_decoder n srcs d = (d, Inl (Errorf ''no data''))"

abbreviation sample_session :: "accept_outcome list \<Rightarrow> nat \<Rightarrow> session_io option" where
  "sample_session as q \<equiv> handleCom sample_module sample_footers sample_codec sample_encoder
     sample_decoder sample_config (sample_env as) (sample_io q)"

text \<open>
  A session without timeout whose client sends half a line; one with a connection that never
  comes; one with a connection that stalls inside the token.
\<close>

theorem session_waits_for_ever_witness:
  "handleCom sample_module sample_footers sample_codec sample_encoder sample_decoder
       (sample_config\<lparr>cfgSessionTimeout := 0\<rparr>)
       ((sample_env [])\<lparr>ctlIn := \<lparr>chunks = [''spl''], inpEnd = Stalled, early = False\<rparr>\<rparr>) (sample_io 100) = None \<and>
   sample_session (replicate 6 (Some (Inl EOF)) @ [None]) 100 = None \<and>
   sample_session (map (\<lambda>c. Some (Inr c)) (replicate 6 \<lparr>chunks = [''T''], inpEnd = Stalled, early = False\<rparr> @
     [\<lparr>chunks = [], inpEnd = Stalled, early = False\<rparr>])) 100 = None"
proof -
  let ?half = "\<lparr>chunks = [''spl''], inpEnd = Stalled, early = False\<rparr>"
  have "wf_inp ?half" "inpContent ?half = ''spl''" by (simp_all add: wf_inp_def inpContent_def)
  then have "snd (readClientHandshake ?half) = Inl (Wrapf ''read mode line'' Stalled)"
    by (simp add: readClientHandshake_eq handshakeSpec_def)
  moreover have "sample_session (replicate 6 (Some (Inl EOF)) @ [None]) 100 = None"
    using session_waits_for_ever [of "sample_env (replicate 6 (Some (Inl EOF)) @ [None])" sample_module sample_footers
        sample_codec sample_encoder sample_decoder sample_config "sample_io 100" ModeSplit noProfile]
      sample_good [of "replicate 6 (Some (Inl EOF)) @ [None]" 100]
    by (simp add: sample_invitation wellFormedAccepts_def clientWaits_def)
  moreover
  let ?as = "map (\<lambda>c. Some (Inr c)) (replicate 6 \<lparr>chunks = [''T''], inpEnd = Stalled, early = False\<rparr> @
     [\<lparr>chunks = [], inpEnd = Stalled, early = False\<rparr>])"
  have "firstError 0 ?as = None" by (rule firstError_ok)
  then have "clientWaits sample_config (sample_env ?as) ModeSplit"
    by (simp add: clientWaits_def sample_config_def numeral_eq_Suc isPrefix_def inpContent_def)
  then have "sample_session ?as 100 = None"
    using session_waits_for_ever [of "sample_env ?as" sample_module sample_footers
        sample_codec sample_encoder sample_decoder sample_config "sample_io 100" ModeSplit noProfile]
      sample_good [of ?as 100]
    by (simp add: sample_invitation wellFormedAccepts_def wf_inp_def)
  ultimately show ?thesis
    using session_waits_for_ever [of "(sample_env [])\<lparr>ctlIn := ?half\<rparr>" sample_module sample_footers
        sample_codec sample_encoder sample_decoder "sample_config\<lparr>cfgSessionTimeout := 0\<rparr>" "sample_io 100"]
    by simp
qed

theorem unsent_invitation_leaks_listeners_witness:
  "\<exists>io'. sample_session (replicate 7 None) 3 = Some io' \<and> listeners (net io') = {0..<7}"
  using unsent_invitation_leaks_listeners [OF sample_good, of "replicate 7 None" 3]
  by (simp add: sample_invitation)

theorem session_releases_connections_witness:
  "\<exists>io'. sample_session (replicate 6 (Some (Inr \<lparr>chunks = [''T''], inpEnd = EOF, early = False\<rparr>)) @
       [Some (Inl EOF)]) 100 = Some io' \<and> conns (net io') = {}"
proof -
  let ?as = "replicate 6 (Some (Inr \<lparr>chunks = [''T''], inpEnd = EOF, early = False\<rparr>)) @ [Some (Inl EOF)]"
  have len: "length ?as = 7" "None \<notin> set ?as" by simp_all
  have refused: "firstError 0 ?as \<noteq> None" using firstError_none [of 0 ?as] by auto
  then have "isl r" if "acceptSession t order ?as v st = Some (st', r)" for t order v st st' r
    using that len by (auto simp: acceptSession_def Let_def split: option.splits)
  then have "\<not> codecWaits M F J enc dec cfg (sample_env ?as) io mode profile"
    for M :: pcs_module and F :: "nat footer_module" and J enc dec cfg io mode profile
    unfolding codecWaits_def by (fastforce split: option.splits sum.splits prod.splits)
  then have "sample_session ?as 100 \<noteq> None"
    using handleCom_blocks_iff [OF sample_good [OF len(1), of 100], of sample_module sample_footers
        sample_codec sample_encoder sample_decoder] len(2) refused
    by (simp add: sample_invitation wellFormedAccepts_def wf_inp_def clientWaits_def)
  then obtain io' where io': "sample_session ?as 100 = Some io'" by blast
  from session_releases_connections [OF io'] len io' show ?thesis by simp
qed

end
