(* ===== verification/TrailerFits.thy ===== *)
theory TrailerFits
  imports TrailerJson Server
begin

text \<open>
  The trailers the server sends: their JSON text is read back as it was, and it always fits
  the 1 MiB that a client accepts.  What the shared module is assumed to keep is collected in
  \<open>footersSound\<close> and \<open>metaSound\<close>: the byte count is an \<open>int64\<close>, the footers are those of the six kinds, and its
  arrays have fixed lengths, here at most 4 KiB.
\<close>

section \<open>ASCII texts\<close>

lemma ascii_hexDigit: "d < 16 \<Longrightarrow> code (hexDigit d) < 0x80"
  by (simp add: code_hexDigit)

lemma ascii_fmtNat: "2 \<le> b \<Longrightarrow> b \<le> 16 \<Longrightarrow> ascii (fmtNat b n)"
proof -
  assume b: "2 \<le> b" "b \<le> 16"
  have "code c < 0x80" if c: "c \<in> set (fmtNat b n)" for c
  proof -
    obtain d where "d < b" "c = hexDigit d" using fmtNat_digits [OF b(1) _ c] b(2) by auto
    with b(2) show ?thesis using ascii_hexDigit [of d] by simp
  qed
  then show ?thesis by (simp add: ascii_def list_all_iff)
qed

lemma ascii_hexEncode: "ascii (hexEncode bs)"
proof (induction bs)
  case (Cons c bs)
  have "code c div 16 < 16" "code c mod 16 < 16" using code_less [of c] by (simp_all add: div_less_iff_less_mult)
  with Cons show ?case by (simp add: hexEncode_def ascii_hexDigit)
qed (simp add: hexEncode_def)

lemma ascii_b64Char: "n < 64 \<Longrightarrow> code (b64Char n) < 0x80"
  by (auto simp: b64Char_def)

lemma ascii_b64Encode: "ascii (b64Encode bs)"
proof (induction bs rule: b64Encode.induct)
  case (2 a)
  note s = sextets [OF code_less [of a], of 0 0, simplified]
  show ?case using s(1,2) by (simp add: ascii_b64Char)
next
  case (3 a b)
  note s = sextets [OF code_less [of a] code_less [of b], of 0, simplified]
  show ?case using s(1-3) by (simp add: ascii_b64Char)
next
  case (4 a b c rest)
  note s = sextets [OF code_less [of a] code_less [of b] code_less [of c]]
  show ?case using s(1-4) 4 by (simp add: ascii_b64Char)
qed simp

lemma ascii_replicate: "code c < 0x80 \<Longrightarrow> ascii (replicate n c)"
  by (simp add: ascii_def list_all_iff)

lemma ascii_fmtHex16: "ascii (fmtHex16 n)"
  by (simp add: fmtHex16_def Let_def ascii_fmtNat ascii_replicate)

section \<open>Lengths\<close>

lemma length_fmtNat: "2 \<le> b \<Longrightarrow> n < b ^ Suc k \<Longrightarrow> length (fmtNat b n) \<le> Suc k"
proof (induction k arbitrary: n)
  case 0
  then show ?case by (subst fmtNat.simps) simp
next
  case (Suc k)
  have "n div b < b ^ Suc k" using Suc.prems by (simp add: div_less_iff_less_mult mult.commute)
  with Suc.IH [OF Suc.prems(1) this] Suc.prems(1) show ?case by (subst fmtNat.simps) simp
qed

lemma length_hexEncode: "length (hexEncode bs) = 2 * length bs"
  by (induction bs) (simp_all add: hexEncode_def)

lemma length_b64Encode: "length (b64Encode bs) \<le> 2 * length bs + 4"
  by (induction bs rule: b64Encode.induct) simp_all

lemma length_fmtHex16: "length (fmtHex16 (unat (w :: 64 word))) = 16"
proof -
  have "unat w < 16 ^ Suc 15" using unsigned_less [of w, where 'a = nat] by simp
  from length_fmtNat [OF _ this] show ?thesis by (simp add: fmtHex16_def Let_def)
qed

lemma length_jsonUint: "n < 2 ^ 64 \<Longrightarrow> length (jsonUint n) \<le> 20"
  using length_fmtNat [of 10 n 19] by (simp add: jsonUint_def fmtInt_def)

lemma length_fmtInt: "is_int64 x \<Longrightarrow> length (fmtInt x) \<le> 20"
proof -
  assume "is_int64 x"
  then have "nat x < 10 ^ Suc 18" "nat (- x) < 10 ^ Suc 18" by (auto simp: is_int64_def)
  with length_fmtNat [of 10 "nat x" 18] length_fmtNat [of 10 "nat (- x)" 18] show ?thesis
    by (simp add: fmtInt_def)
qed

lemma length_jsonString: "ascii s \<Longrightarrow> length (jsonString s) \<le> 6 * length s + 2"
proof -
  assume "ascii s"
  then have "length (jsonChars s) \<le> 6 * length s"
    by (induction s) (auto simp: jsonEscape_def)
  then show ?thesis by (simp add: jsonString_def)
qed

lemma length_commas: "length (commas xs) \<le> sum_list (map (Suc \<circ> length) xs)"
  by (induction xs rule: commas.induct) simp_all

definition memberLength :: "bytes \<times> string \<Rightarrow> nat" where
  "memberLength kv = 6 * length (fst kv) + length (snd kv) + 4"

lemma length_jsonObject:
  assumes "\<forall>kv \<in> set kvs. ascii (fst kv)"
  shows "length (jsonObject kvs) \<le> sum_list (map memberLength kvs) + 2"
proof -
  have "sum_list (map (Suc \<circ> length) (map jsonMember kvs)) \<le> sum_list (map memberLength kvs)"
    using assms
  proof (induction kvs)
    case (Cons kv kvs)
    then show ?case using length_jsonString [of "fst kv"] by (simp add: jsonMember_def memberLength_def)
  qed simp
  with length_commas [of "map jsonMember kvs"] show ?thesis by (simp add: jsonObject_def)
qed

text \<open>A map over the six keys.\<close>

definition kindKeys :: "string set" where
  "kindKeys = {KindEC, KindOC, KindEN, KindON, KindCP, KindNP}"

lemma kindKeys: "finite kindKeys" "card kindKeys = 6" "s \<in> kindKeys \<Longrightarrow> ascii s \<and> length s = 2"
  by (auto simp: kindKeys_def kind_keys)

lemma kindKey_known: "k \<in> all_kinds \<Longrightarrow> kindKey M k \<in> kindKeys"
  by (auto simp: all_kinds_def kindKeys_def kindKey_def)

lemma length_jsonMap:
  assumes "dom m \<subseteq> kindKeys" "\<And>k v. m k = Some v \<Longrightarrow> length (f v) \<le> n"
  shows "length (jsonMap f m) \<le> 6 * n + 98"
proof -
  have fin: "finite (dom m)" using assms(1) kindKeys(1) finite_subset by blast
  let ?ks = "sorted_list_of_set (dom m)"
  have "sum_list (map memberLength (map (\<lambda>k. (k, f (the (m k)))) ks)) \<le> length ks * (n + 16)"
    if "set ks \<subseteq> dom m" for ks
    using that assms kindKeys(3) by (induction ks) (force simp: memberLength_def)+
  from this [of ?ks] fin
  have "sum_list (map memberLength (map (\<lambda>k. (k, f (the (m k)))) ?ks)) \<le> card (dom m) * (n + 16)" by simp
  also have "\<dots> \<le> 6 * (n + 16)" using card_mono [OF kindKeys(1) assms(1)] unfolding kindKeys(2) by (rule mult_le_mono1)
  finally show ?thesis
    using length_jsonObject [of "map (\<lambda>k. (k, f (the (m k)))) ?ks"] assms(1) kindKeys(3) fin
    by (fastforce simp: jsonMap_def)
qed

section \<open>The trailers of the server\<close>

definition footersSound :: "'f footer_module \<Rightarrow> 'f stream_meta \<Rightarrow> bool" where
  "footersSound F meta \<longleftrightarrow> length (metaSHA256 meta) \<le> 4096 \<and>
     (\<forall>(k, f) \<in> set (metaFooters meta). k \<in> all_kinds \<and>
        length (FingerprintShard F f) \<le> 4096 \<and> length (Marshal F f) \<le> 4096)"

definition metaSound :: "'f footer_module \<Rightarrow> 'f stream_meta \<Rightarrow> bool" where
  "metaSound F meta \<longleftrightarrow> is_int64 (metaBytes meta) \<and> footersSound F meta"

definition keyedText :: "(string \<rightharpoonup> string) \<Rightarrow> bool" where
  "keyedText m \<longleftrightarrow> dom m \<subseteq> kindKeys \<and> (\<forall>k v. m k = Some v \<longrightarrow> ascii v \<and> length v \<le> 8196)"

definition smallTrailer :: "trailer \<Rightarrow> bool" where
  "smallTrailer t \<longleftrightarrow>
     ascii (trSecretSHA256 t) \<and> length (trSecretSHA256 t) \<le> 8196 \<and>
     keyedText (trFingerprintShard t) \<and> dom (trCrossCRC t) \<subseteq> kindKeys \<and>
     ascii (trWriteID t) \<and> length (trWriteID t) = 16 \<and> keyedText (trFooter t) \<and>
     is_int64 (trBytesProcessed t) \<and> trMode t \<in> {ModeSplit, ModeMerge} \<and>
     trRecoveries t \<in> {[], [''parity recovery used'']}"

lemma keyedText_empty [simp]: "keyedText Map.empty"
  by (simp add: keyedText_def)

lemma keyedText_upd: "keyedText m \<Longrightarrow> k \<in> all_kinds \<Longrightarrow> ascii v \<Longrightarrow> length v \<le> 8196 \<Longrightarrow>
    keyedText (m(kindKey M k \<mapsto> v))"
  using kindKey_known [of k M] by (auto simp: keyedText_def)

text \<open>The loop over the footers keeps the maps small.\<close>

definition smallMaps :: "trailer \<Rightarrow> bool" where
  "smallMaps t \<longleftrightarrow> keyedText (trFingerprintShard t) \<and> dom (trCrossCRC t) \<subseteq> kindKeys \<and> keyedText (trFooter t)"

lemma noteFooter_small:
  assumes "smallMaps t" "k \<in> all_kinds" "length (FingerprintShard F f) \<le> 4096" "length (Marshal F f) \<le> 4096"
  shows "smallMaps (fst (noteFooter M F b (k, f) (t, w)))"
proof -
  note entry = keyedText_upd [OF _ assms(2)]
  have "keyedText ((trFingerprintShard t)(kindKey M k \<mapsto> hexEncode (FingerprintShard F f)))"
    using assms by (intro entry) (simp_all add: smallMaps_def ascii_hexEncode length_hexEncode)
  moreover have "keyedText ((trFooter t)(kindKey M k \<mapsto> b64Encode (Marshal F f)))"
    using assms length_b64Encode [of "Marshal F f"] by (intro entry) (simp_all add: smallMaps_def ascii_b64Encode)
  moreover have "insert (kindKey M k) (dom (trCrossCRC t)) \<subseteq> kindKeys"
    using assms(1,2) kindKey_known by (simp add: smallMaps_def)
  ultimately show ?thesis using assms(1) by (simp add: noteFooter_step smallMaps_def)
qed

lemma fold_small:
  assumes "\<forall>(k, f) \<in> set kfs. k \<in> all_kinds \<and> length (FingerprintShard F f) \<le> 4096 \<and> length (Marshal F f) \<le> 4096"
  shows "smallMaps (fst acc) \<Longrightarrow> smallMaps (fst (fold (noteFooter M F b) kfs acc))"
  using assms
proof (induction kfs arbitrary: acc)
  case (Cons kf kfs)
  obtain k f t w where "kf = (k, f)" "acc = (t, w)" by (cases kf; cases acc)
  with Cons noteFooter_small [of t k F f M b w] show ?case by simp
qed simp

lemma finished_small:
  assumes "metaSound F meta"
    and "t0 = \<lparr>trSecretSHA256 = hexEncode (metaSHA256 meta), trFingerprintShard = Map.empty,
      trCrossCRC = Map.empty, trLength = 0, trWriteID = [], trWriteIDValid = v,
      trFooter = Map.empty, trBytesProcessed = metaBytes meta, trMode = mode,
      trHashValid = h, trRecoveries = recs\<rparr>"
    and "mode \<in> {ModeSplit, ModeMerge}" "recs \<in> {[], [''parity recovery used'']}"
  shows "smallTrailer (case fold (noteFooter M F b) (metaFooters meta) (t0, 0) of (t, w) \<Rightarrow>
    t\<lparr>trWriteID := fmtHex16 (unat w)\<rparr>)"
proof -
  let ?r = "fold (noteFooter M F b) (metaFooters meta) (t0, 0)"
  have "smallMaps (fst (t0, 0 :: 64 word))" using assms(2) by (simp add: smallMaps_def)
  then have "smallMaps (fst ?r)" using assms(1) by (intro fold_small) (auto simp: metaSound_def footersSound_def)
  moreover have "trSecretSHA256 (fst ?r) = hexEncode (metaSHA256 meta)" "trBytesProcessed (fst ?r) = metaBytes meta"
      "trMode (fst ?r) = mode" "trRecoveries (fst ?r) = recs"
    by (simp_all add: noteFooter_fold assms(2))
  ultimately show ?thesis
    using assms(1,3,4)
    by (simp add: smallTrailer_def smallMaps_def metaSound_def footersSound_def case_prod_unfold ascii_hexEncode
        length_hexEncode ascii_fmtHex16 length_fmtHex16)
qed

lemma server_trailer_small:
  assumes "metaSound F meta" "t \<in> serverTrailers M F meta"
  shows "smallTrailer t"
  using assms(2) finished_small [OF assms(1) refl]
  by (auto simp: serverTrailers_def buildTrailerFromEncodeMeta_def buildTrailerFromDecodeMeta_def Let_def)

lemma small_plain: "smallTrailer t \<Longrightarrow> plainTrailer t"
proof -
  assume t: "smallTrailer t"
  have txts: "asciiMap m" if "keyedText m" for m
    using that kindKeys(3) finite_subset [OF _ kindKeys(1)] by (auto simp: asciiMap_def keyedText_def dom_def)
  have "finite (dom (trCrossCRC t))" "\<forall>k \<in> dom (trCrossCRC t). ascii k"
    using t kindKeys finite_subset by (auto simp: smallTrailer_def)
  with t txts show ?thesis
    by (auto simp: smallTrailer_def plainTrailer_def ModeSplit_def ModeMerge_def)
qed

section \<open>The texts fit\<close>

lemma memberLength_opt:
  "(present \<Longrightarrow> length v \<le> n) \<Longrightarrow>
   sum_list (map memberLength (optMember k present v)) \<le> 6 * length k + n + 4"
  by (simp add: optMember_def memberLength_def)

lemma small_fits:
  assumes "smallTrailer t"
  shows "length (trailerJson t) \<le> 2 ^ 20"
proof -
  have txts: "length (jsonMap jsonString m) \<le> 295166" if "keyedText m" for m
    using length_jsonMap [of m jsonString 49178] that length_jsonString by (force simp: keyedText_def)
  have crc: "length (jsonMap (\<lambda>w. jsonUint (unat w)) (trCrossCRC t)) \<le> 218"
  proof -
    have "length (jsonUint (unat w)) \<le> 20" for w :: "32 word"
      using unsigned_less [of w, where 'a = nat] by (intro length_jsonUint) simp
    with assms length_jsonMap [of "trCrossCRC t" "\<lambda>w. jsonUint (unat w)" 20] show ?thesis
      by (simp add: smallTrailer_def)
  qed
  have len: "length (jsonUint (unat (trLength t))) \<le> 20"
    using unsigned_less [of "trLength t", where 'a = nat] by (intro length_jsonUint) simp
  have strings: "length (jsonString (trSecretSHA256 t)) \<le> 49178" "length (jsonString (trWriteID t)) \<le> 98"
      "length (jsonString (trMode t)) \<le> 32"
    using assms length_jsonString [of "trSecretSHA256 t"] length_jsonString [of "trWriteID t"]
      length_jsonString [of "trMode t"]
    by (auto simp: smallTrailer_def ModeSplit_def ModeMerge_def)
  have bool: "length (jsonBool b) \<le> 5" for b by (simp add: jsonBool_def)
  have recs: "length (jsonArray (map jsonString (trRecoveries t))) \<le> 200"
    if "trRecoveries t \<noteq> []"
    using assms that length_jsonString [of "''parity recovery used''"]
    by (simp add: smallTrailer_def jsonArray_def)
  have num: "length (fmtInt (trBytesProcessed t)) \<le> 20"
    using assms by (intro length_fmtInt) (simp add: smallTrailer_def)
  have maps: "keyedText (trFingerprintShard t)" "keyedText (trFooter t)" using assms by (simp_all add: smallTrailer_def)
  note opts = memberLength_opt [OF bool, of "''write_id_valid''"] memberLength_opt [OF bool, of "''hash_valid''"]
    memberLength_opt [OF txts [OF maps(2)], of "''footer''"] memberLength_opt [OF recs, of _ "''recoveries''"]
  have "sum_list (map memberLength (trailerMembers t)) \<le> 2 ^ 20 - 2"
    unfolding trailerMembers_def map_append sum_list_append
    using opts(1) [of "trWriteIDValid t \<noteq> None" "the (trWriteIDValid t)"]
      opts(2) [of "trHashValid t \<noteq> None" "the (trHashValid t)"]
      opts(3) [of "dom (trFooter t) \<noteq> {}"] opts(4) [of "trRecoveries t \<noteq> []"]
      txts [OF maps(1)] crc len strings num
    by (simp add: memberLength_def)
  moreover have "\<forall>kv \<in> set (trailerMembers t). ascii (fst kv)"
    by (auto simp: trailerMembers_def optMember_def)
  ultimately show ?thesis
    using length_jsonObject [of "trailerMembers t"] by (simp add: trailerJson_def)
qed

section \<open>What the server sends is what a client reads\<close>

lemma server_trailer_text:
  assumes "metaSound F meta" "t \<in> serverTrailers M F meta"
  shows "marshal (goJson errText) t = Inr (trailerJson t)"
    and "unmarshal (goJson errText) (trailerJson t) = Inr t"
    and "length (trailerJson t) \<le> 2 ^ 20"
  using small_fits [OF server_trailer_small [OF assms]]
    jsonTrailer_written [OF small_plain [OF server_trailer_small [OF assms]]]
  by (simp_all add: goJson_def)

lemma server_trailer_read:
  assumes "metaSound F meta" "t \<in> serverTrailers M F meta"
    and "wf_inp r" "inpContent r = trailerFrame (trailerJson t) @ rest"
  shows "readTrailer (goJson errText) r = Inr t"
proof -
  note t = server_trailer_text [OF assms(1,2)]
  then have "length (trailerJson t) < 2 ^ 63" by simp
  from readTrailer_frame [OF assms(3,4) this, of "goJson errText"] t(2,3) show ?thesis by simp
qed

lemma server_frame_length:
  assumes "metaSound F meta" "t \<in> serverTrailers M F meta"
  shows "length (trailerFrame (trailerJson t)) \<le> 2 ^ 20 + 8"
proof -
  note n = server_trailer_text(3) [OF assms]
  have "length (fmtNat 10 (length (trailerJson t))) \<le> Suc 6"
    using n by (intro length_fmtNat) simp_all
  with n show ?thesis by (simp add: trailerFrame_def)
qed

text \<open>
  The JSON text of a trailer is read back as the trailer.  Every trailer whose strings and
  keys are ASCII goes through \<open>json.Marshal\<close> and \<open>json.Unmarshal\<close> unchanged: the two
  hexadecimal digests, the maps of the shards, checksums and footers, the 64-bit length and
  byte count, and the four fields that are left out of the text when they are empty.
\<close>

theorem trailer_json_roundtrip:
  assumes "plainTrailer t"
  shows "jsonTrailer (trailerJson t) = Some t"
  using assms by (rule jsonTrailer_written)

text \<open>
  C9: A trailer the server sends is the trailer the client gets, over every segmentation of the
  control connection: its text is written without error, fits the client's limit of 1 MiB, and
  \<open>ReadTrailer\<close> returns the trailer itself, whatever follows it.
\<close>

theorem server_trailer_delivered:
  assumes "metaSound F meta" "t \<in> serverTrailers M F meta" "wf_inp r"
    and "writeTrailer (goJson errText) t = Inr frame" "inpContent r = frame @ rest"
  shows "readTrailer (goJson errText) r = Inr t"
proof -
  have "frame = trailerFrame (trailerJson t)"
    using assms(4) by (simp add: writeTrailer_def server_trailer_text(1) [OF assms(1,2)])
  with assms(5) show ?thesis by (intro server_trailer_read [OF assms(1-3)]) simp
qed

text \<open>
  C21: The frame of a server's trailer has at most \<open>2^20 + 8\<close> bytes, so that the server never
  sends a trailer that its own client refuses as too long.
\<close>

theorem server_trailer_bounded:
  assumes "metaSound F meta" "t \<in> serverTrailers M F meta" "writeTrailer (goJson errText) t = Inr frame"
  shows "length frame \<le> 2 ^ 20 + 8"
  using server_frame_length [OF assms(1,2)] assms(3)
  by (simp add: writeTrailer_def server_trailer_text(1) [OF assms(1,2)])

text \<open>
  C8: What the client verifies is what the encoder made.  The check of the write IDs on the
  trailer that \<open>ReadTrailer\<close> returns for a split is the check of the shared module on the
  encoder's own footers, through hexadecimal, base64, JSON and the frame, over every
  segmentation, and whatever the orders in which the two sides iterate their maps.
\<close>

theorem received_trailer_verifies:
  assumes "metaSound F meta" "distinct (map fst (metaFooters meta))" "metaFooters meta \<noteq> []"
    and "\<forall>(k, f) \<in> set (metaFooters meta). ParseFooter F (Marshal F f) = Inr f"
    and "writeTrailer (goJson errText) (buildTrailerFromEncodeMeta M F ModeSplit meta) = Inr frame"
    and "wf_inp r" "inpContent r = frame @ rest"
  shows "\<exists>t. readTrailer (goJson errText) r = Inr t \<and>
    (\<forall>keys. set keys = dom (trFooter t) \<longrightarrow>
       verifyWriteIDsFromTrailer F keys t = VerifyWriteIDs F (map_of (metaFooters meta)))"
proof -
  let ?t = "buildTrailerFromEncodeMeta M F ModeSplit meta"
  have t: "?t \<in> serverTrailers M F meta" by (simp add: serverTrailers_def)
  have "frame = trailerFrame (trailerJson ?t)"
    using assms(5) by (simp add: writeTrailer_def server_trailer_text(1) [OF assms(1) t])
  then have "readTrailer (goJson errText) r = Inr ?t"
    using server_trailer_read [OF assms(1) t assms(6)] assms(7) by simp
  moreover have "\<forall>(k, f) \<in> set (metaFooters meta). k \<in> all_kinds \<and> ParseFooter F (Marshal F f) = Inr f"
    using assms(1,4) by (auto simp: metaSound_def footersSound_def)
  ultimately show ?thesis using trailer_verifies_own_footers [OF assms(2,3)] by blast
qed

section \<open>Concrete trailers\<close>

definition sample_meta :: "nat stream_meta" where
  "sample_meta = \<lparr>metaSHA256 = ''hash'', metaBytes = 5, metaFooters = [(EvenCypher, 1), (OddNoise, 2)]\<rparr>"

definition sample_trailer :: trailer where
  "sample_trailer = buildTrailerFromEncodeMeta sample_module sample_footers ModeSplit sample_meta"

lemma sample_meta_sound: "metaSound sample_footers sample_meta"
  by (simp add: metaSound_def footersSound_def sample_meta_def sample_footers_def is_int64_def all_kinds_def)

lemma sample_trailer_of_server: "sample_trailer \<in> serverTrailers sample_module sample_footers sample_meta"
  by (simp add: serverTrailers_def sample_trailer_def)

theorem trailer_json_roundtrip_witness: "jsonTrailer (trailerJson sample_trailer) = Some sample_trailer"
  by (rule trailer_json_roundtrip [OF small_plain [OF server_trailer_small
        [OF sample_meta_sound sample_trailer_of_server]]])

theorem server_trailer_delivered_witness:
  "\<exists>frame. writeTrailer (goJson OSError) sample_trailer = Inr frame \<and>
     readTrailer (goJson OSError) \<lparr>chunks = [frame, ''rest''], inpEnd = EOF, early = False\<rparr> = Inr sample_trailer"
proof -
  note t = sample_meta_sound sample_trailer_of_server
  let ?frame = "trailerFrame (trailerJson sample_trailer)"
  let ?r = "\<lparr>chunks = [?frame, ''rest''], inpEnd = EOF, early = False\<rparr>"
  have w: "writeTrailer (goJson OSError) sample_trailer = Inr ?frame"
    by (simp add: writeTrailer_def server_trailer_text(1) [OF t])
  have "wf_inp ?r" "inpContent ?r = ?frame @ ''rest''"
    by (simp_all add: wf_inp_def inpContent_def trailerFrame_def)
  from server_trailer_delivered [OF t this(1) w this(2)] w show ?thesis by blast
qed

theorem server_trailer_bounded_witness:
  "\<exists>frame. writeTrailer (goJson OSError) sample_trailer = Inr frame \<and> length frame \<le> 1048584"
  using server_trailer_bounded [OF sample_meta_sound sample_trailer_of_server, of OSError]
  by (simp add: writeTrailer_def server_trailer_text(1) [OF sample_meta_sound sample_trailer_of_server])

theorem received_trailer_verifies_witness:
  "\<exists>frame t. writeTrailer (goJson OSError) sample_trailer = Inr frame \<and>
     readTrailer (goJson OSError) \<lparr>chunks = [frame], inpEnd = EOF, early = False\<rparr> = Inr t \<and>
     verifyWriteIDsFromTrailer sample_footers [''on'', ''ec''] t = Inr ()"
proof -
  note t = sample_meta_sound sample_trailer_of_server
  let ?frame = "trailerFrame (trailerJson sample_trailer)"
  let ?r = "\<lparr>chunks = [?frame], inpEnd = EOF, early = False\<rparr>"
  have w: "writeTrailer (goJson OSError) (buildTrailerFromEncodeMeta sample_module sample_footers ModeSplit sample_meta) = Inr ?frame"
    by (simp add: writeTrailer_def sample_trailer_def [symmetric] server_trailer_text(1) [OF t])
  have r: "wf_inp ?r" "inpContent ?r = ?frame @ []"
    by (simp_all add: wf_inp_def inpContent_def trailerFrame_def)
  have read: "readTrailer (goJson OSError) ?r = Inr sample_trailer" by (rule server_trailer_read [OF t r])
  have dom: "set [''on'', ''ec''] = dom (trFooter sample_trailer)"
    by (auto simp: sample_trailer_def sample_meta_def buildTrailerFromEncodeMeta_def noteFooter_def
        sample_footers_def kindKey_def kind_keys Let_def)
  have "distinct (map fst (metaFooters sample_meta))" "metaFooters sample_meta \<noteq> []"
      "\<forall>(k, f) \<in> set (metaFooters sample_meta). ParseFooter sample_footers (Marshal sample_footers f) = Inr f"
      "VerifyWriteIDs sample_footers (map_of (metaFooters sample_meta)) = Inr ()"
    by (simp_all add: sample_meta_def sample_footers_def)
  with received_trailer_verifies [OF sample_meta_sound _ _ _ w r] read dom w show ?thesis
    unfolding sample_trailer_def by fastforce
qed

end
