(* ===== verification/MergeStreams.thy ===== *)
theory MergeStreams
  imports Server
begin

text \<open>
  The particle streams of a merge on the server's side: from seven accepted connections that
  carry the token and then a stream each, over \<open>AcceptSession\<close> and \<open>buildMergeSources\<close>, to what the
  decoder reads, and the contract of the decoder.
\<close>

section \<open>What a source delivers\<close>

text \<open>Any run of reads that is long enough delivers the payload of the particle; then its footer.\<close>

definition yields :: "nat \<Rightarrow> bytes \<Rightarrow> source \<Rightarrow> bool" where
  "yields fsz p src \<longleftrightarrow> (\<exists>t. src = Some t \<and>
     (\<forall>ks. (\<forall>k \<in> set ks. 0 < k) \<and> payGas (under t) < length ks \<longrightarrow>
        (\<exists>t' t''. drain (tfr_Read fsz payload_Read) ks t = (t', payloadOf fsz p, Some EOF) \<and>
           readFull (tfr_Read fsz payload_Read) (Suc fsz) t' fsz = (t'', footerOf fsz p, None))))"

lemma source_yields:
  assumes "payOk c" "payContent c = p" "payFinal c = EOF" "fsz \<le> length p"
  shows "yields fsz p (Some (newTrailingFooterReader c))"
proof -
  let ?t = "newTrailingFooterReader c"
  have t: "payloadState payOk payContent fsz ?t" "unseen payContent ?t = p" "under ?t = c"
    using assms(1,2) by (simp_all add: payloadState_def newTrailingFooterReader_def unseen_def)
  have len: "length (footerOf fsz p) = fsz" using assms(4) by (simp add: footerOf_def)
  have "\<exists>t' t''. drain (tfr_Read fsz payload_Read) ks ?t = (t', payloadOf fsz p, Some EOF) \<and>
      readFull (tfr_Read fsz payload_Read) (Suc fsz) t' fsz = (t'', footerOf fsz p, None)"
    if ks: "\<forall>k \<in> set ks. 0 < k" "payGas (under ?t) < length ks" for ks
  proof -
    obtain t' where t': "drain (tfr_Read fsz payload_Read) ks ?t = (t', payloadOf fsz p, Some EOF)"
        "tail t' = footerOf fsz p" "payloadDone t'" "footOff t' = 0"
      using pay.tfr_drain [OF t(1) ks] assms(3,4) unfolding t(2,3) by blast
    have ok: "footOk fsz t'" "footContent t' = footerOf fsz p"
      using t' len by (simp_all add: footOk_def footContent_def)
    obtain t'' bs e where r: "readFull (tfr_Read fsz payload_Read) (Suc fsz) t' fsz = (t'', bs, e)"
      by (cases "readFull (tfr_Read fsz payload_Read) (Suc fsz) t' fsz")
    have "bs = footerOf fsz p" "e = None"
      using foot.readFull_spec [OF ok(1) _ r] ok(2) len by auto
    with t'(1) r show ?thesis by blast
  qed
  then show ?thesis by (auto simp: yields_def)
qed

lemma yields_drain:
  assumes "yields fsz p src"
  shows "\<exists>t t'. src = Some t \<and>
    drain (tfr_Read fsz payload_Read) (replicate (Suc (payGas (under t))) 1) t = (t', payloadOf fsz p, Some EOF)"
proof -
  obtain t where t: "src = Some t"
      "\<And>ks. (\<forall>k \<in> set ks. 0 < k) \<Longrightarrow> payGas (under t) < length ks \<Longrightarrow>
         \<exists>t'. drain (tfr_Read fsz payload_Read) ks t = (t', payloadOf fsz p, Some EOF)"
    using assms unfolding yields_def by blast
  have "\<forall>k \<in> set (replicate (Suc (payGas (under t))) 1). 0 < (k :: nat)" by auto
  from t(2) [OF this] t(1) show ?thesis by auto
qed

section \<open>From the accepted connections to the sources\<close>

lemma consumeTokenConn_stream:
  assumes "wf_inp conn" "consumeTokenConn conn token = Inr pc"
  shows "crOk pc \<and> crContent pc = drop (length token) (inpContent conn) \<and> crFinal pc = inpEnd conn"
proof -
  have ok: "crOk (newBufio conn)" using assms(1) by simp
  obtain b' res where m: "matchToken token (newBufio conn) = (b', res)"
    by (cases "matchToken token (newBufio conn)")
  from matchToken_spec [OF ok m] assms(2) show ?thesis
    by (auto simp: consumeTokenConn_def m split: option.splits token_error.splits)
qed

lemma authPorts_stream:
  "authPorts token i vcs = Inr ps \<Longrightarrow> j < length vcs \<Longrightarrow> fst (vcs ! j) \<Longrightarrow> wf_inp (snd (vcs ! j)) \<Longrightarrow>
   payOk (ps ! j) \<and> payContent (ps ! j) = drop (length token) (inpContent (snd (vcs ! j))) \<and>
   payFinal (ps ! j) = inpEnd (snd (vcs ! j))"
proof (induction vcs arbitrary: i j ps)
  case (Cons vc vcs)
  then show ?case
  proof (cases j)
    case 0
    with Cons.prems obtain pc where "consumeTokenConn (snd vc) token = Inr pc" "ps ! 0 = Payload pc"
      by (cases vc) (auto split: sum.splits)
    with consumeTokenConn_stream Cons.prems(4) 0 show ?thesis by auto
  next
    case (Suc j')
    with Cons.prems obtain p ps' where "ps = p # ps'" "authPorts token (Suc i) vcs = Inr ps'"
      by (cases vc) (auto split: sum.splits if_splits)
    with Cons.IH Cons.prems Suc show ?thesis by simp
  qed
qed simp

lemma buildMergeSources_nth:
  assumes "mergeSendPlan M profile = Inr plan" "buildMergeSources M (portSet ps) profile = Inr srcs" "i < 6"
  shows "srcs (particleKinds ! i) = (if mget (Send plan) (particleKinds ! i)
    then Some (newTrailingFooterReader (ps ! Suc i)) else None)"
proof -
  have "i = 0 \<or> i = 1 \<or> i = 2 \<or> i = 3 \<or> i = 4 \<or> i = 5" using assms(3) by linarith
  then show ?thesis
    using assms(1,2)
    by (elim disjE) (auto simp: buildMergeSources_def mergeSource_def mergeStreamOpen_def particleKinds_def portSet_def eval_nat_numeral)
qed

text \<open>What the client wrote on the seven connections arrives, and then their end.\<close>

definition arrived :: "string \<Rightarrow> (particle_kind \<Rightarrow> bytes) \<Rightarrow> inp list \<Rightarrow> bool" where
  "arrived token streams cs \<longleftrightarrow> length cs = 7 \<and> (\<forall>c \<in> set cs. wf_inp c \<and> inpEnd c = EOF) \<and>
     isPrefix token (inpContent (cs ! 0)) \<and>
     (\<forall>k c. particleWriters (\<lambda>i. cs ! i) k = Some c \<longrightarrow> inpContent c = token @ streams k)"

lemma arrived_nth:
  "arrived token streams cs \<Longrightarrow> i < 6 \<Longrightarrow> inpContent (cs ! Suc i) = token @ streams (particleKinds ! i)"
  using particleReaders_nth(2) [of i "(!) cs"] by (simp add: arrived_def)

lemma arrived_authPorts:
  assumes "arrived token streams cs"
  obtains ps where "authPorts token 0 (zip [True, True, True, True, True, True, True] cs) = Inr ps"
    "\<And>i. i < 6 \<Longrightarrow> payOk (ps ! Suc i) \<and> payContent (ps ! Suc i) = streams (particleKinds ! i) \<and>
       payFinal (ps ! Suc i) = EOF"
proof -
  let ?vcs = "zip [True, True, True, True, True, True, True] cs"
  have len: "length cs = 7" and wf: "\<forall>c \<in> set cs. wf_inp c \<and> inpEnd c = EOF"
    using assms by (simp_all add: arrived_def)
  have pre: "isPrefix token (inpContent (cs ! j))" if "j < 7" for j
    using assms that by (cases j) (auto simp: arrived_nth, auto simp: arrived_def isPrefix_def)
  have "isPrefix token (inpContent c)" if "c \<in> set cs" for c
    using that pre len by (metis in_set_conv_nth)
  then have "\<not> isl (authPorts token 0 ?vcs)"
    using wf by (subst authPorts_iff) (auto dest: set_zip_rightD)
  then obtain ps where ps: "authPorts token 0 ?vcs = Inr ps" by (cases "authPorts token 0 ?vcs") auto
  have "payOk (ps ! Suc i) \<and> payContent (ps ! Suc i) = streams (particleKinds ! i) \<and> payFinal (ps ! Suc i) = EOF"
    if i: "i < 6" for i
  proof -
    have nth: "?vcs ! Suc i = (True, cs ! Suc i)"
      using i len nth_replicate [of "Suc i" 7 True] by (simp add: eval_nat_numeral)
    have "wf_inp (cs ! Suc i)" "inpEnd (cs ! Suc i) = EOF" using wf len i by simp_all
    with authPorts_stream [OF ps, of "Suc i"] nth len i arrived_nth [OF assms i] show ?thesis
      by simp
  qed
  with ps that show ?thesis by blast
qed

section \<open>A merge restores the document\<close>

text \<open>
  The documented behaviour of the module's decoder: from the sources of a recoverable set
  of a document's particles it writes the document.
\<close>

definition restores :: "pcs_module \<Rightarrow> 'f decoder \<Rightarrow> (particle_kind \<Rightarrow> bytes) \<Rightarrow> bytes \<Rightarrow> bool" where
  "restores M dec particles d \<longleftrightarrow> (\<forall>n srcs w.
     recoverable (\<lambda>k. srcs k \<noteq> None) \<and> length d \<le> quota w \<and>
     (\<forall>k \<in> all_kinds. srcs k = None \<or> yields (footerSize M) (particles k) (srcs k)) \<longrightarrow>
     (\<exists>meta. dec n srcs (UnlimitedW w) = (UnlimitedW (wroteTo w d), Inr meta) \<and>
        metaBytes meta = int (length d)))"

text \<open>
  A decoder that satisfies the contract for particles that each carry the whole document: it
  reads the payload of the first cypher source there is, byte by byte.
\<close>

definition mirrorDecoder :: "nat decoder" where
  "mirrorDecoder n srcs dw =
     (case (if srcs EvenCypher \<noteq> None then srcs EvenCypher else srcs OddCypher) of
        None \<Rightarrow> (dw, Inl (Errorf ''no cypher stream''))
      | Some t \<Rightarrow>
          (case drain (tfr_Read 64 payload_Read) (replicate (Suc (payGas (under t))) 1) t of
             (t', p, e) \<Rightarrow> (case doc_Write outp_Write dw p of
                (dw', m, None) \<Rightarrow> (dw', Inr \<lparr>metaSHA256 = [], metaBytes = int (length p), metaFooters = []\<rparr>)
              | (dw', m, Some err) \<Rightarrow> (dw', Inl err))))"

definition mirrored :: "bytes \<Rightarrow> particle_kind \<Rightarrow> bytes" where
  "mirrored d k = d @ replicate 64 CHR ''f''"

lemma mirrorDecoder_restores: "restores sample_module mirrorDecoder (mirrored d) d"
  unfolding restores_def
proof (intro allI impI, elim conjE)
  fix n srcs and w :: outp
  assume rec: "recoverable (\<lambda>k. srcs k \<noteq> None)" and room: "length d \<le> quota w"
    and src: "\<forall>k \<in> all_kinds. srcs k = None \<or> yields (footerSize sample_module) (mirrored d k) (srcs k)"
  let ?s = "if srcs EvenCypher \<noteq> None then srcs EvenCypher else srcs OddCypher"
  have pay: "payloadOf 64 (mirrored d k) = d" for k by (simp add: payloadOf_def mirrored_def)
  have fsz: "footerSize sample_module = 64" by (simp add: sample_module_def)
  have "?s \<noteq> None" using rec by (auto simp: recoverable_def pairRecoverable_def)
  then have "yields 64 (mirrored d EvenCypher) ?s"
    using src by (auto simp: fsz mirrored_def all_kinds_def)
  then obtain t t' where t: "?s = Some t"
      "drain (tfr_Read 64 payload_Read) (replicate (Suc (payGas (under t))) 1) t = (t', d, Some EOF)"
    using yields_drain [of 64 "mirrored d EvenCypher" ?s] unfolding pay by blast
  show "\<exists>meta. mirrorDecoder n srcs (UnlimitedW w) = (UnlimitedW (wroteTo w d), Inr meta) \<and> metaBytes meta = int (length d)"
    unfolding mirrorDecoder_def t(1) option.case t(2) prod.case using room by (simp add: outp_Write_fits)
qed

lemma arrived_exists: "\<exists>cs. arrived (t # ts) streams cs"
proof
  let ?c = "\<lambda>bs. \<lparr>chunks = [bs], inpEnd = EOF, early = False\<rparr>"
  let ?cs = "?c (t # ts) # map (\<lambda>k. ?c ((t # ts) @ streams k)) particleKinds"
  have "inpContent c = (t # ts) @ streams k" if "particleWriters ((!) ?cs) k = Some c" for k c
    using particleWriters_SomeD [OF that] by (auto simp: inpContent_def)
  then show "arrived (t # ts) streams ?cs"
    by (auto simp: arrived_def wf_inp_def) (simp add: inpContent_def isPrefix_def)
qed

end
