(* ===== verification/SplitStreams.thy ===== *)
theory SplitStreams
  imports MergeStreams Download
begin

text \<open>
  A split on the server's side, from the document connection over the token and the size limit
  to the encoder, and what the client stores of its streams; the contract of encoder and decoder.
\<close>

section \<open>What the encoder reads\<close>

fun docGas :: "strip_reader doc_reader \<Rightarrow> nat" where
  "docGas (Unlimited s) = stripGas s"
| "docGas (Limited m) = stripGas (mxR m)"

definition readsDoc :: "bytes \<Rightarrow> strip_reader doc_reader \<Rightarrow> bool" where
  "readsDoc d r \<longleftrightarrow> (\<forall>ks. (\<forall>k \<in> set ks. 0 < k) \<and> docGas r < length ks \<longrightarrow>
     (\<exists>r'. drain (doc_Read strip_Read) ks r = (r', d, Some EOF)))"

text \<open>A document below the limit, if there is one, reaches the encoder without the token.\<close>

definition fits :: "bytes \<Rightarrow> int \<Rightarrow> bool" where
  "fits d lim \<longleftrightarrow> lim \<le> 0 \<or> int (length d) < lim \<and> lim < 2 ^ 63 - 1"

lemma document_readsDoc:
  assumes conn: "wf_inp conn" "\<not> early conn" "inpEnd conn = EOF" "inpContent conn = token @ d"
    and "fits d lim"
  shows "readsDoc d (limitedDocReader (newStripTokenReader conn token) lim)"
proof -
  let ?s = "newStripTokenReader conn token"
  have pre: "isPrefix token (inpContent conn)" "drop (length token) (inpContent conn) = d"
    using conn(4) by (simp_all add: isPrefix_def)
  note strip = newStrip_late [OF conn(1,2) pre(1), unfolded pre(2) conn(3)]
  have "\<exists>r'. drain (doc_Read strip_Read) ks (limitedDocReader ?s lim) = (r', d, Some EOF)"
    if ks: "\<forall>k \<in> set ks. 0 < k" "docGas (limitedDocReader ?s lim) < length ks" for ks
  proof (cases "lim \<le> 0")
    case True
    then have "stripGas ?s < length ks" using ks(2) by (simp add: limitedDocReader_def)
    with late.drain_all [OF strip(1) ks(1)] strip(2,3) True show ?thesis
      by (auto simp: limitedDocReader_def drain_Unlimited)
  next
    case False
    let ?m = "\<lparr>mxR = ?s, mxMax = lim, mxRead = 0, mxExceed = False\<rparr>"
    have lim: "int (length d) < lim" "lim < 2 ^ 63 - 1" using assms(5) False by (auto simp: fits_def)
    have "stripGas ?s < length ks" using False ks(2) by (simp add: limitedDocReader_def)
    with late.max_drain [of ?m ks] strip ks(1) lim have "\<exists>m'. drain (max_Read strip_Read) ks ?m = (m', d, Some EOF)"
      by (simp cong: if_cong) blast
    with False show ?thesis by (auto simp: limitedDocReader_def drain_Limited)
  qed
  then show ?thesis by (simp add: readsDoc_def)
qed

section \<open>The contract of the codec\<close>

text \<open>
  The documented behaviour of the module: the encoder reads the document to its end and
  writes six particles, each with a footer, from which the decoder restores the document.
\<close>

definition codec_restores :: "pcs_module \<Rightarrow> 'f encoder \<Rightarrow> 'f decoder \<Rightarrow> bool" where
  "codec_restores M enc dec \<longleftrightarrow> (\<forall>n r d. readsDoc d r \<longrightarrow>
     (\<exists>particles meta. enc n r = (particles, Inr meta) \<and> metaBytes meta = int (length d) \<and>
        (\<forall>k \<in> all_kinds. footerSize M \<le> length (particles k)) \<and> restores M dec particles d))"

lemma restores_cong:
  "restores M dec p d \<Longrightarrow> \<forall>k \<in> all_kinds. p k = q k \<Longrightarrow> restores M dec q d"
  unfolding restores_def by simp

lemma sendTrailer_particles: "sendTrailer J t io = (io', e) \<Longrightarrow> particleOut io' = particleOut io"
  by (auto simp: sendTrailer_def ctlWrite_def split: prod.splits sum.splits option.splits)

lemma handleSplit_encodes:
  assumes "codec_restores M enc dec"
    and "wf_inp (spDoc sess)" "\<not> early (spDoc sess)" "inpEnd (spDoc sess) = EOF"
    and "inpContent (spDoc sess) = cfgToken cfg @ d" "fits d (cfgMaxObjectSize cfg)"
    and run: "handleSplit M F J enc cfg sess io = (io', stats, err)"
  shows "\<exists>particles. (\<forall>k. particleOut io' k = particleOut io k @ particles k) \<and>
    (err = None \<longrightarrow> statBytes stats = int (length d)) \<and>
    (\<forall>k \<in> all_kinds. footerSize M \<le> length (particles k)) \<and> restores M dec particles d"
proof -
  let ?r = "limitedDocReader (newStripTokenReader (spDoc sess) (cfgToken cfg)) (cfgMaxObjectSize cfg)"
  have "readsDoc d ?r" using document_readsDoc assms(2-6) by blast
  then obtain particles meta where enc: "enc (cfgChunkSize cfg) ?r = (particles, Inr meta)"
      "metaBytes meta = int (length d)" "\<forall>k \<in> all_kinds. footerSize M \<le> length (particles k)"
      "restores M dec particles d"
    using assms(1) unfolding codec_restores_def by blast
  have "particleOut io' = (\<lambda>k. particleOut io k @ particles k) \<and> (err = None \<longrightarrow> statBytes stats = int (length d))"
    using run enc(1,2)
    by (auto simp: handleSplit_def splitStreaming_def Let_def closeSession_def noStats_def
        dest!: sendTrailer_particles split: prod.splits option.splits)
  with enc show ?thesis by auto
qed

section \<open>What the client stores\<close>

text \<open>The streams the server has written arrive at the client, and then their end.\<close>

definition delivered :: "(particle_kind \<Rightarrow> bytes) \<Rightarrow> (particle_kind \<Rightarrow> inp) \<Rightarrow> bool" where
  "delivered streams readers \<longleftrightarrow>
     (\<forall>k. wf_inp (readers k)) \<and> (\<forall>k \<in> all_kinds. inpContent (readers k) = streams k)"

lemma copyAll_complete:
  "distinct order \<Longrightarrow> \<forall>k. wf_inp (readers k) \<Longrightarrow>
   copyAll outp_Write readers order dst closedSet errs = Some (dst', closedSet', []) \<Longrightarrow>
   errs = [] \<and> (\<forall>k. map_option sent (dst' k) =
     map_option (\<lambda>w. if k \<in> set order then sent w @ inpContent (readers k) else sent w) (dst k))"
proof (induction order arbitrary: dst closedSet errs)
  case Nil
  then show ?case by simp
next
  case (Cons k ks)
  then have k: "k \<notin> set ks" "distinct ks" by simp_all
  show ?case
  proof (cases "dst k")
    case None
    with Cons.prems have "copyAll outp_Write readers ks dst closedSet errs = Some (dst', closedSet', [])" by simp
    moreover have "map_option (\<lambda>w. if j \<in> set ks then sent w @ inpContent (readers j) else sent w) (dst j) =
        map_option (\<lambda>w. if j \<in> set (k # ks) then sent w @ inpContent (readers j) else sent w) (dst j)" for j
      using None by (cases "j = k") auto
    ultimately show ?thesis using Cons.IH [OF k(2) Cons.prems(2)] by presburger
  next
    case (Some w)
    from download.copyBuffer_spec [of "readers k" w] Cons.prems(2) obtain r' w' m e where cp:
      "copyBuffer inp_Read outp_Write (readers k) w = Some (r', w', m, e)"
      "sent w' = sent w @ take m (inpContent (readers k))"
      "e = None \<longrightarrow> m = length (inpContent (readers k))"
      by blast
    let ?errs = "case e of None \<Rightarrow> errs | Some e \<Rightarrow> errs @ [e]"
    have "copyAll outp_Write readers ks (dst(k \<mapsto> w')) (insert k closedSet) ?errs = Some (dst', closedSet', [])"
      using Cons.prems(3) Some cp(1) by simp
    note IH = Cons.IH [OF k(2) Cons.prems(2) this]
    then have "errs = []" "e = None" by (auto split: option.splits)
    with IH cp(2,3) Some k(1) show ?thesis by (auto split: option.splits)
  qed
qed

text \<open>A stream that arrives in one piece.\<close>

definition wholeStream :: "bytes \<Rightarrow> inp" where
  "wholeStream bs = \<lparr>chunks = (if bs = [] then [] else [bs]), inpEnd = EOF, early = False\<rparr>"

lemma wholeStream_simps [simp]:
  "wf_inp (wholeStream bs)" "inpContent (wholeStream bs) = bs" "inpEnd (wholeStream bs) = EOF"
  "\<not> early (wholeStream bs)"
  by (auto simp: wholeStream_def wf_inp_def inpContent_def)

text \<open>Every particle carries the whole document; the encoder reads it byte by byte.\<close>

definition mirrorEncoder :: "nat encoder" where
  "mirrorEncoder n r =
     (case drain (doc_Read strip_Read) (replicate (Suc (docGas r)) 1) r of
        (r', bs, e) \<Rightarrow>
          if e = Some EOF then (mirrored bs, Inr \<lparr>metaSHA256 = [], metaBytes = int (length bs), metaFooters = []\<rparr>)
          else (\<lambda>k. [], Inl (Errorf ''document'')))"

lemma mirror_codec: "codec_restores sample_module mirrorEncoder mirrorDecoder"
  unfolding codec_restores_def
proof (intro allI impI)
  fix n r d
  assume r: "readsDoc d r"
  have "\<forall>k \<in> set (replicate (Suc (docGas r)) 1). 0 < (k :: nat)" by auto
  with r obtain r' where "drain (doc_Read strip_Read) (replicate (Suc (docGas r)) 1) r = (r', d, Some EOF)"
    unfolding readsDoc_def by (metis length_replicate lessI)
  then have "mirrorEncoder n r = (mirrored d, Inr \<lparr>metaSHA256 = [], metaBytes = int (length d), metaFooters = []\<rparr>)"
    by (simp add: mirrorEncoder_def del: replicate_Suc)
  moreover have "\<forall>k \<in> all_kinds. footerSize sample_module \<le> length (mirrored d k)"
    by (simp add: mirrored_def sample_module_def)
  ultimately show "\<exists>particles meta. mirrorEncoder n r = (particles, Inr meta) \<and> metaBytes meta = int (length d) \<and>
      (\<forall>k \<in> all_kinds. footerSize sample_module \<le> length (particles k)) \<and> restores sample_module mirrorDecoder particles d"
    using mirrorDecoder_restores by auto
qed

end
