(* ===== verification/Backpressure.thy ===== *)
theory Backpressure
  imports Upload
begin

text \<open>
  An upload against a server that reads it (\<open>internal/client/merge.go\<close> on one side, the stream
  decoder behind \<open>internal/server/merge.go\<close> on the other).  A connection holds at most \<open>cap\<close>
  bytes that were written and not yet read, in all the buffers between the two programs, and
  a write waits for room.  The decoder works in constant memory, whatever the size of the
  document: it never has read more than \<open>ahead\<close> bytes of one stream beyond another one that
  has not ended.  No connection fails here; the question is whether the upload returns.
\<close>

section \<open>The two sides\<close>

record flow =
  flowUp :: upload
  flowRead :: "particle_kind \<Rightarrow> nat"

definition startFlow :: "pcs_module \<Rightarrow> flow" where
  "startFlow M = \<lparr>flowUp = newUpload M, flowRead = (\<lambda>k. 0)\<rparr>"

definition roomFor :: "nat \<Rightarrow> (particle_kind \<Rightarrow> nat) \<Rightarrow> upload \<Rightarrow> bool" where
  "roomFor cap rd u \<longleftrightarrow> (\<forall>k. length (stream u k) \<le> rd k + cap)"

definition noFailure :: "upload \<Rightarrow> bool" where
  "noFailure u \<longleftrightarrow> errCh u = [] \<and> (\<forall>e. phase u \<noteq> UploadReturned (Some e))"

definition ended :: "flow \<Rightarrow> particle_kind \<Rightarrow> bool" where
  "ended s k \<longleftrightarrow> closed (flowUp s) k \<and> flowRead s k = length (stream (flowUp s) k)"

inductive flow_step :: "pcs_module \<Rightarrow> (particle_kind \<Rightarrow> bool) \<Rightarrow> (particle_kind \<Rightarrow> bytes) \<Rightarrow> nat \<Rightarrow> nat
    \<Rightarrow> flow \<Rightarrow> flow \<Rightarrow> bool" for M send data cap ahead where
  client: "upload_step M send data (flowUp s) u \<Longrightarrow> noFailure u \<Longrightarrow> roomFor cap (flowRead s) u \<Longrightarrow>
    flow_step M send data cap ahead s (s\<lparr>flowUp := u\<rparr>)"
| server: "k \<in> all_kinds \<Longrightarrow> send k \<Longrightarrow> flowRead s k < m \<Longrightarrow> m \<le> length (stream (flowUp s) k) \<Longrightarrow>
    \<forall>j \<in> all_kinds. send j \<longrightarrow> ended s j \<or> m \<le> flowRead s j + ahead \<Longrightarrow>
    flow_step M send data cap ahead s (s\<lparr>flowRead := (flowRead s)(k := m)\<rparr>)"

inductive_cases flow_stepE: "flow_step M send data cap ahead s s'"

text \<open>What the client does in a flow, the upload alone can do.\<close>

lemma flow_upload:
  "rtranclp (flow_step M send data cap ahead) (startFlow M) s \<Longrightarrow>
   rtranclp (upload_step M send data) (newUpload M) (flowUp s)"
proof (induction rule: rtranclp_induct)
  case base
  show ?case by (simp add: startFlow_def)
next
  case (step s s')
  then show ?case by (auto elim!: flow_stepE)
qed

definition flow_invar :: "nat \<Rightarrow> flow \<Rightarrow> bool" where
  "flow_invar cap s \<longleftrightarrow> noFailure (flowUp s) \<and> roomFor cap (flowRead s) (flowUp s) \<and>
     (\<forall>k. flowRead s k \<le> length (stream (flowUp s) k))"

lemma upload_stream_grows:
  "streams_invar data u \<Longrightarrow> upload_step M send data u u' \<Longrightarrow> length (stream u k) \<le> length (stream u' k)"
  by (erule upload_stepE) (auto simp: streams_invar_def split: task.splits)

lemma flow_run:
  assumes "pcs_contract M" "rtranclp (flow_step M send data cap ahead) (startFlow M) s"
  shows "flow_invar cap s"
  using assms(2)
proof (induction rule: rtranclp_induct)
  case base
  show ?case by (simp add: flow_invar_def startFlow_def newUpload_def noFailure_def roomFor_def)
next
  case (step s s')
  note inv = upload_run(1) [OF assms(1) flow_upload [OF step(1)]]
  from step(2) show ?case
  proof (cases rule: flow_step.cases)
    case (client u)
    with step.IH upload_stream_grows [OF inv] show ?thesis
      by (auto simp: flow_invar_def intro: order_trans)
  next
    case (server k m)
    with step.IH show ?thesis by (auto simp: flow_invar_def roomFor_def intro: le_trans)
  qed
qed

section \<open>It ends\<close>

definition unread :: "flow \<Rightarrow> nat" where
  "unread s = (\<Sum>k \<in> all_kinds. length (stream (flowUp s) k) - flowRead s k)"

lemma finite_all_kinds [simp]: "finite all_kinds"
  by (simp add: all_kinds_def)

lemma flow_step_wf: "wfp (\<lambda>s' s. flow_step M send data cap ahead s s')"
proof (rule wfp_if_convertible_to_wfp)
  let ?r = "less_than <*lex*> less_than <*lex*> less_than"
  show "wfp (\<lambda>a b. (a, b) \<in> ?r)"
    using wf_lex_prod [OF wf_less_than wf_lex_prod [OF wf_less_than wf_less_than]] by (simp add: wfp_def)
  show "((phaseLeft (phase (flowUp s')), tasksLeft M data (flowUp s'), unread s'),
      (phaseLeft (phase (flowUp s)), tasksLeft M data (flowUp s), unread s)) \<in> ?r"
    if "flow_step M send data cap ahead s s'" for s' s
    using that
  proof (cases rule: flow_step.cases)
    case (client u)
    with upload_step_decreases [OF client(2)] show ?thesis by auto
  next
    case (server k m)
    have "unread s' < unread s"
      unfolding unread_def by (rule sum_strict_mono_ex1) (use server in auto)
    with server(1) show ?thesis by simp
  qed
qed

section \<open>Recovery merges\<close>

text \<open>
  While a parity stream that is to be sent has not begun, the server stays within \<open>ahead\<close>
  bytes on the others.
\<close>

definition stalled :: "(particle_kind \<Rightarrow> bool) \<Rightarrow> nat \<Rightarrow> particle_kind \<Rightarrow> flow \<Rightarrow> bool" where
  "stalled send ahead p s \<longleftrightarrow>
     ((\<exists>ks. phase (flowUp s) = ClosingOmitted ks) \<or> phase (flowUp s) = CorePhase) \<and>
     task (flowUp s) p = Writing 0 \<and> flowRead s p = 0 \<and> (\<forall>k. send k \<longrightarrow> flowRead s k \<le> ahead)"

lemma cores_not_done:
  assumes inv: "streams_invar data u" "closed_invar send u" and "errCh u = []"
    and k: "k \<in> set (CoreParticleKinds M)" "send k" "length (stream u k) < length (data k)" and "phase u = CorePhase"
  shows "\<not> phaseDone M send u"
proof
  assume "phaseDone M send u"
  then have "task u k = Closed"
    using phaseDone_closed [OF _ inv(2) assms(3)] k(1,2) assms(7) by (simp add: phaseKinds_def)
  with closed_stream_complete [OF inv(1)] k(3) show False by simp
qed

lemma stalled_step:
  assumes M: "pcs_contract M" and p: "p = CypherParity \<or> p = NoiseParity" "send p"
    and k: "k \<in> core_kinds" "send k" "cap + ahead < length (data k)"
    and reach: "rtranclp (flow_step M send data cap ahead) (startFlow M) s"
    and st: "stalled send ahead p s" "flow_step M send data cap ahead s s'"
  shows "stalled send ahead p s'"
  using st(2)
proof (cases rule: flow_step.cases)
  case (client u)
  note inv = upload_run [OF M flow_upload [OF reach]] and fl = flow_run [OF M reach]
  have core: "p \<notin> set (CoreParticleKinds M)" "k \<in> set (CoreParticleKinds M)"
    using p(1) k(1) pcs_contract_core [OF M] by (auto simp: core_kinds_def)
  have "length (stream (flowUp s) k) \<le> flowRead s k + cap" "errCh (flowUp s) = []"
    using fl by (auto simp: flow_invar_def roomFor_def noFailure_def)
  moreover have "flowRead s k \<le> ahead" using st(1) k(2) by (simp add: stalled_def)
  ultimately have "length (stream (flowUp s) k) < length (data k)" using k(3) by linarith
  from cores_not_done [OF inv(1,2) \<open>errCh (flowUp s) = []\<close> core(2) k(2) this]
  have "phase (flowUp s) = CorePhase \<Longrightarrow> \<not> phaseDone M send (flowUp s)" .
  with client st(1) core(1) show ?thesis
    by (auto simp: stalled_def noFailure_def phaseKinds_def elim!: upload_stepE)
next
  case (server j m)
  note inv = upload_run [OF M flow_upload [OF reach]]
  have "p \<in> all_kinds" using p(1) by (auto simp: all_kinds_def)
  moreover have idle: "stream (flowUp s) p = []" "\<not> ended s p"
    using st(1) p(2) inv(2) idle_stream_empty [OF inv(1)] by (auto simp: stalled_def ended_def closed_invar_def)
  ultimately have "m \<le> ahead" using server st(1) p(2) by (auto simp: stalled_def)
  moreover have "j \<noteq> p" using server idle by auto
  ultimately show ?thesis using server st(1) by (auto simp: stalled_def)
qed

lemma recovery_stalls:
  assumes "pcs_contract M" "p = CypherParity \<or> p = NoiseParity" "send p"
    and "k \<in> core_kinds" "send k" "cap + ahead < length (data k)"
    and "rtranclp (flow_step M send data cap ahead) (startFlow M) s"
  shows "stalled send ahead p s"
  using assms(7)
proof (induction rule: rtranclp_induct)
  case base
  show ?case by (simp add: stalled_def startFlow_def newUpload_def)
next
  case (step s s')
  from stalled_step [OF assms(1-6) step(1,3,2)] show ?case .
qed

section \<open>Uploads that return\<close>

definition inBounds :: "(particle_kind \<Rightarrow> bytes) \<Rightarrow> upload \<Rightarrow> bool" where
  "inBounds data u \<longleftrightarrow> (\<forall>k n. task u k = Writing n \<longrightarrow> n \<le> length (data k))"

lemma upload_inBounds:
  "rtranclp (upload_step M send data) (newUpload M) u \<Longrightarrow> inBounds data u"
proof (induction rule: rtranclp_induct)
  case (step u u')
  from step(2,3) show ?case by (elim upload_stepE) (auto simp: inBounds_def split: if_splits)
qed (simp add: inBounds_def newUpload_def)

text \<open>A flow in which neither side can go on.\<close>

definition stuck :: "pcs_module \<Rightarrow> (particle_kind \<Rightarrow> bool) \<Rightarrow> (particle_kind \<Rightarrow> bytes) \<Rightarrow> nat \<Rightarrow> nat
    \<Rightarrow> flow \<Rightarrow> bool" where
  "stuck M send data cap ahead s \<longleftrightarrow> (\<forall>s'. \<not> flow_step M send data cap ahead s s')"

lemma stuck_client:
  assumes "stuck M send data cap ahead s" "upload_step M send data (flowUp s) u" "noFailure u"
  shows "\<exists>k. flowRead s k + cap < length (stream u k)"
  using assms flow_step.client [OF assms(2,3)] unfolding stuck_def roomFor_def by (meson not_less)

lemma stuck_quiet:
  assumes "stuck M send data cap ahead s" "flow_invar cap s" "upload_step M send data (flowUp s) u" "noFailure u"
  shows "stream u \<noteq> stream (flowUp s)"
proof -
  obtain k where "flowRead s k + cap < length (stream u k)" using stuck_client [OF assms(1,3,4)] by blast
  moreover have "length (stream (flowUp s) k) \<le> flowRead s k + cap"
    using assms(2) by (simp add: flow_invar_def roomFor_def)
  ultimately show ?thesis by auto
qed

text \<open>The server is not held up by the stream it is furthest behind on.\<close>

lemma stuck_server:
  assumes "stuck M send data cap ahead s" "flow_invar cap s" "0 < ahead"
    and "j \<in> all_kinds" "send j" "\<not> ended s j"
    and behind: "\<forall>i \<in> all_kinds. send i \<and> \<not> ended s i \<longrightarrow> flowRead s j \<le> flowRead s i"
  shows "flowRead s j = length (stream (flowUp s) j)"
proof (rule ccontr)
  assume "flowRead s j \<noteq> length (stream (flowUp s) j)"
  then have "Suc (flowRead s j) \<le> length (stream (flowUp s) j)"
    using assms(2) by (simp add: flow_invar_def Suc_le_eq le_neq_implies_less)
  moreover have "\<forall>i \<in> all_kinds. send i \<longrightarrow> ended s i \<or> Suc (flowRead s j) \<le> flowRead s i + ahead"
    using behind assms(3) by fastforce
  ultimately show False
    using assms(1) flow_step.server [where s = s and k = j and m = "Suc (flowRead s j)", OF assms(4)] assms(5) unfolding stuck_def by blast
qed

lemma furthest_behind:
  assumes "k \<in> all_kinds" "send k" "\<not> ended s k"
  obtains j where "j \<in> all_kinds" "send j" "\<not> ended s j"
    "\<forall>i \<in> all_kinds. send i \<and> \<not> ended s i \<longrightarrow> flowRead s j \<le> flowRead s i"
proof -
  let ?P = "\<lambda>j. j \<in> all_kinds \<and> send j \<and> \<not> ended s j"
  have "?P k" using assms by simp
  from ex_has_least_nat [where P = ?P and m = "flowRead s", OF this] that show ?thesis by blast
qed

text \<open>A goroutine that has not finished waits for room.\<close>

lemma stuck_writer:
  assumes st: "stuck M send data cap ahead s" and fl: "flow_invar cap s"
    and inv: "streams_invar data (flowUp s)" "closed_invar send (flowUp s)" "inBounds data (flowUp s)"
    and k: "k \<in> set (phaseKinds M (phase (flowUp s)))" "send k" "task (flowUp s) k \<noteq> Closed"
  shows "flowRead s k + cap = length (stream (flowUp s) k) \<and> length (stream (flowUp s) k) < length (data k)"
proof -
  let ?u = "flowUp s"
  have ok: "errCh ?u = []" "\<forall>e. phase ?u \<noteq> UploadReturned (Some e)"
    using fl by (auto simp: flow_invar_def noFailure_def)
  have "task ?u k \<noteq> Failed" using inv(2) ok(1) by (auto simp: closed_invar_def)
  moreover have "task ?u k \<noteq> Written"
    using stuck_quiet [OF st fl upload_step.close_stream [where k = k and send = send, OF k(1,2)]] ok by (auto simp: noFailure_def)
  ultimately obtain n where n: "task ?u k = Writing n" using k(3) by (cases "task ?u k") auto
  have "n \<noteq> length (data k)"
    using stuck_quiet [OF st fl upload_step.put_all [where k = k and send = send, OF k(1,2)]] ok n by (auto simp: noFailure_def)
  then have less: "n < length (data k)" using inv(3) n by (auto simp: inBounds_def le_neq_implies_less)
  then have len: "length (stream ?u k) = n" using inv(1) n by (auto simp: streams_invar_def split: task.splits)
  let ?v = "?u\<lparr>task := (task ?u)(k := Writing (Suc n)), stream := (stream ?u)(k := take (Suc n) (data k))\<rparr>"
  have put: "upload_step M send data ?u ?v" by (rule upload_step.put [where k = k and send = send, OF k(1,2) n]) (use less in simp_all)
  moreover have "noFailure ?v" using ok by (simp add: noFailure_def)
  ultimately obtain j where "flowRead s j + cap < length (stream ?v j)" using stuck_client [OF st] by blast
  moreover have "length (stream ?u j) \<le> flowRead s j + cap" using fl by (simp add: flow_invar_def roomFor_def)
  ultimately have "j = k \<and> flowRead s k + cap < Suc n" using less by (auto split: if_splits)
  moreover have "n \<le> flowRead s k + cap" using fl len by (metis flow_invar_def roomFor_def)
  ultimately show ?thesis using len less by simp
qed

lemma stuck_waits:
  assumes st: "stuck M send data cap ahead s" "flow_invar cap s" "0 < ahead" and k: "k \<in> all_kinds" "send k"
    and every: "\<And>j. j \<in> all_kinds \<Longrightarrow> send j \<Longrightarrow> \<not> closed (flowUp s) j \<Longrightarrow> flowRead s j < length (stream (flowUp s) j)"
  shows "ended s k"
proof (rule ccontr)
  assume "\<not> ended s k"
  from furthest_behind [where send = send, OF k this] obtain j where j: "j \<in> all_kinds" "send j" "\<not> ended s j"
    "\<forall>i \<in> all_kinds. send i \<and> \<not> ended s i \<longrightarrow> flowRead s j \<le> flowRead s i" .
  from stuck_server [OF st j] have "flowRead s j = length (stream (flowUp s) j)" .
  with every [OF j(1,2)] j(3) show False by (auto simp: ended_def)
qed

text \<open>A phase in which all streams that are still open can be written comes to its end.\<close>

lemma stuck_phase_done:
  assumes M: "pcs_contract M" and reach: "rtranclp (flow_step M send data cap ahead) (startFlow M) s"
    and st: "stuck M send data cap ahead s" and pos: "0 < cap" "0 < ahead"
    and own: "\<And>j. j \<in> all_kinds \<Longrightarrow> send j \<Longrightarrow> \<not> closed (flowUp s) j \<Longrightarrow> j \<in> set (phaseKinds M (phase (flowUp s)))"
  shows "phaseDone M send (flowUp s)"
proof (rule ccontr)
  let ?u = "flowUp s"
  note up = flow_upload [OF reach]
  note inv = upload_run [OF M up] and fl = flow_run [OF M reach]
  note writer = stuck_writer [OF st fl inv(1,2) upload_inBounds [OF up]]
  assume "\<not> phaseDone M send ?u"
  then obtain k where k: "k \<in> set (phaseKinds M (phase ?u))" "send k" "task ?u k \<noteq> Closed"
    by (auto simp: phaseDone_def)
  have "task ?u j \<noteq> Closed" if "send j" "\<not> closed ?u j" for j
    using inv(2) that by (auto simp: closed_invar_def)
  then have every: "flowRead s j < length (stream ?u j)" if "j \<in> all_kinds" "send j" "\<not> closed ?u j" for j
    using writer [of j] own that pos(1) by force
  have "k \<in> all_kinds"
    using k(1) all_kinds_upload [OF M, of k] by (auto simp: phaseKinds_def split: upload_phase.splits)
  then have "ended s k" using stuck_waits [OF st fl pos(2) _ k(2)] every by blast
  with inv(2) k(2,3) show False by (simp add: ended_def closed_invar_def)
qed

lemma stuck_not_closing:
  assumes "stuck M send data cap ahead s" "flow_invar cap s"
  shows "phase (flowUp s) \<noteq> ClosingOmitted ks"
proof
  assume p: "phase (flowUp s) = ClosingOmitted ks"
  have ok: "errCh (flowUp s) = []" using assms(2) by (simp add: flow_invar_def noFailure_def)
  show False
  proof (cases ks)
    case Nil
    with stuck_quiet [OF assms upload_step.omitted] p ok show False by (auto simp: noFailure_def)
  next
    case (Cons k ks')
    with stuck_quiet [OF assms upload_step.keep [of _ k ks']] stuck_quiet [OF assms upload_step.omit [of _ k ks']] p ok
    show False by (cases "send k") (auto simp: noFailure_def)
  qed
qed

lemma stuck_has_returned:
  assumes M: "pcs_contract M" and reach: "rtranclp (flow_step M send data cap ahead) (startFlow M) s"
    and st: "stuck M send data cap ahead s" and pos: "0 < cap" "0 < ahead"
    and small: "(\<forall>p \<in> set parityParticleKinds. \<not> send p) \<or> (\<forall>k \<in> core_kinds. length (data k) \<le> cap)"
  shows "phase (flowUp s) = UploadReturned None \<and> (\<forall>k \<in> all_kinds. send k \<longrightarrow> ended s k)"
proof -
  let ?u = "flowUp s"
  note up = flow_upload [OF reach]
  note inv = upload_run [OF M up] and fl = flow_run [OF M reach]
  note writer = stuck_writer [OF st fl inv(1,2) upload_inBounds [OF up]]
  have ok: "errCh ?u = []" "\<forall>e. phase ?u \<noteq> UploadReturned (Some e)"
    using fl by (auto simp: flow_invar_def noFailure_def)
  have closed: "closed ?u k" if "send k" "task ?u k = Closed" for k
    using inv(2) that by (simp add: closed_invar_def)
  have kinds: "k \<in> all_kinds \<longleftrightarrow> k \<in> set (CoreParticleKinds M) \<or> k \<in> set parityParticleKinds" for k
    using all_kinds_upload [OF M, of k] by simp
  have not_core: "phase ?u \<noteq> CorePhase"
  proof
    assume p: "phase ?u = CorePhase"
    then have open_core: "\<not> phaseDone M send ?u"
      using stuck_quiet [OF st fl upload_step.cores_done [OF p]] ok by (auto simp: noFailure_def)
    then obtain k where k: "k \<in> set (phaseKinds M (phase ?u))" "send k" "task ?u k \<noteq> Closed"
      by (auto simp: phaseDone_def)
    then have "k \<in> core_kinds" using p pcs_contract_core [OF M] by (simp add: phaseKinds_def)
    then have "\<forall>q \<in> set parityParticleKinds. \<not> send q" using small writer [OF k] by fastforce
    with stuck_phase_done [OF M reach st pos] open_core kinds p show False by (auto simp: phaseKinds_def)
  qed
  have not_parity: "phase ?u \<noteq> ParityPhase"
  proof
    assume p: "phase ?u = ParityPhase"
    have "\<not> phaseDone M send ?u"
      using stuck_quiet [OF st fl upload_step.parities_done [OF p]] ok by (auto simp: noFailure_def firstErr_def)
    moreover have "closed ?u j" if "j \<in> set (CoreParticleKinds M)" "send j" for j
      using inv(4) p that closed by (auto simp: order_invar_def)
    ultimately show False using stuck_phase_done [OF M reach st pos] kinds p by (auto simp: phaseKinds_def)
  qed
  from stuck_not_closing [OF st fl] not_core not_parity ok(2) have ret: "phase ?u = UploadReturned None"
    by (cases "phase ?u") auto
  have "closed ?u j" if "j \<in> all_kinds" "send j" for j
    using inv(4) ret that kinds closed by (auto simp: order_invar_def)
  with stuck_waits [OF st fl pos(2)] ret show ?thesis by blast
qed

section \<open>Plans\<close>

lemma plan_with_parity:
  assumes "pcs_contract M" "mergeSendPlanFrom M (Some present) missing = Inr plan"
    and "p = CypherParity \<or> p = NoiseParity" "mget (Send plan) p"
  shows "\<exists>k \<in> core_kinds. mget (Send plan) k"
  using mergeSendPlanFrom_InrD [OF assms(1,2)] assms(3,4)
  by (auto simp: buildPlan_send sendCore_def core_kinds_def)

text \<open>
  C5: A recovery merge of a large document never returns.  The client writes the parity stream
  only when its core streams are written completely, and the server cannot read the core
  streams to their end without the parity: once the core particles are longer than the
  buffers between the two programs and what the decoder reads ahead, the upload of every plan
  that sends a parity stream stops for ever, in each of its interleavings, although no
  connection fails; there is no deadline on the data connections.
\<close>

theorem recovery_upload_deadlocks:
  assumes "pcs_contract M" "mergeSendPlanFrom M (Some present) missing = Inr plan"
    and "p = CypherParity \<or> p = NoiseParity" "mget (Send plan) p"
    and "\<forall>k \<in> core_kinds. cap + ahead < length (data k)"
  shows "wfp (\<lambda>s' s. flow_step M (mget (Send plan)) data cap ahead s s') \<and>
    (\<forall>s. rtranclp (flow_step M (mget (Send plan)) data cap ahead) (startFlow M) s \<longrightarrow>
       (\<forall>r. phase (flowUp s) \<noteq> UploadReturned r) \<and> flowRead s p = 0)"
proof -
  obtain k where k: "k \<in> core_kinds" "mget (Send plan) k" using plan_with_parity [OF assms(1-4)] by blast
  have "(\<forall>r. phase (flowUp s) \<noteq> UploadReturned r) \<and> flowRead s p = 0"
    if "rtranclp (flow_step M (mget (Send plan)) data cap ahead) (startFlow M) s" for s
    using recovery_stalls [OF assms(1,3) _ k _ that] assms(4,5) k(1) by (auto simp: stalled_def)
  then show ?thesis using flow_step_wf by blast
qed

text \<open>
  C6: Every other upload returns.  When the plan sends no parity stream, or the core particles
  fit the buffers, every run of client and server ends, and where it ends the upload has
  returned without error and the server has read every stream to its end.
\<close>

theorem upload_against_reader_returns:
  assumes "pcs_contract M" "0 < cap" "0 < ahead"
    and "(\<forall>p \<in> set parityParticleKinds. \<not> send p) \<or> (\<forall>k \<in> core_kinds. length (data k) \<le> cap)"
  shows "wfp (\<lambda>s' s. flow_step M send data cap ahead s s') \<and>
    (\<forall>s. rtranclp (flow_step M send data cap ahead) (startFlow M) s \<and> stuck M send data cap ahead s \<longrightarrow>
       phase (flowUp s) = UploadReturned None \<and> (\<forall>k \<in> all_kinds. send k \<longrightarrow> ended s k))"
  using flow_step_wf stuck_has_returned [OF assms(1) _ _ assms(2-4)] by blast

section \<open>Concrete uploads\<close>

definition five_bytes :: "particle_kind \<Rightarrow> bytes" where
  "five_bytes k = ''bytes''"

text \<open>A plan without the even cypher, over connections that hold two bytes.\<close>

definition gapPlan :: merge_send_plan where
  "gapPlan = buildPlan (\<lambda>_. Some True) [EvenCypher \<mapsto> True]"

lemma gapPlan_ok: "mergeSendPlanFrom sample_module (Some (\<lambda>_. Some True)) [EvenCypher \<mapsto> True] = Inr gapPlan"
  unfolding gapPlan_def
  by (rule mergeSendPlanFrom_ok [OF sample_module_contract]) (simp_all add: mget_def)

lemma gapPlan_parity: "mget (Send gapPlan) CypherParity"
proof -
  have "mget (\<lambda>_. Some True) k" for k :: particle_kind by (simp add: mget_def)
  then show ?thesis by (simp add: gapPlan_def buildPlan_send sendCore_def)
qed

theorem recovery_upload_deadlocks_witness:
  "\<exists>s. rtranclp (flow_step sample_module (mget (Send gapPlan)) five_bytes 2 2) (startFlow sample_module) s \<and>
     stuck sample_module (mget (Send gapPlan)) five_bytes 2 2 s \<and> phase (flowUp s) \<noteq> UploadReturned None \<and>
     flowRead s CypherParity = 0"
proof -
  have "\<forall>k \<in> core_kinds. 2 + 2 < length (five_bytes k)" by (simp add: five_bytes_def)
  from recovery_upload_deadlocks [OF sample_module_contract gapPlan_ok disjI1 [OF refl] gapPlan_parity this]
    run_ends [of "flow_step sample_module (mget (Send gapPlan)) five_bytes 2 2" "startFlow sample_module"]
  show ?thesis unfolding stuck_def by blast
qed

theorem upload_against_reader_returns_witness:
  "\<exists>s. rtranclp (flow_step sample_module (\<lambda>k. k = OddNoise) five_bytes 2 2) (startFlow sample_module) s \<and>
     phase (flowUp s) = UploadReturned None \<and> flowRead s OddNoise = 5"
proof -
  let ?send = "\<lambda>k. k = OddNoise"
  have none: "(\<forall>p \<in> set parityParticleKinds. \<not> ?send p) \<or> (\<forall>k \<in> core_kinds. length (five_bytes k) \<le> 2)"
    by (simp add: parityParticleKinds_def)
  note ends = upload_against_reader_returns [OF sample_module_contract _ _ none, of 2]
  obtain s where s: "rtranclp (flow_step sample_module ?send five_bytes 2 2) (startFlow sample_module) s"
      "stuck sample_module ?send five_bytes 2 2 s"
    using run_ends [of "flow_step sample_module ?send five_bytes 2 2"] flow_step_wf unfolding stuck_def by blast
  then have "phase (flowUp s) = UploadReturned None" "ended s OddNoise"
    using ends by (auto simp: all_kinds_def)
  moreover from this have "stream (flowUp s) OddNoise = five_bytes OddNoise"
    using upload_streams [OF sample_module_contract flow_upload [OF s(1)], of OddNoise] by (simp add: all_kinds_def)
  ultimately show ?thesis using s(1) by (auto simp: ended_def five_bytes_def)
qed

end
