(* ===== verification/SplitFlow.thy ===== *)
theory SplitFlow
  imports Steps Kinds
begin

text \<open>
  A split as an interleaving (\<open>cmd/pcs-split/main.go\<close>, \<open>client/split.go\<close> on one side,
  \<open>server/split.go\<close> on the other): the client sends the document while its six goroutines copy
  the particle streams, and reads the trailer when all of them have ended; the server's encoder
  reads a piece of the document and writes what it gives to the six streams before it reads the
  next.  A connection holds at most \<open>cap\<close> bytes that were written and not yet read, and a
  write waits for room.  The half-close of the particle streams has no effect, since the
  connections of an accepted session are wrapped, so the streams end when the server closes
  the session, after the trailer.  No connection fails; the question is whether \<open>pcs-split\<close>
  comes to its end.  What the two programs send, and that it arrives, is the matter of theory
  \<open>SplitSessions\<close>, where no call waits; here only lengths and their order matter: \<open>len\<close> is that of the document, \<open>full k\<close> that of
  particle \<open>k\<close>, \<open>owed m k\<close> how much of it the first \<open>m\<close> bytes of the document give.
\<close>

section \<open>The two sides\<close>

record split_flow =
  docSent :: nat
  docDone :: bool
  docRead :: nat
  eofSeen :: bool
  written :: "particle_kind \<Rightarrow> nat"
  copied :: "particle_kind \<Rightarrow> nat"
  ctlSent :: nat
  srvClosed :: bool
  trailerRead :: bool

definition startSplit :: split_flow where
  "startSplit = \<lparr>docSent = 0, docDone = False, docRead = 0, eofSeen = False, written = (\<lambda>k. 0),
     copied = (\<lambda>k. 0), ctlSent = 0, srvClosed = False, trailerRead = False\<rparr>"

type_synonym encoding = "nat \<Rightarrow> particle_kind \<Rightarrow> nat"

definition due :: "encoding \<Rightarrow> (particle_kind \<Rightarrow> nat) \<Rightarrow> split_flow \<Rightarrow> particle_kind \<Rightarrow> nat" where
  "due owed full s k = (if eofSeen s then full k else owed (docRead s) k)"

definition paid :: "encoding \<Rightarrow> (particle_kind \<Rightarrow> nat) \<Rightarrow> split_flow \<Rightarrow> bool" where
  "paid owed full s \<longleftrightarrow> (\<forall>k \<in> all_kinds. written s k = due owed full s k)"

text \<open>The client: the upload, the six goroutines \<open>copyTo\<close>, and \<open>ReadTrailer\<close> after \<open>wg.Wait\<close>.\<close>

inductive client_step :: "nat \<Rightarrow> nat \<Rightarrow> split_flow \<Rightarrow> split_flow \<Rightarrow> bool" for len cap where
  send_doc: "docSent s < m \<Longrightarrow> m \<le> len \<Longrightarrow> m \<le> docRead s + cap \<Longrightarrow>
    client_step len cap s (s\<lparr>docSent := m\<rparr>)"
| close_doc: "docSent s = len \<Longrightarrow> \<not> docDone s \<Longrightarrow>
    client_step len cap s (s\<lparr>docDone := True\<rparr>)"
| copy: "k \<in> all_kinds \<Longrightarrow> copied s k < m \<Longrightarrow> m \<le> written s k \<Longrightarrow>
    client_step len cap s (s\<lparr>copied := (copied s)(k := m)\<rparr>)"
| read_trailer: "docDone s \<Longrightarrow> srvClosed s \<Longrightarrow> \<forall>k \<in> all_kinds. copied s k = written s k \<Longrightarrow>
    \<not> trailerRead s \<Longrightarrow> client_step len cap s (s\<lparr>trailerRead := True\<rparr>)"

text \<open>
  The server: \<open>Encode\<close> between the document and the six streams, an argument of the model by
  \<open>owed\<close> and \<open>full\<close>, then the trailer, and the deferred \<open>ports.Close\<close> of \<open>handleSplit\<close>.
\<close>

inductive server_step :: "nat \<Rightarrow> encoding \<Rightarrow> (particle_kind \<Rightarrow> nat) \<Rightarrow> nat
    \<Rightarrow> split_flow \<Rightarrow> split_flow \<Rightarrow> bool" for cap owed full tlen where
  read_doc: "\<not> eofSeen s \<Longrightarrow> paid owed full s \<Longrightarrow> docRead s < m \<Longrightarrow> m \<le> docSent s \<Longrightarrow>
    server_step cap owed full tlen s (s\<lparr>docRead := m\<rparr>)"
| read_eof: "\<not> eofSeen s \<Longrightarrow> paid owed full s \<Longrightarrow> docDone s \<Longrightarrow> docRead s = docSent s \<Longrightarrow>
    server_step cap owed full tlen s (s\<lparr>eofSeen := True\<rparr>)"
| put: "k \<in> all_kinds \<Longrightarrow> written s k < m \<Longrightarrow> m \<le> due owed full s k \<Longrightarrow> m \<le> copied s k + cap \<Longrightarrow>
    server_step cap owed full tlen s (s\<lparr>written := (written s)(k := m)\<rparr>)"
| trailer: "eofSeen s \<Longrightarrow> paid owed full s \<Longrightarrow> ctlSent s < m \<Longrightarrow> m \<le> tlen \<Longrightarrow> m \<le> cap \<Longrightarrow>
    server_step cap owed full tlen s (s\<lparr>ctlSent := m\<rparr>)"
| close_all: "eofSeen s \<Longrightarrow> paid owed full s \<Longrightarrow> ctlSent s = tlen \<Longrightarrow> \<not> srvClosed s \<Longrightarrow>
    server_step cap owed full tlen s (s\<lparr>srvClosed := True\<rparr>)"

inductive split_step :: "nat \<Rightarrow> nat \<Rightarrow> encoding \<Rightarrow> (particle_kind \<Rightarrow> nat) \<Rightarrow> nat
    \<Rightarrow> split_flow \<Rightarrow> split_flow \<Rightarrow> bool" for len cap owed full tlen where
  client: "client_step len cap s s' \<Longrightarrow> split_step len cap owed full tlen s s'"
| server: "server_step cap owed full tlen s s' \<Longrightarrow> split_step len cap owed full tlen s s'"

lemmas split_client = split_step.client [OF client_step.send_doc] split_step.client [OF client_step.close_doc]
  split_step.client [OF client_step.copy] split_step.client [OF client_step.read_trailer]

lemmas split_server = split_step.server [OF server_step.read_doc] split_step.server [OF server_step.read_eof]
  split_step.server [OF server_step.put] split_step.server [OF server_step.trailer]
  split_step.server [OF server_step.close_all]

text \<open>What the encoder owes only grows and is part of the particle.\<close>

definition streaming :: "encoding \<Rightarrow> (particle_kind \<Rightarrow> nat) \<Rightarrow> bool" where
  "streaming owed full \<longleftrightarrow> (\<forall>k. mono (\<lambda>m. owed m k)) \<and> (\<forall>m k. owed m k \<le> full k)"

section \<open>Invariant\<close>

definition split_invar :: "nat \<Rightarrow> nat \<Rightarrow> encoding \<Rightarrow> (particle_kind \<Rightarrow> nat) \<Rightarrow> nat \<Rightarrow> split_flow \<Rightarrow> bool" where
  "split_invar len cap owed full tlen s \<longleftrightarrow>
     docRead s \<le> docSent s \<and> docSent s \<le> len \<and> (docDone s \<longrightarrow> docSent s = len) \<and>
     (eofSeen s \<longrightarrow> docDone s) \<and>
     (\<forall>k. copied s k \<le> written s k \<and> written s k \<le> due owed full s k) \<and>
     ctlSent s \<le> tlen \<and> ctlSent s \<le> cap \<and> (srvClosed s \<longrightarrow> ctlSent s = tlen) \<and> (trailerRead s \<longrightarrow> srvClosed s)"

lemma due_grows:
  assumes "streaming owed full"
  shows "docRead s \<le> m \<Longrightarrow> due owed full s k \<le> due owed full (s\<lparr>docRead := m\<rparr>) k"
    "due owed full s k \<le> full k" "due owed full s k \<le> due owed full (s\<lparr>eofSeen := True\<rparr>) k"
  using assms by (auto simp: streaming_def due_def mono_def)

lemma due_other [simp]:
  "due owed full (s\<lparr>docSent := a\<rparr>) = due owed full s" "due owed full (s\<lparr>docDone := b\<rparr>) = due owed full s"
  "due owed full (s\<lparr>written := w\<rparr>) = due owed full s" "due owed full (s\<lparr>copied := w\<rparr>) = due owed full s"
  "due owed full (s\<lparr>ctlSent := a\<rparr>) = due owed full s" "due owed full (s\<lparr>srvClosed := b\<rparr>) = due owed full s"
  "due owed full (s\<lparr>trailerRead := b\<rparr>) = due owed full s"
  by (simp_all add: due_def fun_eq_iff)

lemma client_step_invar:
  "client_step len cap s s' \<Longrightarrow> split_invar len cap owed full tlen s \<Longrightarrow> split_invar len cap owed full tlen s'"
  by (cases rule: client_step.cases) (auto simp: split_invar_def intro: le_trans)

lemma server_step_invar:
  assumes "server_step cap owed full tlen s s'" "streaming owed full" "split_invar len cap owed full tlen s"
  shows "split_invar len cap owed full tlen s'"
  using assms(1)
proof (cases rule: server_step.cases)
  case (read_doc m)
  with assms(3) due_grows(1) [OF assms(2), of s m] show ?thesis
    by (auto simp: split_invar_def intro: le_trans)
next
  case read_eof
  with assms(3) due_grows(3) [OF assms(2), of s] show ?thesis
    by (auto simp: split_invar_def intro: le_trans)
qed (use assms(3) in \<open>auto simp: split_invar_def intro: le_trans\<close>)

lemma split_step_invar:
  assumes "streaming owed full" "split_invar len cap owed full tlen s" "split_step len cap owed full tlen s s'"
  shows "split_invar len cap owed full tlen s'"
  using assms(3) client_step_invar [OF _ assms(2)] server_step_invar [OF _ assms(1,2)]
  by (cases rule: split_step.cases)

interpretation splitting: invariant_system "split_step len cap owed full tlen"
    "\<lambda>s. s = startSplit \<and> streaming owed full" "\<lambda>s. split_invar len cap owed full tlen s \<and> streaming owed full"
  for len cap owed full tlen
proof unfold_locales
  show "split_invar len cap owed full tlen s \<and> streaming owed full" if "s = startSplit \<and> streaming owed full" for s
    using that by (simp add: split_invar_def startSplit_def)
qed (use split_step_invar in blast)

section \<open>It ends\<close>

definition todo :: "nat \<Rightarrow> (particle_kind \<Rightarrow> nat) \<Rightarrow> nat \<Rightarrow> split_flow \<Rightarrow> nat" where
  "todo len full tlen s =
     (len - docSent s) + (len - docRead s) + (tlen - ctlSent s) +
     (\<Sum>k \<in> all_kinds. full k - written s k) + (\<Sum>k \<in> all_kinds. full k - copied s k) +
     of_bool (\<not> docDone s) + of_bool (\<not> eofSeen s) + of_bool (\<not> srvClosed s) + of_bool (\<not> trailerRead s)"

lemma sum_update_less:
  assumes "k \<in> all_kinds" "g k < m" "m \<le> full k"
  shows "(\<Sum>j \<in> all_kinds. full j - (g(k := m)) j) < (\<Sum>j \<in> all_kinds. full j - g j :: nat)"
  by (rule sum_strict_mono_ex1) (use assms in \<open>auto simp: all_kinds_def\<close>)

lemma split_step_decreases:
  assumes "streaming owed full" "split_invar len cap owed full tlen s" "split_step len cap owed full tlen s s'"
  shows "todo len full tlen s' < todo len full tlen s"
proof -
  have bounds: "written s k \<le> full k" "due owed full s k \<le> full k" for k
    using assms(2) due_grows(2) [OF assms(1), of s k] by (auto simp: split_invar_def intro: le_trans)
  from assms(3) show ?thesis
  proof (cases rule: split_step.cases)
    case client
    then show ?thesis
    proof (cases rule: client_step.cases)
      case (copy k m)
      with sum_update_less [of k "copied s" m full] bounds(1) [of k] show ?thesis by (simp add: todo_def)
    qed (use assms(2) in \<open>auto simp: todo_def split_invar_def\<close>)
  next
    case server
    then show ?thesis
    proof (cases rule: server_step.cases)
      case (put k m)
      with sum_update_less [of k "written s" m full] bounds(2) [of k] show ?thesis by (simp add: todo_def)
    qed (use assms(2) in \<open>auto simp: todo_def split_invar_def\<close>)
  qed
qed

section \<open>Where it ends\<close>

definition split_stuck :: "nat \<Rightarrow> nat \<Rightarrow> encoding \<Rightarrow> (particle_kind \<Rightarrow> nat) \<Rightarrow> nat \<Rightarrow> split_flow \<Rightarrow> bool" where
  "split_stuck len cap owed full tlen s \<longleftrightarrow> (\<forall>s'. \<not> split_step len cap owed full tlen s s')"

lemma stuck_delivered:
  assumes "0 < cap" "split_invar len cap owed full tlen s" "split_stuck len cap owed full tlen s"
  shows "docSent s = len \<and> eofSeen s \<and> (\<forall>k \<in> all_kinds. copied s k = full k) \<and> (trailerRead s \<longleftrightarrow> tlen \<le> cap)"
proof -
  note none = assms(3) [unfolded split_stuck_def, rule_format]
  note inv = assms(2) [unfolded split_invar_def]
  have copied: "copied s k = written s k" if "k \<in> all_kinds" for k
    using none split_client(3) [of k s "written s k", OF that] inv by (meson le_antisym not_le order_refl)
  have written: "written s k = due owed full s k" if k: "k \<in> all_kinds" for k
  proof (rule ccontr)
    assume "written s k \<noteq> due owed full s k"
    moreover have "written s k \<le> due owed full s k" using inv by blast
    ultimately have "Suc (written s k) \<le> due owed full s k" by simp
    with none split_server(3) [of k s "Suc (written s k)" owed full cap] k copied [OF k] assms(1) show False by auto
  qed
  then have paid: "paid owed full s" by (simp add: paid_def)
  have eof: "eofSeen s"
  proof (rule ccontr)
    assume not: "\<not> eofSeen s"
    have "\<not> docRead s < docSent s" using none split_server(1) [OF not paid, of "docSent s"] by blast
    then have even: "docRead s = docSent s" using inv by simp
    have "split_step len cap owed full tlen s (s\<lparr>docSent := Suc (docSent s)\<rparr>)" if "docSent s < len"
      by (rule split_client(1)) (use that even assms(1) in simp_all)
    then have "\<not> docSent s < len" using none by blast
    then have "docSent s = len" using inv by simp
    moreover from this have "docDone s" using none split_client(2) [of s len] by blast
    ultimately show False using none split_server(2) [OF not paid _ even] by blast
  qed
  then have all: "docDone s" "docSent s = len" using inv by auto
  have "trailerRead s" if "tlen \<le> cap"
  proof -
    have "\<not> ctlSent s < tlen" using none split_server(4) [OF eof paid, of tlen] that by blast
    then have "ctlSent s = tlen" using inv by simp
    then have "srvClosed s" using none split_server(5) [OF eof paid] by blast
    then show ?thesis using none split_client(4) [OF all(1)] copied by blast
  qed
  moreover have "tlen \<le> cap" if "trailerRead s" using that inv by auto
  moreover have "copied s k = full k" if "k \<in> all_kinds" for k
    using copied [OF that] written [OF that] eof by (simp add: due_def)
  ultimately show ?thesis using all(2) eof by blast
qed

lemma split_reach:
  "streaming owed full \<Longrightarrow> rtranclp (split_step len cap owed full tlen) startSplit s \<Longrightarrow>
   split_invar len cap owed full tlen s"
  using splitting.reachable_invar [of startSplit owed full len cap tlen s] by simp

lemma split_steps_bounded:
  assumes "streaming owed full" "(split_step len cap owed full tlen ^^ n) startSplit s"
  shows "n + todo len full tlen s \<le> todo len full tlen startSplit"
  using assms(2)
proof (induction n arbitrary: s)
  case (Suc n)
  then obtain s1 where s1: "(split_step len cap owed full tlen ^^ n) startSplit s1"
      "split_step len cap owed full tlen s1 s"
    by auto
  have "split_invar len cap owed full tlen s1" using split_reach [OF assms(1)] s1(1) by (meson relpowp_imp_rtranclp)
  from split_step_decreases [OF assms(1) this s1(2)] Suc.IH [OF s1(1)] show ?case by simp
qed simp

lemma split_ends:
  assumes "streaming owed full" "rtranclp (split_step len cap owed full tlen) startSplit s"
  shows "\<exists>s'. rtranclp (split_step len cap owed full tlen) startSplit s' \<and> split_stuck len cap owed full tlen s'"
  using assms(2)
proof (induction "todo len full tlen s" arbitrary: s rule: less_induct)
  case less
  show ?case
  proof (cases "split_stuck len cap owed full tlen s")
    case False
    then obtain s' where step: "split_step len cap owed full tlen s s'" by (auto simp: split_stuck_def)
    from split_step_decreases [OF assms(1) split_reach [OF assms(1) less.prems] step]
    show ?thesis using less.hyps [of s'] less.prems step by (meson rtranclp.rtrancl_into_rtrancl)
  qed (use less.prems in blast)
qed

text \<open>
  C7: A split against a streaming encoder comes to its end.  Whatever the sizes of the buffers, every
  interleaving of the upload, the six copies and the server stops after a bounded number of
  steps, and where it stops the document is sent and all six streams are copied whole.  The
  trailer has been read then exactly when it fits the buffers of the control connection:
  \<open>pcs-split\<close> reads it when the streams have ended, and they end when the server has written it.
\<close>

theorem split_returns:
  assumes "streaming owed full" "0 < cap"
  shows "(\<forall>n s. (split_step len cap owed full tlen ^^ n) startSplit s \<longrightarrow>
       n \<le> 2 * len + tlen + 2 * (\<Sum>k \<in> all_kinds. full k) + 4) \<and>
    (\<forall>s. rtranclp (split_step len cap owed full tlen) startSplit s \<and> split_stuck len cap owed full tlen s \<longrightarrow>
       docSent s = len \<and> (\<forall>k \<in> all_kinds. copied s k = full k) \<and> (trailerRead s \<longleftrightarrow> tlen \<le> cap))"
proof -
  have "todo len full tlen startSplit = 2 * len + tlen + 2 * (\<Sum>k \<in> all_kinds. full k) + 4"
    by (simp add: todo_def startSplit_def)
  then have "n \<le> 2 * len + tlen + 2 * (\<Sum>k \<in> all_kinds. full k) + 4"
    if "(split_step len cap owed full tlen ^^ n) startSplit s" for n s
    using split_steps_bounded [OF assms(1) that] by linarith
  with stuck_delivered [OF assms(2)] split_reach [OF assms(1)] show ?thesis by blast
qed

text \<open>Five bytes through buffers of two, each particle with a footer of three.\<close>

theorem split_returns_witness:
  "\<exists>s. rtranclp (split_step 5 2 (\<lambda>m k. min m 5) (\<lambda>k. 8) 2) startSplit s \<and> copied s EvenNoise = 8 \<and> trailerRead s"
proof -
  have str: "streaming (\<lambda>m k. min m 5) (\<lambda>k. 8)" by (auto simp: streaming_def mono_def)
  obtain s where s: "rtranclp (split_step 5 2 (\<lambda>m k. min m 5) (\<lambda>k. 8) 2) startSplit s"
      "split_stuck 5 2 (\<lambda>m k. min m 5) (\<lambda>k. 8) 2 s"
    using split_ends [OF str rtranclp.rtrancl_refl, of 5 2 2] by blast
  with split_returns [OF str, of 2 5 2] show ?thesis by (auto simp: all_kinds_def)
qed

end
