(* ===== verification/Sessions.thy ===== *)
theory Sessions
  imports MergeStreams TrailerFits Commands
begin

text \<open>
  Both ends of a merge session: the plans of the two sides, the sources that the server's
  decoder gets for a client's upload, and the session as a whole, from the client's call to
  its return, with the server's handler in between.
\<close>

section \<open>The plans of the two sides\<close>

lemma server_plan:
  assumes "pcs_contract M" "mergeSendPlanFrom M (Some present) (missingMap p) = Inr plan"
  shows "mergeSendPlan M p = Inr (buildPlan fullInventory (missingMap p))"
proof -
  have "\<forall>k \<in> core_kinds. mget (missingMap p) k \<or> mget fullInventory k"
    by (auto simp: core_kinds_def fullInventory_def)
  with mergeSendPlanFrom_InrD [OF assms] show ?thesis
    by (simp add: mergeSendPlan_def pcs_contract_inventory [OF assms(1)] mergeSendPlanFrom_ok [OF assms(1)])
qed

lemma plans_agree:
  assumes "pcs_contract M" "mergeSendPlanFrom M (Some present) (missingMap p) = Inr plan"
  shows "\<exists>splan. mergeSendPlan M p = Inr splan \<and>
    ((\<forall>k. mget (Send splan) k = mget (Send plan) k) \<longleftrightarrow> recoverable (mget (Send plan)))"
proof -
  note client = mergeSendPlanFrom_InrD [OF assms]
  let ?m = "missingMap p"
  have full: "mget fullInventory EvenCypher" "mget fullInventory OddCypher" "mget fullInventory EvenNoise"
      "mget fullInventory OddNoise" "mget fullInventory CypherParity" "mget fullInventory NoiseParity"
    by (simp_all add: fullInventory_def)
  have same: "mget (Send (buildPlan fullInventory ?m)) k = mget (Send plan) k"
    if "k \<noteq> CypherParity" "k \<noteq> NoiseParity" for k
  proof (cases "k \<in> core_kinds")
    case True
    with client(1,4) full show ?thesis
      by (auto simp: buildPlan_core sendCore_def core_kinds_def)
  next
    case False
    with that have "k \<notin> all_kinds" by (auto simp: all_kinds_def core_kinds_def)
    with client(1) show ?thesis by (simp add: buildPlan_other)
  qed
  have cp: "mget (Send (buildPlan fullInventory ?m)) CypherParity \<longleftrightarrow> mget ?m EvenCypher \<or> mget ?m OddCypher"
    and np: "mget (Send (buildPlan fullInventory ?m)) NoiseParity \<longleftrightarrow> mget ?m EvenNoise \<or> mget ?m OddNoise"
    using client(2,3) full by (auto simp: buildPlan_send sendCore_def)
  have "(\<forall>k. mget (Send (buildPlan fullInventory ?m)) k = mget (Send plan) k) \<longleftrightarrow>
      mget (Send (buildPlan fullInventory ?m)) CypherParity = mget (Send plan) CypherParity \<and>
      mget (Send (buildPlan fullInventory ?m)) NoiseParity = mget (Send plan) NoiseParity"
    using same by metis
  also have "\<dots> \<longleftrightarrow> recoverable (mget (Send plan))"
    unfolding cp np using client
    by (auto simp: recoverable_def pairRecoverable_def buildPlan_send sendCore_def core_kinds_def)
  finally show ?thesis
    using server_plan [OF assms] by blast
qed

section \<open>From the upload to the decoder\<close>

lemma merge_sources:
  assumes "pcs_contract M"
    and client: "mergeSendPlanFrom M (Some present) (missingMap profile) = Inr plan" "recoverable (mget (Send plan))"
    and upload: "rtranclp (upload_step M (mget (Send plan)) particles) (newUpload M) u" "phase u = UploadReturned None"
    and network: "arrived token (stream u) cs" "set order = {0..<7}"
    and decoder: "\<forall>k \<in> all_kinds. footerSize M \<le> length (particles k)"
  shows "\<exists>st' sess srcs.
    acceptSession token order (map (\<lambda>c. Some (Inr c)) cs) True st = Some (st', Inr sess) \<and>
    buildMergeSources M sess profile = Inr srcs \<and> recoverable (\<lambda>k. srcs k \<noteq> None) \<and>
    (\<forall>k \<in> all_kinds. srcs k = None \<or> yields (footerSize M) (particles k) (srcs k))"
proof -
  obtain ps where ps: "authPorts token 0 (zip [True, True, True, True, True, True, True] cs) = Inr ps"
      "\<And>i. i < 6 \<Longrightarrow> payOk (ps ! Suc i) \<and> payContent (ps ! Suc i) = stream u (particleKinds ! i) \<and>
         payFinal (ps ! Suc i) = EOF"
    using arrived_authPorts [OF network(1)] by blast
  obtain splan where splan: "mergeSendPlan M profile = Inr splan"
      "\<forall>k. mget (Send splan) k = mget (Send plan) k"
    using plans_agree [OF assms(1) client(1)] client(2) by blast
  obtain srcs where srcs: "buildMergeSources M (portSet ps) profile = Inr srcs"
    using splan(1) by (simp add: buildMergeSources_def)
  have nth: "srcs (particleKinds ! i) = (if mget (Send plan) (particleKinds ! i)
      then Some (newTrailingFooterReader (ps ! Suc i)) else None)" if "i < 6" for i
    using buildMergeSources_nth [OF splan(1) srcs that] splan(2) by simp
  have sent: "srcs k \<noteq> None \<longleftrightarrow> mget (Send plan) k" if k: "k \<in> all_kinds" for k
  proof -
    obtain i where "i < 6" "particleKinds ! i = k" using all_kinds_nth [OF k] by blast
    with nth [of i] show ?thesis by simp
  qed
  have "yields (footerSize M) (particles k) (srcs k)" if k: "k \<in> all_kinds" "mget (Send plan) k" for k
  proof -
    obtain i where i: "i < 6" "particleKinds ! i = k" using all_kinds_nth [OF k(1)] by blast
    have "stream u k = particles k"
      using upload_streams [OF assms(1) upload k(1)] k(2) by simp
    with ps(2) [OF i(1)] i nth [OF i(1)] k decoder source_yields show ?thesis by simp
  qed
  then have yields: "\<forall>k \<in> all_kinds. srcs k = None \<or> yields (footerSize M) (particles k) (srcs k)"
    using sent by blast
  have "recoverable (\<lambda>k. srcs k \<noteq> None)"
    using client(2) sent unfolding recoverable_def pairRecoverable_def all_kinds_def by blast
  moreover have "length cs = 7" using network(1) by (simp add: arrived_def)
  ultimately show ?thesis
    using ps(1) srcs yields unfolding acceptSession_ok [OF \<open>length cs = 7\<close> network(2)] by auto
qed

section \<open>The handler of a merge ends with a trailer\<close>

text \<open>With room on the control connection, and a codec that returns what its types allow.\<close>

lemma handleMerge_trailer:
  assumes srcs: "buildMergeSources M sess profile = Inr srcs" "recoverable (\<lambda>k. srcs k \<noteq> None)"
      "\<forall>k \<in> all_kinds. srcs k = None \<or> yields (footerSize M) (particles k) (srcs k)"
    and dec: "restores M dec particles d" "\<forall>meta. codecReturns enc dec meta \<longrightarrow> footersSound F meta"
    and room: "length d \<le> quota (docOut io)" "cfgMaxObjectSize cfg \<le> 0" "2 ^ 20 + 8 \<le> quota (ctl io)"
      "length d < 2 ^ 63"
  shows "\<exists>io' stats t meta. handleMerge M F (goJson errText) dec cfg sess profile io = (io', stats, None) \<and>
    metaSound F meta \<and> t \<in> serverTrailers M F meta \<and> trMode t = ModeMerge \<and> trBytesProcessed t = int (length d) \<and>
    ctl io' = wroteTo (ctl io) (trailerFrame (trailerJson t)) \<and>
    sent (docOut io') = sent (docOut io) @ d \<and> statBytes stats = int (length d)"
proof -
  obtain meta where meta: "dec (cfgChunkSize cfg) srcs (UnlimitedW (docOut io)) =
      (UnlimitedW (wroteTo (docOut io) d), Inr meta)" "metaBytes meta = int (length d)"
    using dec(1) srcs room(1) unfolding restores_def by blast
  then have "codecReturns enc dec meta" unfolding codecReturns_def by blast
  then have sound: "metaSound F meta"
    using dec(2) meta(2) room(4) by (simp add: metaSound_def is_int64_def)
  define recs where "recs = (if MissingMask profile = 0 then [] else [''parity recovery used''])"
  let ?t = "buildTrailerFromDecodeMeta M F ModeMerge meta recs"
  have t: "?t \<in> serverTrailers M F meta" by (simp add: serverTrailers_def recs_def)
  let ?io2 = "io\<lparr>docOut := wroteTo (docOut io) d, halfClosed := insert 0 (halfClosed io)\<rparr>"
  have send: "sendTrailer (goJson errText) ?t ?io2 =
      (?io2\<lparr>ctl := wroteTo (ctl io) (trailerFrame (trailerJson ?t))\<rparr>, None)"
    using sendTrailer_room [of "goJson errText" ?t ?io2] server_frame_length [OF sound t] room(3)
    by (simp add: server_trailer_text(1) [OF sound t])
  show ?thesis
    using meta srcs(1) room(2) send sound t built_trailers(3,4) [of M F ModeMerge meta recs]
    by (intro exI [of _ "closeSession (?io2\<lparr>ctl := wroteTo (ctl io) (trailerFrame (trailerJson ?t))\<rparr>)"]
        exI [of _ "noStats\<lparr>statMode := ModeMerge, statRecoveries := recs, statBytes := metaBytes meta, statHashValid := Some True\<rparr>"]
        exI [of _ ?t] exI [of _ meta])
      (auto simp: handleMerge_def mergeStreaming_def limitedDocWriter_def Let_def noStats_def closeSession_def recs_def)
qed

section \<open>A merge from the client's call to its return\<close>

text \<open>
  What the network does for one session.  \<open>reachable\<close>: the client's dials succeed and its writes
  of the hello and the token have room.  \<open>controlAnswered\<close>: what the server sends on the control
  connection arrives, the invitation before the last frame, since the server writes the frame
  when the data connections are there.  \<open>answered\<close>: and what it sends on the document
  connection arrives and then its end.
\<close>

definition reachable :: "client_env \<Rightarrow> bytes \<Rightarrow> bytes \<Rightarrow> bool" where
  "reachable env hello token \<longleftrightarrow>
     (\<exists>w r d. ceControl env = Inr (w, r) \<and> length hello \<le> quota w \<and>
        (\<forall>n < 7. ceDial env n = Inr (d n) \<and> length token \<le> quota (d n)))"

definition controlAnswered :: "client_env \<Rightarrow> bytes \<Rightarrow> bytes \<Rightarrow> bool" where
  "controlAnswered env invite frame \<longleftrightarrow>
     (\<exists>w r pre post. ceControl env = Inr (w, r) \<and> wf_inp r \<and> chunks r = pre @ post \<and> concat pre = invite \<and>
        concat post = frame)"

definition answered :: "client_env \<Rightarrow> bytes \<Rightarrow> bytes \<Rightarrow> bytes \<Rightarrow> bool" where
  "answered env invite frame doc \<longleftrightarrow> controlAnswered env invite frame \<and>
     wf_inp (ceDocIn env) \<and> inpContent (ceDocIn env) = doc \<and> inpEnd (ceDocIn env) = EOF"

lemma nospace_newline: "nospace w \<Longrightarrow> newline \<notin> set w"
  by (induction w) (auto simp: asciiSpace_def)

lemma opened_session:
  assumes "invMode i = mode" "mode = ModeSplit \<or> mode = ModeMerge" "nospace (invToken i)" "invToken i \<noteq> []"
    and "\<forall>p \<in> set (portList (invPorts i)). is_int64 p"
    and "Token c = [] \<or> Token c = invToken i"
    and "reachable env (clientHello mode profile) (invToken i)" "controlAnswered env (formatInvitation i) frame" "frame \<noteq> []"
  shows "\<exists>st sess. openSession c mode profile (ceControl env) (ceDial env) noNet = (True, st, Inr sess) \<and>
    wf_inp (csIn sess) \<and> inpContent (csIn sess) = frame \<and>
    csData sess = map (\<lambda>n. Some (wroteTo (projr (ceDial env n)) (invToken i))) [0..<7] \<and>
    sent (csOut sess) = sent (fst (projr (ceControl env))) @ clientHello mode profile"
proof -
  obtain w r pre post where r: "ceControl env = Inr (w, r)" "wf_inp r" "chunks r = pre @ post"
      "concat pre = formatInvitation i" "concat post = frame"
    using assms(8) by (auto simp: controlAnswered_def)
  obtain d where d: "length (clientHello mode profile) \<le> quota w"
      "\<forall>n < 7. ceDial env n = Inr (d n) \<and> length (invToken i) \<le> quota (d n)"
    using assms(7) r(1) by (auto simp: reachable_def)
  have content: "inpContent r = formatInvitation i @ frame" using r(3-5) by (simp add: inpContent_def)
  have "strFields (invToken i) = [invToken i]" using strFields_word [OF assms(3,4)] .
  then have inv: "snd (readInvitation r) = Inr i"
    using readInvitation_formatted [OF r(2) content nospace_newline [OF assms(3)] _ assms(5)] assms(1,2) by simp
  have "post \<noteq> []" using assms(9) r(5) by auto
  then have rest: "fst (readInvitation r) = r\<lparr>chunks := post\<rparr>"
    using readInvitation_rest [OF r(2-4) _ nospace_newline [OF assms(3)]] assms(1,2) by simp
  have "wf_inp (r\<lparr>chunks := post\<rparr>)" "inpContent (r\<lparr>chunks := post\<rparr>) = frame"
    using r(2,3,5) by (auto simp: wf_inp_def inpContent_def)
  moreover have "Token c = [] \<or> invToken i = Token c" using assms(6) by auto
  moreover have "map (\<lambda>n. Some (wroteTo (d n) (invToken i))) [0..<7] =
      map (\<lambda>n. Some (wroteTo (projr (ceDial env n)) (invToken i))) [0..<7]"
    using d(2) by (intro map_cong) auto
  ultimately show ?thesis
    using openSession_ok [OF assms(2) d(1) inv _ d(2)] r(1) rest by (auto simp del: upt.simps map_eq_conv)
qed

text \<open>The ports the server listens on are \<open>int\<close>s of the operating system.\<close>

definition listens :: "session_env \<Rightarrow> bool" where
  "listens env \<longleftrightarrow> (\<forall>j < 7. \<exists>q. listenOn env j = Inr q \<and> is_int64 q)"

lemma listens_ports:
  assumes "listens env"
  shows "\<forall>i < 7. \<not> isl (listenOn env i)" "\<forall>p \<in> set (portList (portsFrom (listenOn env))). is_int64 p"
proof -
  show "\<forall>i < 7. \<not> isl (listenOn env i)" using assms by (auto simp: listens_def)
  have "is_int64 (projr (listenOn env j))" if "j < 7" for j using assms that by (auto simp: listens_def)
  then show "\<forall>p \<in> set (portList (portsFrom (listenOn env))). is_int64 p"
    by (simp add: portsFrom_def portsOf_def portList_def)
qed

lemma valid_profile:
  assumes "pcs_contract M" "mergeSendPlanFrom M (Some present) (missingMap p) = Inr plan"
  shows "validateProfile p = Inr ()"
  using mergeSendPlanFrom_InrD(2,3) [OF assms] by (simp add: validateProfile_iff)

text \<open>
  The server's side of a merge for a client's hello and upload: it returns, has sent invitation
  and trailer on the control connection and the document on its own, and logs success.
\<close>

lemma server_merges:
  assumes "pcs_contract M"
    and client: "mergeSendPlanFrom M (Some present) (missingMap p) = Inr plan" "recoverable (mget (Send plan))"
      "unat (MissingMask p) < 16"
    and upload: "rtranclp (upload_step M (mget (Send plan)) particles) (newUpload M) u" "phase u = UploadReturned None"
    and hello: "wf_inp (ctlIn env)" "inpContent (ctlIn env) = clientHello ModeMerge p"
    and net: "listens env" "net io0 = noNet" "arrived (cfgToken cfg) (stream u) cs"
      "acceptsOn env = map (\<lambda>c. Some (Inr c)) cs" "set (acceptOrder env) = {0..<7}"
    and codec: "restores M dec particles d" "\<forall>meta. codecReturns enc dec meta \<longrightarrow> footersSound F meta"
      "\<forall>k \<in> all_kinds. footerSize M \<le> length (particles k)"
    and room: "length (invitationFor cfg env ModeMerge) + 2 ^ 20 + 8 \<le> quota (ctl io0)"
      "length d \<le> quota (docOut io0)" "cfgMaxObjectSize cfg \<le> 0" "length d < 2 ^ 63"
  shows "\<exists>io' t meta stats. handleCom M F (goJson errText) enc dec cfg env io0 = Some io' \<and> ctlClosed io' \<and>
    sent (ctl io') = sent (ctl io0) @ invitationFor cfg env ModeMerge @ trailerFrame (trailerJson t) \<and>
    sent (docOut io') = sent (docOut io0) @ d \<and> last (logged io') = (stats, None) \<and>
    metaSound F meta \<and> t \<in> serverTrailers M F meta \<and> trMode t = ModeMerge \<and> trBytesProcessed t = int (length d)"
proof -
  let ?inv = "invitationFor cfg env ModeMerge"
  have "length cs = 7" using net(3) by (simp add: arrived_def)
  then have start: "goodStart cfg env io0 ModeMerge p"
    using hello_understood [OF hello(1), of ModeMerge p "[]"] hello(2) client(3) valid_profile [OF assms(1) client(1)]
      listens_ports(1) [OF net(1)] net(2,4)
    by (simp add: goodStart_def)
  obtain n2 sess srcs where acc: "acceptSession (cfgToken cfg) (acceptOrder env) (acceptsOn env) True
      \<lparr>listeners = {0..<7}, conns = {}\<rparr> = Some (n2, Inr sess)"
    and srcs: "buildMergeSources M sess p = Inr srcs" "recoverable (\<lambda>k. srcs k \<noteq> None)"
      "\<forall>k \<in> all_kinds. srcs k = None \<or> yields (footerSize M) (particles k) (srcs k)"
    using merge_sources [OF assms(1) client(1,2) upload net(3,5) codec(3)] unfolding net(4) by blast
  let ?io1 = "io0\<lparr>ctl := wroteTo (ctl io0) ?inv, net := n2, ctlDeadline := False\<rparr>"
  have "length d \<le> quota (docOut ?io1)" "2 ^ 20 + 8 \<le> quota (ctl ?io1)" using room(1,2) by simp_all
  from handleMerge_trailer [OF srcs codec(1,2) this(1) room(3) this(2) room(4), where errText = errText]
  obtain io2 stats t meta where run: "handleMerge M F (goJson errText) dec cfg sess p ?io1 = (io2, stats, None)"
      "metaSound F meta" "t \<in> serverTrailers M F meta" "trMode t = ModeMerge" "trBytesProcessed t = int (length d)"
      "ctl io2 = wroteTo (ctl ?io1) (trailerFrame (trailerJson t))" "sent (docOut io2) = sent (docOut ?io1) @ d"
    by blast
  note ModeMerge_not_split
  then have "handleCom M F (goJson errText) enc dec cfg env io0 = Some (reportAndLog (io2, stats, None))"
    unfolding handleCom_started [OF start] using acc run(1) room(1) by (simp add: ctlWrite_room serveMode_def)
  with run(2-7) show ?thesis
    by (intro exI [of _ "reportAndLog (io2, stats, None)"] exI [of _ t] exI [of _ meta] exI [of _ stats])
      (simp add: reportAndLog_def endSession_def writeErrorLine_def ctlWrite_room)
qed

text \<open>
  What the server meets when a client merges \<open>particles\<close> by \<open>plan\<close>: the client's hello on the control
  connection, and on the data connections, in some order, what an upload has written that
  returned without error.
\<close>

definition mergeOffered :: "pcs_module \<Rightarrow> config \<Rightarrow> session_env \<Rightarrow> merge_profile \<Rightarrow> merge_send_plan
    \<Rightarrow> (particle_kind \<Rightarrow> bytes) \<Rightarrow> bool" where
  "mergeOffered M cfg env p plan particles \<longleftrightarrow>
     (\<exists>u cs. rtranclp (upload_step M (mget (Send plan)) particles) (newUpload M) u \<and>
        phase u = UploadReturned None \<and> arrived (cfgToken cfg) (stream u) cs \<and>
        acceptsOn env = map (\<lambda>c. Some (Inr c)) cs) \<and>
     set (acceptOrder env) = {0..<7} \<and> listens env \<and>
     wf_inp (ctlIn env) \<and> inpContent (ctlIn env) = clientHello ModeMerge p"

text \<open>What the particle files hold, and that they are whole where they are there.\<close>

definition diskParticle :: "pcs_module \<Rightarrow> fs \<Rightarrow> string \<Rightarrow> string \<Rightarrow> particle_kind \<Rightarrow> bytes" where
  "diskParticle M f dir base k = (case f (particlePath M dir base k) of Inr (File bs) \<Rightarrow> bs | _ \<Rightarrow> [])"

definition filesIntact :: "pcs_module \<Rightarrow> fs \<Rightarrow> string \<Rightarrow> string \<Rightarrow> (particle_kind \<Rightarrow> bytes) \<Rightarrow> bool" where
  "filesIntact M f dir base particles \<longleftrightarrow>
     (\<forall>k \<in> all_kinds. isThere f (particlePath M dir base k) \<longrightarrow> f (particlePath M dir base k) = Inr (File (particles k)))"

lemma mergeOffered_cong:
  assumes "mergeOffered M cfg env p plan particles" "\<forall>k. mget (Send plan) k \<longrightarrow> particles k = particles' k"
  shows "mergeOffered M cfg env p plan particles'"
  using assms(1) upload_cong [OF assms(2)] unfolding mergeOffered_def by blast

lemma mergeOffered_files:
  assumes "pcs_contract M" "\<forall>s \<in> set (storageDirs M). folderOk f (pathJoin [dir, s])"
    and "\<forall>k \<in> all_kinds. statOk f (particlePath M dir base k)" "filesIntact M f dir base particles"
    and "prepareMergeSendPlan M f dir base p = Inr plan" "mergeOffered M cfg env p plan (diskParticle M f dir base)"
  shows "mergeOffered M cfg env p plan particles"
proof -
  have "diskParticle M f dir base k = particles k" if "mget (Send plan) k" for k
    using sent_is_there [OF assms(1-3,5) that] assms(4) by (auto simp: filesIntact_def diskParticle_def)
  with mergeOffered_cong [OF assms(6)] show ?thesis by blast
qed

definition freshSession :: "session_io \<Rightarrow> bool" where
  "freshSession io \<longleftrightarrow> net io = noNet \<and> sent (ctl io) = [] \<and> sent (docOut io) = []"

text \<open>Room for the invitation and a trailer on the control connection, and for the document on its own.\<close>

definition hasRoom :: "config \<Rightarrow> session_env \<Rightarrow> mode \<Rightarrow> nat \<Rightarrow> session_io \<Rightarrow> bool" where
  "hasRoom cfg env mode n io \<longleftrightarrow>
     length (invitationFor cfg env mode) + 2 ^ 20 + 8 \<le> quota (ctl io) \<and> n \<le> quota (docOut io)"

text \<open>A token that can be sent in the invitation, and that the client expects or does not ask for.\<close>

definition tokenShared :: "config \<Rightarrow> string \<Rightarrow> bool" where
  "tokenShared cfg token \<longleftrightarrow> nospace (cfgToken cfg) \<and> cfgToken cfg \<noteq> [] \<and> (token = [] \<or> token = cfgToken cfg)"

lemma whole_merge:
  assumes "pcs_contract M"
    and plan: "scanInventory M f dir base = Inr i"
      "mergeSendPlanFrom M (Some (pcsInventory M i)) (missingMap p) = Inr plan" "recoverable (mget (Send plan))"
      "unat (MissingMask p) < 16"
    and run: "mergeOffered M cfg env p plan particles" "upl plan = None"
    and codec: "restores M dec particles d" "\<forall>meta. codecReturns enc dec meta \<longrightarrow> footersSound F meta"
      "\<forall>k \<in> all_kinds. footerSize M \<le> length (particles k)"
    and room: "freshSession io0" "hasRoom cfg env ModeMerge (length d) io0" "cfgMaxObjectSize cfg \<le> 0" "length d < 2 ^ 63"
    and token: "tokenShared cfg (Token c)"
  shows "\<exists>io' frame stats. handleCom M F (goJson errText) enc dec cfg env io0 = Some io' \<and>
    sent (ctl io') = invitationFor cfg env ModeMerge @ frame \<and> frame \<noteq> [] \<and> sent (docOut io') = d \<and>
    last (logged io') = (stats, None) \<and>
    (\<forall>cenv out. reachable cenv (clientHello ModeMerge p) (cfgToken cfg) \<and>
       answered cenv (invitationFor cfg env ModeMerge) frame d \<and> length d \<le> quota out \<longrightarrow>
       (\<exists>out' t. mergeFromFiles M (goJson errText) f c cenv upl dir base p out = Some ((False, noNet), out', Inr t) \<and>
          sent out' = sent out @ d \<and> trMode t = ModeMerge \<and> trBytesProcessed t = int (length d)))"
proof -
  let ?i = "\<lparr>invToken = cfgToken cfg, invMode = ModeMerge, invPorts = portsFrom (listenOn env)\<rparr>"
  obtain u cs where u: "rtranclp (upload_step M (mget (Send plan)) particles) (newUpload M) u"
      "phase u = UploadReturned None" "arrived (cfgToken cfg) (stream u) cs" "acceptsOn env = map (\<lambda>c. Some (Inr c)) cs"
    and env: "set (acceptOrder env) = {0..<7}" "listens env" "wf_inp (ctlIn env)"
      "inpContent (ctlIn env) = clientHello ModeMerge p"
    using run(1) unfolding mergeOffered_def by blast
  have io0: "net io0 = noNet" "sent (ctl io0) = []" "sent (docOut io0) = []"
      "length (invitationFor cfg env ModeMerge) + 2 ^ 20 + 8 \<le> quota (ctl io0)" "length d \<le> quota (docOut io0)"
    using room(1,2) by (simp_all add: freshSession_def hasRoom_def)
  obtain io' t meta stats where io: "handleCom M F (goJson errText) enc dec cfg env io0 = Some io'"
      "sent (ctl io') = invitationFor cfg env ModeMerge @ trailerFrame (trailerJson t)" "sent (docOut io') = d"
      "last (logged io') = (stats, None)"
    and t: "metaSound F meta" "t \<in> serverTrailers M F meta" "trMode t = ModeMerge" "trBytesProcessed t = int (length d)"
    using server_merges [OF assms(1) plan(2-4) u(1,2) env(3,4,2) io0(1) u(3,4) env(1) codec io0(4,5) room(3,4), of errText] io0(2,3)
    by auto
  have "\<exists>out' t. mergeFromFiles M (goJson errText) f c cenv upl dir base p out = Some ((False, noNet), out', Inr t) \<and>
      sent out' = sent out @ d \<and> trMode t = ModeMerge \<and> trBytesProcessed t = int (length d)"
    if cenv: "reachable cenv (clientHello ModeMerge p) (cfgToken cfg)"
      "answered cenv (invitationFor cfg env ModeMerge) (trailerFrame (trailerJson t)) d" "length d \<le> quota out"
    for cenv out
  proof -
    have "trailerFrame (trailerJson t) \<noteq> []" by (simp add: trailerFrame_def)
    then obtain st sess where opn: "openMergeSession c p (ceControl cenv) (ceDial cenv) noNet = (True, st, Inr sess)"
        "wf_inp (csIn sess)" "inpContent (csIn sess) = trailerFrame (trailerJson t) @ []"
      using opened_session [of ?i ModeMerge c cenv p "trailerFrame (trailerJson t)"] token listens_ports(2) [OF env(2)] cenv
      unfolding openMergeSession_def invitationFor_def tokenShared_def answered_def by auto
    have doc: "wf_inp (ceDocIn cenv)" "inpContent (ceDocIn cenv) = d" "inpEnd (ceDocIn cenv) = EOF"
      using cenv(2) by (simp_all add: answered_def)
    from mergeSessionToWriter_spec [OF doc(1), of out "goJson errText" None sess] cenv(3) doc
      server_trailer_read [OF t(1,2) opn(2,3), of errText]
    obtain out' where "mergeSessionToWriter (goJson errText) None (ceDocIn cenv) sess out = Some (out', Inr t)"
        "sent out' = sent out @ d"
      by (auto simp: endError_def)
    with plan(1,2) run(2) opn(1) closePorts_opened [OF opn(1)] t(3,4) show ?thesis
      by (auto simp: mergeFromFiles_def runMergeSession_def)
  qed
  moreover have "trailerFrame (trailerJson t) \<noteq> []" by (simp add: trailerFrame_def)
  ultimately show ?thesis using io by blast
qed

section \<open>\<open>pcs-merge\<close> against the server\<close>

text \<open>The arguments of \<open>pcs-merge\<close>, and the profile it makes of the files it finds.\<close>

lemma mergeProfileFor_files:
  "splitCSV (mgSkip a) = [] \<Longrightarrow> mergeProfileFor M f a = prepareMergeFromFiles M f (mgDir a) (pathBase (mgFile a))"
  by (simp add: mergeProfileFor_def split: sum.split)

lemma mergeProfileFor_mask: "mergeProfileFor M f a = Inr p \<Longrightarrow> unat (MissingMask p) < 16"
  by (auto simp: mergeProfileFor_def Let_def prepareMergeFromFiles_def mergeProfileFromInventory_def
      mergeProfileFromSkipKinds_def skipMask_spec maskOfKinds_bound maskOfKinds_def [symmetric] split: sum.splits if_splits option.splits)

text \<open>
  What a merge by the two programs comes to: the server has handled the session, has sent
  invitation, a last frame and the document \<open>d\<close>, and logs success; and when that arrives,
  \<open>pcs-merge\<close> ends with exit code 0 and has written \<open>d\<close> into its output file.
\<close>

definition mergeCompletes :: "pcs_module \<Rightarrow> 'f footer_module \<Rightarrow> trailer json_codec \<Rightarrow> 'f encoder \<Rightarrow> 'f decoder
    \<Rightarrow> config \<Rightarrow> session_env \<Rightarrow> session_io \<Rightarrow> (merge_send_plan \<Rightarrow> go_error option) \<Rightarrow> fs \<Rightarrow> string list \<Rightarrow> string
    \<Rightarrow> merge_profile \<Rightarrow> bytes \<Rightarrow> bool" where
  "mergeCompletes M F J enc dec cfg env io0 upl f args path p d \<longleftrightarrow>
     (\<exists>io' frame stats. handleCom M F J enc dec cfg env io0 = Some io' \<and>
        sent (ctl io') = invitationFor cfg env ModeMerge @ frame \<and> frame \<noteq> [] \<and> sent (docOut io') = d \<and>
        last (logged io') = (stats, None) \<and>
        (\<forall>cenv create out. reachable cenv (clientHello ModeMerge p) (cfgToken cfg) \<and>
           answered cenv (invitationFor cfg env ModeMerge) frame d \<and>
           create path = Inr out \<and> sent out = [] \<and> length d \<le> quota out \<longrightarrow>
           (\<exists>res out'. pcsMerge M J f create cenv upl args = Some (res, Some (path, out')) \<and>
              exitCode res = 0 \<and> sent out' = d)))"

lemma merge_command_restores:
  assumes "pcs_contract M" "parseArgs mergeFlags args mergeDefaults = Inr a" "mgFile a \<noteq> []"
    and plan: "mergeProfileFor M f a = Inr p"
      "prepareMergeSendPlan M f (mgDir a) (pathBase (mgFile a)) p = Inr plan" "recoverable (mget (Send plan))"
    and run: "mergeOffered M cfg env p plan particles" "upl plan = None"
    and codec: "restores M dec particles d" "\<forall>meta. codecReturns enc dec meta \<longrightarrow> footersSound F meta"
      "\<forall>k \<in> all_kinds. footerSize M \<le> length (particles k)"
    and room: "freshSession io0" "hasRoom cfg env ModeMerge (length d) io0" "cfgMaxObjectSize cfg \<le> 0" "length d < 2 ^ 63"
    and token: "tokenShared cfg (mgToken a)"
  shows "mergeCompletes M F (goJson errText) enc dec cfg env io0 upl f args (mergeOutPath a) p d"
proof -
  obtain i where i: "scanInventory M f (mgDir a) (pathBase (mgFile a)) = Inr i"
      "mergeSendPlanFrom M (Some (pcsInventory M i)) (missingMap p) = Inr plan"
    using plan(2) by (auto simp: prepareMergeSendPlan_def split: sum.splits)
  let ?c = "\<lparr>Host = mgHost a, Port = mgPort a, Token = mgToken a\<rparr>"
  have "tokenShared cfg (Token ?c)" using token by simp
  from whole_merge [where upl = upl and c = ?c, OF assms(1) i plan(3) mergeProfileFor_mask [OF plan(1)] run codec room this, of errText] obtain io' frame stats where
    io: "handleCom M F (goJson errText) enc dec cfg env io0 = Some io'"
      "sent (ctl io') = invitationFor cfg env ModeMerge @ frame" "frame \<noteq> []" "sent (docOut io') = d"
      "last (logged io') = (stats, None)"
    and client: "\<And>cenv out. reachable cenv (clientHello ModeMerge p) (cfgToken cfg) \<Longrightarrow>
       answered cenv (invitationFor cfg env ModeMerge) frame d \<Longrightarrow> length d \<le> quota out \<Longrightarrow>
       (\<exists>out' t. mergeFromFiles M (goJson errText) f ?c cenv upl (mgDir a) (pathBase (mgFile a)) p out =
            Some ((False, noNet), out', Inr t) \<and>
          sent out' = sent out @ d \<and> trMode t = ModeMerge \<and> trBytesProcessed t = int (length d))"
    by blast
  have "\<exists>res out'. pcsMerge M (goJson errText) f create cenv upl args = Some (res, Some (mergeOutPath a, out')) \<and>
      exitCode res = 0 \<and> sent out' = d"
    if cenv: "reachable cenv (clientHello ModeMerge p) (cfgToken cfg)"
      "answered cenv (invitationFor cfg env ModeMerge) frame d"
      "create (mergeOutPath a) = Inr out" "sent out = []" "length d \<le> quota out" for cenv create out
    using client [OF cenv(1,2,5)] assms(2,3) plan(1,2) cenv(3,4)
    by (auto simp: pcsMerge_def mergeReport_def)
  with io show ?thesis unfolding mergeCompletes_def by blast
qed

end
