(* ===== verification/SplitSessions.thy ===== *)
theory SplitSessions
  imports Sessions SplitStreams
begin

text \<open>
  Both ends of a split session: the server's handler on the document that \<open>pcs-split\<close> sends, and
  \<open>pcs-split\<close> on the particle streams and the trailer that the server sends.
\<close>

section \<open>The server's side\<close>

text \<open>
  What the network carries from a client to the server: what the client has sent on the control
  connection and on the seven data connections, and whether it has closed the document's.  It
  arrives in any segmentation, and the connections in any order.
\<close>

type_synonym client_sent = "bytes \<times> bytes list \<times> bool"

definition clientSent :: "client_session \<times> bool \<Rightarrow> client_sent" where
  "clientSent sc = (sent (csOut (fst sc)), map (\<lambda>w. case w of None \<Rightarrow> [] | Some w \<Rightarrow> sent w) (csData (fst sc)), snd sc)"

definition carried :: "client_sent \<Rightarrow> session_env \<Rightarrow> bool" where
  "carried b env \<longleftrightarrow> (case b of (hello, datas, closedDoc) \<Rightarrow>
     wf_inp (ctlIn env) \<and> inpContent (ctlIn env) = hello \<and>
     (\<exists>cs. acceptsOn env = map (\<lambda>c. Some (Inr c)) cs \<and> list_all2 (\<lambda>bs c. wf_inp c \<and> inpContent c = bs) datas cs \<and>
        \<not> early (hd cs) \<and> (closedDoc \<longrightarrow> inpEnd (hd cs) = EOF)) \<and>
     set (acceptOrder env) = {0..<7} \<and> listens env)"

text \<open>
  What the server meets when a client splits \<open>d\<close>: its hello on the control connection, the token
  and the document on the document connection, and the token on the six others.
\<close>

definition splitOffered :: "config \<Rightarrow> session_env \<Rightarrow> bytes \<Rightarrow> bool" where
  "splitOffered cfg env d \<longleftrightarrow>
     (\<exists>c cs. acceptsOn env = map (\<lambda>c. Some (Inr c)) (c # cs) \<and> length cs = 6 \<and>
        wf_inp c \<and> \<not> early c \<and> inpEnd c = EOF \<and> inpContent c = cfgToken cfg @ d \<and>
        (\<forall>p \<in> set cs. wf_inp p \<and> isPrefix (cfgToken cfg) (inpContent p))) \<and>
     set (acceptOrder env) = {0..<7} \<and> listens env \<and>
     wf_inp (ctlIn env) \<and> inpContent (ctlIn env) = clientHello ModeSplit noProfile"

lemma carried_offered:
  assumes "carried (clientHello ModeSplit noProfile, (cfgToken cfg @ d) # replicate 6 (cfgToken cfg), True) env"
  shows "splitOffered cfg env d"
proof -
  obtain cs where cs: "acceptsOn env = map (\<lambda>c. Some (Inr c)) cs"
      "list_all2 (\<lambda>bs c. wf_inp c \<and> inpContent c = bs) ((cfgToken cfg @ d) # replicate 6 (cfgToken cfg)) cs"
      "\<not> early (hd cs)" "inpEnd (hd cs) = EOF"
    and env: "set (acceptOrder env) = {0..<7}" "listens env" "wf_inp (ctlIn env)"
      "inpContent (ctlIn env) = clientHello ModeSplit noProfile"
    using assms by (auto simp: carried_def)
  from cs(2) obtain c cs' where c: "cs = c # cs'" "wf_inp c" "inpContent c = cfgToken cfg @ d"
      "list_all2 (\<lambda>bs c. wf_inp c \<and> inpContent c = bs) (replicate 6 (cfgToken cfg)) cs'"
    by (auto simp: list_all2_Cons1)
  have "length cs' = 6" using list_all2_lengthD [OF c(4)] by simp
  moreover have "wf_inp p \<and> isPrefix (cfgToken cfg) (inpContent p)" if "p \<in> set cs'" for p
    using c(4) that by (auto simp: list_all2_conv_all_nth in_set_conv_nth isPrefix_def)
  ultimately show ?thesis using cs(1,3,4) c(1-3) env unfolding splitOffered_def by auto
qed

lemma split_start:
  assumes "splitOffered cfg env d" "net io0 = noNet"
  shows "goodStart cfg env io0 ModeSplit noProfile"
  using assms hello_understood [of "ctlIn env" ModeSplit noProfile "[]"] listens_ports(1) [of env]
  by (auto simp: goodStart_def splitOffered_def noProfile_def ModeSplit_def ModeMerge_def)

lemma split_accepted:
  assumes "splitOffered cfg env d"
  obtains n2 sess where "acceptSession (cfgToken cfg) (acceptOrder env) (acceptsOn env) False st = Some (n2, Inr sess)"
    "wf_inp (spDoc sess)" "\<not> early (spDoc sess)" "inpEnd (spDoc sess) = EOF"
    "inpContent (spDoc sess) = cfgToken cfg @ d"
proof -
  obtain c cs where c: "acceptsOn env = map (\<lambda>c. Some (Inr c)) (c # cs)" "length cs = 6"
      "wf_inp c" "\<not> early c" "inpEnd c = EOF" "inpContent c = cfgToken cfg @ d"
      "\<forall>p \<in> set cs. wf_inp p \<and> isPrefix (cfgToken cfg) (inpContent p)"
    and order: "set (acceptOrder env) = {0..<7}"
    using assms unfolding splitOffered_def by blast
  have len: "length (c # cs) = 7" using c(2) by simp
  let ?vcs = "zip [False, True, True, True, True, True, True] (c # cs)"
  have "\<not> isl (authPorts (cfgToken cfg) 0 ?vcs)"
    using c(3,7) by (subst authPorts_iff) (auto dest: set_zip_rightD)
  then obtain ps where ps: "authPorts (cfgToken cfg) 0 ?vcs = Inr ps" by (cases "authPorts (cfgToken cfg) 0 ?vcs") auto
  then have "ps ! 0 = RawConn c" by (auto split: sum.splits)
  then have "spDoc (portSet ps) = c" by (simp add: portSet_def)
  with that acceptSession_ok [OF len order, of "cfgToken cfg" False st] ps c(1,3-6) show ?thesis by simp
qed

lemma handleSplit_trailer:
  assumes codec: "codec_restores M enc dec" "\<forall>meta. codecReturns enc dec meta \<longrightarrow> footersSound F meta"
    and doc: "wf_inp (spDoc sess)" "\<not> early (spDoc sess)" "inpEnd (spDoc sess) = EOF"
      "inpContent (spDoc sess) = cfgToken cfg @ d" "fits d (cfgMaxObjectSize cfg)"
    and room: "2 ^ 20 + 8 \<le> quota (ctl io)" "length d < 2 ^ 63"
  shows "\<exists>io' stats t meta. handleSplit M F (goJson errText) enc cfg sess io = (io', stats, None) \<and>
    metaSound F meta \<and> t \<in> serverTrailers M F meta \<and> trMode t = ModeSplit \<and> trBytesProcessed t = int (length d) \<and>
    ctl io' = wroteTo (ctl io) (trailerFrame (trailerJson t))"
proof -
  let ?r = "limitedDocReader (newStripTokenReader (spDoc sess) (cfgToken cfg)) (cfgMaxObjectSize cfg)"
  have "readsDoc d ?r" using document_readsDoc doc by blast
  then obtain particles meta where enc: "enc (cfgChunkSize cfg) ?r = (particles, Inr meta)" "metaBytes meta = int (length d)"
    using codec(1) unfolding codec_restores_def by blast
  then have "codecReturns enc dec meta" unfolding codecReturns_def by blast
  then have sound: "metaSound F meta" using codec(2) enc(2) room(2) by (simp add: metaSound_def is_int64_def)
  let ?t = "buildTrailerFromEncodeMeta M F ModeSplit meta"
  have t: "?t \<in> serverTrailers M F meta" by (simp add: serverTrailers_def)
  have send: "sendTrailer (goJson errText) ?t io2 = (io2\<lparr>ctl := wroteTo (ctl io) (trailerFrame (trailerJson ?t))\<rparr>, None)"
    if "ctl io2 = ctl io" for io2
    using sendTrailer_room [of "goJson errText" ?t io2] server_frame_length [OF sound t] room(1) that
    by (simp add: server_trailer_text(1) [OF sound t])
  let ?io2 = "io\<lparr>particleOut := \<lambda>k. particleOut io k @ particles k, halfClosed := closeWriteParticlePorts sess (halfClosed io)\<rparr>"
  show ?thesis
    using enc sound t send [of ?io2] built_trailers(1,2) [of M F ModeSplit meta]
    by (intro exI [of _ "closeSession (?io2\<lparr>ctl := wroteTo (ctl io) (trailerFrame (trailerJson ?t))\<rparr>)"]
        exI [of _ "noStats\<lparr>statMode := ModeSplit, statBytes := metaBytes meta\<rparr>"] exI [of _ ?t] exI [of _ meta])
      (simp add: handleSplit_def splitStreaming_def Let_def noStats_def closeSession_def)
qed


lemma server_splits:
  assumes codec: "codec_restores M enc dec" "\<forall>meta. codecReturns enc dec meta \<longrightarrow> footersSound F meta"
    and run: "splitOffered cfg env d" "freshSession io0" "\<forall>k. particleOut io0 k = []"
    and room: "hasRoom cfg env ModeSplit 0 io0" "fits d (cfgMaxObjectSize cfg)" "length d < 2 ^ 63"
  shows "\<exists>io' t meta stats. handleCom M F (goJson errText) enc dec cfg env io0 = Some io' \<and> ctlClosed io' \<and>
    sent (ctl io') = invitationFor cfg env ModeSplit @ trailerFrame (trailerJson t) \<and>
    last (logged io') = (stats, None) \<and>
    metaSound F meta \<and> t \<in> serverTrailers M F meta \<and> trMode t = ModeSplit \<and> trBytesProcessed t = int (length d) \<and>
    restores M dec (particleOut io') d \<and> (\<forall>k \<in> all_kinds. footerSize M \<le> length (particleOut io' k))"
proof -
  let ?inv = "invitationFor cfg env ModeSplit"
  have io0: "net io0 = noNet" "sent (ctl io0) = []" using run(2) by (simp_all add: freshSession_def)
  obtain n2 sess where acc: "acceptSession (cfgToken cfg) (acceptOrder env) (acceptsOn env) False
      \<lparr>listeners = {0..<7}, conns = {}\<rparr> = Some (n2, Inr sess)"
    and doc: "wf_inp (spDoc sess)" "\<not> early (spDoc sess)" "inpEnd (spDoc sess) = EOF"
      "inpContent (spDoc sess) = cfgToken cfg @ d"
    using split_accepted [OF run(1)] by blast
  let ?io1 = "io0\<lparr>ctl := wroteTo (ctl io0) ?inv, net := n2, ctlDeadline := False\<rparr>"
  have q: "length ?inv + 2 ^ 20 + 8 \<le> quota (ctl io0)" using room(1) by (simp add: hasRoom_def)
  then have "2 ^ 20 + 8 \<le> quota (ctl ?io1)" by simp
  from handleSplit_trailer [OF codec doc room(2) this room(3), of errText]
  obtain io2 stats t meta where h: "handleSplit M F (goJson errText) enc cfg sess ?io1 = (io2, stats, None)"
      "metaSound F meta" "t \<in> serverTrailers M F meta" "trMode t = ModeSplit" "trBytesProcessed t = int (length d)"
      "ctl io2 = wroteTo (ctl ?io1) (trailerFrame (trailerJson t))"
    by blast
  obtain particles where p: "\<forall>k. particleOut io2 k = particleOut ?io1 k @ particles k"
      "\<forall>k \<in> all_kinds. footerSize M \<le> length (particles k)" "restores M dec particles d"
    using handleSplit_encodes [OF codec(1) doc room(2) h(1)] by blast
  then have "particleOut io2 = particles" using run(3) by auto
  with p(2,3) have "restores M dec (particleOut io2) d \<and> (\<forall>k \<in> all_kinds. footerSize M \<le> length (particleOut io2 k))"
    by simp
  moreover have "handleCom M F (goJson errText) enc dec cfg env io0 = Some (reportAndLog (io2, stats, None))"
    unfolding handleCom_started [OF split_start [OF run(1) io0(1)]] using acc h(1) q
    by (simp add: ctlWrite_room serveMode_def ModeSplit_def ModeMerge_def)
  ultimately show ?thesis
    using h(2-6) io0(2)
    by (intro exI [of _ "reportAndLog (io2, stats, None)"] exI [of _ t] exI [of _ meta] exI [of _ stats])
      (simp add: reportAndLog_def endSession_def writeErrorLine_def ctlWrite_room)
qed

section \<open>The client's side\<close>

lemma openWriters_new:
  "openWriters M mk create outDir base kinds f out = (f', Inr writers) \<Longrightarrow>
   dom writers = dom out \<union> set kinds \<and>
   (\<forall>k w. writers k = Some w \<longrightarrow> out k = Some w \<or> create (particlePath M outDir base k) = Inr w)"
proof (induction kinds arbitrary: f out)
  case (Cons kind kinds)
  let ?path = "particlePath M outDir base kind"
  from Cons.prems obtain f1 w where w: "create ?path = Inr w"
      "openWriters M mk create outDir base kinds f1 (out(kind \<mapsto> w)) = (f', Inr writers)"
    by (auto simp: Let_def split: prod.splits option.splits sum.splits)
  from Cons.IH [OF w(2)] w(1) show ?case by (auto split: if_splits)
qed simp

lemma openParticleWriters_new:
  assumes "pcs_contract M" "openParticleWriters M mk create outDir base f = (f', Inr writers)"
  shows "\<forall>k. writers k = None \<longleftrightarrow> k \<notin> all_kinds"
    "writers k = Some w \<Longrightarrow> create (particlePath M outDir base k) = Inr w"
  using openWriters_new [OF assms(2) [unfolded openParticleWriters_def]] pcs_contract_all [OF assms(1)]
  by auto


text \<open>
  What reaches \<open>pcs-split\<close> when the network delivers: its dials make new connections that take the
  hello and the token, and what the server sends on the control connection arrives.
\<close>

definition freshClient :: "client_env \<Rightarrow> bool" where
  "freshClient cenv \<longleftrightarrow> sent (fst (projr (ceControl cenv))) = [] \<and> (\<forall>n < 7. sent (projr (ceDial cenv n)) = [])"

definition splitConnected :: "client_env \<Rightarrow> string \<Rightarrow> bytes \<Rightarrow> bytes \<Rightarrow> bool" where
  "splitConnected cenv token invite frame \<longleftrightarrow> frame \<noteq> [] \<and> freshClient cenv \<and>
     reachable cenv (clientHello ModeSplit noProfile) token \<and> controlAnswered cenv invite frame"

lemma split_opened:
  assumes "tokenShared cfg token" "listens env" "splitConnected cenv (cfgToken cfg) (invitationFor cfg env ModeSplit) frame"
  obtains st sess where "openPlainSession \<lparr>Host = h, Port = p, Token = token\<rparr> ModeSplit (ceControl cenv) (ceDial cenv) noNet =
      (True, st, Inr sess)" "wf_inp (csIn sess)" "inpContent (csIn sess) = frame"
    "sent (csOut sess) = clientHello ModeSplit noProfile"
    "csData sess = map (\<lambda>n. Some (wroteTo (projr (ceDial cenv n)) (cfgToken cfg))) [0..<7]"
    "\<forall>n < 7. sent (projr (ceDial cenv n)) = []"
proof -
  let ?i = "\<lparr>invToken = cfgToken cfg, invMode = ModeSplit, invPorts = portsFrom (listenOn env)\<rparr>"
  note net = assms(3) [unfolded splitConnected_def freshClient_def]
  show ?thesis
    using opened_session [of ?i ModeSplit "\<lparr>Host = h, Port = p, Token = token\<rparr>" cenv noProfile frame]
      assms(1) listens_ports(2) [OF assms(2)] net that
    unfolding openPlainSession_def invitationFor_def tokenShared_def by auto
qed

text \<open>What the session of \<open>pcs-split\<close> has sent once the document connection is in the state \<open>w\<close>.\<close>

lemma clientSent_document:
  assumes "sent (csOut sess) = hello" "\<forall>n < 7. sent (projr (ceDial cenv n)) = []"
    and "csData sess = map (\<lambda>n. Some (wroteTo (projr (ceDial cenv n)) token)) [0..<7]"
  shows "clientSent (sess\<lparr>csData := (csData sess)[0 := Some w]\<rparr>, b) = (hello, sent w # replicate 6 token, b)"
    and "the (csData sess ! 0) = wroteTo (projr (ceDial cenv 0)) token"
    and "sent (the (csData sess ! 0)) = token"
proof -
  have upt: "[0..<7] = [0, 1, 2, 3, 4, 5, 6 :: nat]" by (simp add: upt_rec)
  have six: "replicate 6 token = [token, token, token, token, token, token]" by (simp add: numeral_eq_Suc)
  show "clientSent (sess\<lparr>csData := (csData sess)[0 := Some w]\<rparr>, b) = (hello, sent w # replicate 6 token, b)"
    unfolding clientSent_def six assms(3) upt using assms(1,2) by simp
  show "the (csData sess ! 0) = wroteTo (projr (ceDial cenv 0)) token" "sent (the (csData sess ! 0)) = token"
    using assms(2,3) by (simp_all add: nth_append)
qed

text \<open>A run of \<open>pcs-split\<close> that ends with exit code 0 has sent the document and stored every stream.\<close>

lemma split_command_stored:
  assumes "pcs_contract M" "parseArgs splitFlags args splitDefaults = Inr a"
    and input: "openInput osOpen stdin (spFile a) (spName a) = Inr (base, input)" "wf_inp input"
    and run: "pcsSplit M J f mk create osOpen stdin cenv atExit order args = Some (res, files, Some sc)" "exitCode res = 0"
    and opened: "tokenShared cfg (spToken a)" "listens env"
      "splitConnected cenv (cfgToken cfg) (invitationFor cfg env ModeSplit) frame"
    and net: "finishOrder order" "delivered streams (ceParticleIn cenv)"
    and new: "\<forall>path w. create path = Inr w \<longrightarrow> sent w = []"
  shows "clientSent sc = (clientHello ModeSplit noProfile, (cfgToken cfg @ inpContent input) # replicate 6 (cfgToken cfg), True) \<and>
    (\<forall>k \<in> all_kinds. \<exists>w. files k = Some w \<and> sent w = streams k)"
proof -
  obtain st sess where opn: "openPlainSession \<lparr>Host = spHost a, Port = spPort a, Token = spToken a\<rparr> ModeSplit
        (ceControl cenv) (ceDial cenv) noNet = (True, st, Inr sess)"
    and sess: "sent (csOut sess) = clientHello ModeSplit noProfile"
      "csData sess = map (\<lambda>n. Some (wroteTo (projr (ceDial cenv n)) (cfgToken cfg))) [0..<7]"
      "\<forall>n < 7. sent (projr (ceDial cenv n)) = []"
    using split_opened [OF opened] by metis
  note doc = clientSent_document [OF sess(1,3,2)]
  obtain f1 f2 writers w closedDoc where
    writers: "openParticleWriters M mk create (spOutDir a) base f1 = (f2, Inr writers)" and
    r: "splitRun J cenv atExit order sess input writers = Some (res, files, w, closedDoc)"
      "sc = (sess\<lparr>csData := (csData sess)[0 := Some w]\<rparr>, closedDoc)"
    using run by (auto simp: pcsSplit_def assms(2) input(1) opn fatal_def split: sum.splits if_splits option.splits prod.splits)
  have wf: "\<forall>k. wf_inp (ceParticleIn cenv k)" using net(2) by (simp add: delivered_def)
  from splitRun_outcome [OF net(1) wf input(2), of J atExit sess writers] r(1)
  have out: "w = copied (inpContent input) (the (csData sess ! 0))"
    "closedDoc \<longleftrightarrow> length (inpContent input) \<le> quota (the (csData sess ! 0)) \<and> inpEnd input = EOF \<and> ceCloseErr cenv 0 = None"
    "exitCode res = 0 \<longleftrightarrow> closedDoc \<and> allCopied (ceParticleIn cenv) writers \<and> \<not> isl (readTrailer J (csIn sess))"
    "exitCode res = 0 \<longrightarrow> (\<forall>k \<in> all_kinds. files k = map_option (copied (inpContent (ceParticleIn cenv k))) (writers k))"
    by simp_all
  with run(2) have "sent w = cfgToken cfg @ inpContent input" "closedDoc" using doc(3) by simp_all
  with doc(1) r(2) have "clientSent sc =
      (clientHello ModeSplit noProfile, (cfgToken cfg @ inpContent input) # replicate 6 (cfgToken cfg), True)"
    by simp
  moreover have "\<exists>w. files k = Some w \<and> sent w = streams k" if k: "k \<in> all_kinds" for k
  proof -
    obtain v where v: "writers k = Some v" using openParticleWriters_new(1) [OF assms(1) writers] k by fastforce
    then have "sent v = []" using openParticleWriters_new(2) [OF assms(1) writers v] new by blast
    with out(3,4) run(2) v k net(2) show ?thesis by (auto simp: allCopied_def delivered_def)
  qed
  ultimately show ?thesis by blast
qed

text \<open>
  \<open>splitBy\<close>: the two programs have split \<open>d\<close> into \<open>stored\<close>.  \<open>pcs-split\<close> has read \<open>d\<close> from its input and
  has ended with exit code 0; what it has sent has reached the server, which has handled the
  session; what the server has sent has reached \<open>pcs-split\<close>, which has left new files with the
  contents \<open>stored\<close>.
\<close>

definition splitBy :: "pcs_module \<Rightarrow> 'f footer_module \<Rightarrow> trailer json_codec \<Rightarrow> 'f encoder \<Rightarrow> 'f decoder
    \<Rightarrow> config \<Rightarrow> bytes \<Rightarrow> (particle_kind \<Rightarrow> bytes) \<Rightarrow> bool" where
  "splitBy M F J enc dec cfg d stored \<longleftrightarrow>
     (\<exists>env io0 io' frame cenv sc f mk create osOpen stdin atExit order args a base input res files.
        parseArgs splitFlags args splitDefaults = Inr a \<and>
        openInput osOpen stdin (spFile a) (spName a) = Inr (base, input) \<and> wf_inp input \<and> inpContent input = d \<and>
        pcsSplit M J f mk create osOpen stdin cenv atExit order args = Some (res, files, Some sc) \<and> exitCode res = 0 \<and>
        carried (clientSent sc) env \<and> tokenShared cfg (spToken a) \<and>
        freshSession io0 \<and> (\<forall>k. particleOut io0 k = []) \<and> hasRoom cfg env ModeSplit 0 io0 \<and>
        handleCom M F J enc dec cfg env io0 = Some io' \<and>
        sent (ctl io') = invitationFor cfg env ModeSplit @ frame \<and>
        splitConnected cenv (cfgToken cfg) (invitationFor cfg env ModeSplit) frame \<and>
        delivered (particleOut io') (ceParticleIn cenv) \<and> finishOrder order \<and>
        (\<forall>path w. create path = Inr w \<longrightarrow> sent w = []) \<and>
        (\<forall>k \<in> all_kinds. \<exists>w. files k = Some w \<and> stored k = sent w))"

lemma splitBy_restores:
  assumes "pcs_contract M" "splitBy M F (goJson errText) enc dec cfg d stored"
    and codec: "codec_restores M enc dec" "\<forall>meta. codecReturns enc dec meta \<longrightarrow> footersSound F meta"
    and room: "fits d (cfgMaxObjectSize cfg)" "length d < 2 ^ 63"
  shows "restores M dec stored d \<and> (\<forall>k \<in> all_kinds. footerSize M \<le> length (stored k))"
proof -
  obtain env io0 io' frame cenv sc f mk create osOpen stdin atExit order args a base input res files where
    start: "parseArgs splitFlags args splitDefaults = Inr a" "openInput osOpen stdin (spFile a) (spName a) = Inr (base, input)"
      "wf_inp input" "inpContent input = d" and
    client: "pcsSplit M (goJson errText) f mk create osOpen stdin cenv atExit order args = Some (res, files, Some sc)"
      "exitCode res = 0" and
    there: "carried (clientSent sc) env" "tokenShared cfg (spToken a)" and
    server: "freshSession io0" "\<forall>k. particleOut io0 k = []" "hasRoom cfg env ModeSplit 0 io0"
      "handleCom M F (goJson errText) enc dec cfg env io0 = Some io'" and
    reply: "splitConnected cenv (cfgToken cfg) (invitationFor cfg env ModeSplit) frame"
      "delivered (particleOut io') (ceParticleIn cenv)" "finishOrder order" and
    new: "\<forall>path w. create path = Inr w \<longrightarrow> sent w = []" and
    files: "\<forall>k \<in> all_kinds. \<exists>w. files k = Some w \<and> stored k = sent w"
    using assms(2) unfolding splitBy_def by (elim exE conjE) (rule that)
  have "listens env" using there(1) by (simp add: carried_def split: prod.splits)
  note stored = split_command_stored [where create = create and streams = "particleOut io'",
      OF assms(1) start(1-3) client there(2) this reply(1,3,2) new, unfolded start(4)]
  then have "splitOffered cfg env d" using carried_offered there(1) by simp
  moreover have "\<forall>k \<in> all_kinds. particleOut io' k = stored k" using stored files by fastforce
  ultimately show ?thesis
    using server_splits [OF codec _ server(1-3) room, of errText] server(4)
      restores_cong [of M dec "particleOut io'" d stored]
    by auto
qed

section \<open>The two sides together\<close>

text \<open>Six new files can be created that have room for their streams.\<close>

definition filesFor :: "pcs_module \<Rightarrow> (string \<Rightarrow> int result) \<Rightarrow> (string \<Rightarrow> outp result) \<Rightarrow> string \<Rightarrow> string \<Rightarrow> fs
    \<Rightarrow> (particle_kind \<Rightarrow> bytes) \<Rightarrow> bool" where
  "filesFor M mk create outDir base f streams \<longleftrightarrow>
     (\<exists>f' writers. openParticleWriters M mk create outDir base f = (f', Inr writers) \<and>
        (\<forall>k w. writers k = Some w \<longrightarrow> sent w = [] \<and> length (streams k) \<le> quota w))"

text \<open>
  And the rest of what reaches \<open>pcs-split\<close> when the network delivers: the six streams and their
  ends.  The document connection takes the token and \<open>n\<close> more bytes, and can be closed.
\<close>

definition splitDelivered :: "client_env \<Rightarrow> string \<Rightarrow> nat \<Rightarrow> bytes \<Rightarrow> bytes \<Rightarrow> (particle_kind \<Rightarrow> bytes) \<Rightarrow> bool" where
  "splitDelivered cenv token n invite frame streams \<longleftrightarrow> splitConnected cenv token invite frame \<and>
     delivered streams (ceParticleIn cenv) \<and> (\<forall>k \<in> all_kinds. inpEnd (ceParticleIn cenv k) = EOF) \<and>
     length token + n \<le> quota (projr (ceDial cenv 0)) \<and> ceCloseErr cenv 0 = None"

text \<open>The run of \<open>pcs-split\<close>; what it sends does not depend on the files.\<close>

lemma split_command_runs:
  assumes "pcs_contract M" "parseArgs splitFlags args splitDefaults = Inr a" "spFile a \<noteq> []"
    and input: "openInput osOpen stdin (spFile a) (spName a) = Inr (base, input)" "wf_inp input"
      "inpContent input = d" "inpEnd input = EOF" "ensureStorageDirs mk M f (spOutDir a) = (f1, None)"
    and token: "tokenShared cfg (spToken a)" "listens env"
    and t: "metaSound F meta" "t \<in> serverTrailers M F meta"
    and cenv: "splitDelivered cenv (cfgToken cfg) (length d) (invitationFor cfg env ModeSplit)
      (trailerFrame (trailerJson t)) streams"
  shows "\<exists>sc. clientSent sc = (clientHello ModeSplit noProfile, (cfgToken cfg @ d) # replicate 6 (cfgToken cfg), True) \<and>
    (\<forall>create order atExit. filesFor M mk create (spOutDir a) base f1 streams \<and> finishOrder order \<longrightarrow>
      (\<exists>res files. pcsSplit M (goJson errText) f mk create osOpen stdin cenv atExit order args = Some (res, files, Some sc) \<and>
        exitCode res = 0 \<and> (\<forall>k \<in> all_kinds. \<exists>w. files k = Some w \<and> sent w = streams k)))"
proof -
  let ?J = "goJson errText"
  note net = cenv(1) [unfolded splitDelivered_def]
  obtain st sess where opn: "openPlainSession \<lparr>Host = spHost a, Port = spPort a, Token = spToken a\<rparr> ModeSplit
        (ceControl cenv) (ceDial cenv) noNet = (True, st, Inr sess)"
      "wf_inp (csIn sess)" "inpContent (csIn sess) = trailerFrame (trailerJson t) @ []"
    and sess: "sent (csOut sess) = clientHello ModeSplit noProfile"
      "csData sess = map (\<lambda>n. Some (wroteTo (projr (ceDial cenv n)) (cfgToken cfg))) [0..<7]"
      "\<forall>n < 7. sent (projr (ceDial cenv n)) = []"
    using split_opened [OF token, of cenv "trailerFrame (trailerJson t)"] net by (metis append_Nil2)
  note doc = clientSent_document [OF sess(1,3,2)]
  have room: "length d \<le> quota (the (csData sess ! 0))" using net unfolding doc(2) wroteTo_simps by linarith
  let ?w = "copied d (the (csData sess ! 0))"
  let ?sc = "(sess\<lparr>csData := (csData sess)[0 := Some ?w]\<rparr>, True)"
  have wf: "\<forall>k. wf_inp (ceParticleIn cenv k)" and got: "\<forall>k \<in> all_kinds. inpContent (ceParticleIn cenv k) = streams k"
    using net by (simp_all add: delivered_def)
  have trailer: "\<not> isl (readTrailer ?J (csIn sess))" using server_trailer_read [OF t opn(2,3), of errText] by simp
  have "\<exists>res files. pcsSplit M ?J f mk create osOpen stdin cenv atExit order args = Some (res, files, Some ?sc) \<and>
      exitCode res = 0 \<and> (\<forall>k \<in> all_kinds. \<exists>w. files k = Some w \<and> sent w = streams k)"
    if disk: "filesFor M mk create (spOutDir a) base f1 streams" and order: "finishOrder order" for create order atExit
  proof -
    obtain f2 writers where wr: "openParticleWriters M mk create (spOutDir a) base f1 = (f2, Inr writers)"
        "\<forall>k w. writers k = Some w \<longrightarrow> sent w = [] \<and> length (streams k) \<le> quota w"
      using disk unfolding filesFor_def by blast
    note writers = openParticleWriters_new [OF assms(1) wr(1)]
    have all: "allCopied (ceParticleIn cenv) writers" using wr(2) got net by (simp add: allCopied_def)
    from splitRun_outcome [OF order wf input(2), of ?J atExit sess writers] obtain res files w closedDoc where
      r: "splitRun ?J cenv atExit order sess input writers = Some (res, files, w, closedDoc)"
        "w = copied (inpContent input) (the (csData sess ! 0))"
        "closedDoc \<longleftrightarrow> length (inpContent input) \<le> quota (the (csData sess ! 0)) \<and> inpEnd input = EOF \<and> ceCloseErr cenv 0 = None"
        "exitCode res = 0 \<longleftrightarrow> closedDoc \<and> allCopied (ceParticleIn cenv) writers \<and> \<not> isl (readTrailer ?J (csIn sess))"
        "exitCode res = 0 \<longrightarrow> (\<forall>k \<in> all_kinds. files k = map_option (copied (inpContent (ceParticleIn cenv k))) (writers k))"
      by (elim exE conjE) (rule that)
    have ok: "closedDoc" "exitCode res = 0" using r(3,4) input(3,4) room net all trailer by auto
    have "pcsSplit M ?J f mk create osOpen stdin cenv atExit order args = Some (res, files, Some ?sc)"
      using assms(2,3) input(1,3,5) wr(1) opn(1) r(1,2) ok(1) by (simp add: pcsSplit_def)
    moreover have "\<exists>w. files k = Some w \<and> sent w = streams k" if k: "k \<in> all_kinds" for k
    proof -
      obtain v where "writers k = Some v" using writers(1) k by fastforce
      with r(5) ok(2) k wr(2) got show ?thesis by auto
    qed
    ultimately show ?thesis using ok(2) by blast
  qed
  moreover have "clientSent ?sc = (clientHello ModeSplit noProfile, (cfgToken cfg @ d) # replicate 6 (cfgToken cfg), True)"
    using doc(1,3) room by simp
  ultimately show ?thesis by blast
qed

text \<open>
  A network between the programs: it makes of what the client has sent what the server meets,
  and of what the server has sent what the client meets.  The ports are those the server listens
  on, whatever the client sends.
\<close>

definition splitInvitation :: "config \<Rightarrow> (nat \<Rightarrow> int result) \<Rightarrow> bytes" where
  "splitInvitation cfg listen =
     formatInvitation \<lparr>invToken = cfgToken cfg, invMode = ModeSplit, invPorts = portsFrom listen\<rparr>"

definition splitNetwork :: "config \<Rightarrow> (nat \<Rightarrow> int result) \<Rightarrow> nat \<Rightarrow> (client_sent \<Rightarrow> session_env)
    \<Rightarrow> (session_io \<Rightarrow> client_env) \<Rightarrow> bool" where
  "splitNetwork cfg listen n toServer toClient \<longleftrightarrow>
     (\<forall>b. length (fst (snd b)) = 7 \<longrightarrow> carried b (toServer b) \<and> listenOn (toServer b) = listen) \<and>
     (\<forall>io frame. sent (ctl io) = splitInvitation cfg listen @ frame \<and> frame \<noteq> [] \<longrightarrow>
        splitDelivered (toClient io) (cfgToken cfg) n (splitInvitation cfg listen) frame (particleOut io))"

lemma split_command_stores:
  assumes "pcs_contract M" "parseArgs splitFlags args splitDefaults = Inr a" "spFile a \<noteq> []"
    and input: "openInput osOpen stdin (spFile a) (spName a) = Inr (base, input)" "wf_inp input"
      "inpContent input = d" "inpEnd input = EOF" "ensureStorageDirs mk M f (spOutDir a) = (f1, None)"
    and codec: "codec_restores M enc dec" "\<forall>meta. codecReturns enc dec meta \<longrightarrow> footersSound F meta"
    and server: "freshSession io0" "\<forall>k. particleOut io0 k = []"
      "length (splitInvitation cfg listen) + 2 ^ 20 + 8 \<le> quota (ctl io0)"
      "fits d (cfgMaxObjectSize cfg)" "length d < 2 ^ 63"
    and net: "splitNetwork cfg listen (length d) toServer toClient" "tokenShared cfg (spToken a)"
  shows "\<exists>io' sc frame stats. handleCom M F (goJson errText) enc dec cfg (toServer (clientSent sc)) io0 = Some io' \<and>
    clientSent sc = (clientHello ModeSplit noProfile, (cfgToken cfg @ d) # replicate 6 (cfgToken cfg), True) \<and>
    sent (ctl io') = splitInvitation cfg listen @ frame \<and> frame \<noteq> [] \<and> last (logged io') = (stats, None) \<and>
    restores M dec (particleOut io') d \<and>
    (\<forall>create order atExit. filesFor M mk create (spOutDir a) base f1 (particleOut io') \<and> finishOrder order \<longrightarrow>
       (\<exists>res files. pcsSplit M (goJson errText) f mk create osOpen stdin (toClient io') atExit order args =
            Some (res, files, Some sc) \<and>
          exitCode res = 0 \<and> (\<forall>k \<in> all_kinds. \<exists>w. files k = Some w \<and> sent w = particleOut io' k)))"
proof -
  let ?b = "(clientHello ModeSplit noProfile, (cfgToken cfg @ d) # replicate 6 (cfgToken cfg), True)"
  let ?env = "toServer ?b"
  have env: "carried ?b ?env" "listenOn ?env = listen" using net(1) by (simp_all add: splitNetwork_def)
  then have inv: "invitationFor cfg ?env ModeSplit = splitInvitation cfg listen"
    by (simp add: invitationFor_def splitInvitation_def)
  have "hasRoom cfg ?env ModeSplit 0 io0" using server(3) by (simp add: hasRoom_def inv)
  from server_splits [OF codec carried_offered [OF env(1)] server(1,2) this server(4,5), of errText]
  obtain io' t meta stats where io: "handleCom M F (goJson errText) enc dec cfg ?env io0 = Some io'"
      "sent (ctl io') = splitInvitation cfg listen @ trailerFrame (trailerJson t)" "last (logged io') = (stats, None)"
      "restores M dec (particleOut io') d"
    and t: "metaSound F meta" "t \<in> serverTrailers M F meta"
    unfolding inv by blast
  have listens: "listens ?env" using env(1) by (simp add: carried_def)
  have frame: "trailerFrame (trailerJson t) \<noteq> []" by (simp add: trailerFrame_def)
  with io(2) net(1) have "splitDelivered (toClient io') (cfgToken cfg) (length d) (invitationFor cfg ?env ModeSplit)
      (trailerFrame (trailerJson t)) (particleOut io')"
    unfolding inv splitNetwork_def by blast
  from split_command_runs [OF assms(1-3) input net(2) listens t this, of errText] io frame
  show ?thesis by metis
qed

section \<open>A concrete split\<close>

text \<open>A network that delivers everything, with a client whose writes have room for \<open>q\<close> bytes.\<close>

definition idealClient :: "bytes \<Rightarrow> bytes \<Rightarrow> bytes \<Rightarrow> (particle_kind \<Rightarrow> bytes) \<Rightarrow> nat \<Rightarrow> client_env" where
  "idealClient invite frame doc streams q =
     \<lparr>ceControl = Inr (\<lparr>sent = [], quota = q, outErr = EOF\<rparr>, \<lparr>chunks = [invite, frame], inpEnd = EOF, early = False\<rparr>),
      ceDial = (\<lambda>n. Inr \<lparr>sent = [], quota = q, outErr = EOF\<rparr>),
      ceDataIn = (\<lambda>n. wholeStream (case n of 0 \<Rightarrow> doc | Suc i \<Rightarrow> streams (particleKinds ! i))),
      ceCloseErr = (\<lambda>n. None)\<rparr>"

lemma idealClient_ok:
  "length hello \<le> q \<Longrightarrow> length token \<le> q \<Longrightarrow> reachable (idealClient invite frame doc streams q) hello token"
  "invite \<noteq> [] \<Longrightarrow> frame \<noteq> [] \<Longrightarrow> controlAnswered (idealClient invite frame doc streams q) invite frame"
  "invite \<noteq> [] \<Longrightarrow> frame \<noteq> [] \<Longrightarrow> answered (idealClient invite frame doc streams q) invite frame doc"
  "delivered streams (ceParticleIn (idealClient invite frame doc streams q))"
  "k \<in> all_kinds \<Longrightarrow> inpEnd (ceParticleIn (idealClient invite frame doc streams q) k) = EOF"
proof -
  show "length hello \<le> q \<Longrightarrow> length token \<le> q \<Longrightarrow> reachable (idealClient invite frame doc streams q) hello token"
    by (auto simp: reachable_def idealClient_def intro!: exI [of _ "\<lambda>n. \<lparr>sent = [], quota = q, outErr = EOF\<rparr>"])
  show c: "controlAnswered (idealClient invite frame doc streams q) invite frame" if "invite \<noteq> []" "frame \<noteq> []"
    unfolding controlAnswered_def
    by (rule exI [of _ "\<lparr>sent = [], quota = q, outErr = EOF\<rparr>"],
      rule exI [of _ "\<lparr>chunks = [invite, frame], inpEnd = EOF, early = False\<rparr>"], rule exI [of _ "[invite]"], rule exI [of _ "[frame]"])
      (use that in \<open>simp add: idealClient_def wf_inp_def\<close>)
  then show "answered (idealClient invite frame doc streams q) invite frame doc" if "invite \<noteq> []" "frame \<noteq> []"
    using that by (simp add: answered_def ceDocIn_def) (simp add: idealClient_def)
  show "delivered streams (ceParticleIn (idealClient invite frame doc streams q))"
    by (auto simp: delivered_def ceParticleIn_def particleReaders_def idealClient_def all_kinds_def particleKinds_def
        eval_nat_numeral split: particle_kind.split)
  show "k \<in> all_kinds \<Longrightarrow> inpEnd (ceParticleIn (idealClient invite frame doc streams q) k) = EOF"
    by (auto simp: ceParticleIn_def particleReaders_def idealClient_def all_kinds_def)
qed


text \<open>A split with \<open>pcs-split -token=T -f=x -o=d\<close> into folders that are there.\<close>

definition sample_split_args :: split_args where
  "sample_split_args = splitDefaults\<lparr>spToken := ''T'', spFile := ''x'', spOutDir := ''d''\<rparr>"

lemma sample_split_parse:
  "parseArgs splitFlags [''-token=T'', ''-f=x'', ''-o=d''] splitDefaults = Inr sample_split_args"
  using parseArgs_flag [of "''token''" splitFlags _ "''T''"] parseArgs_flag [of "''f''" splitFlags _ "''x''"]
    parseArgs_flag [of "''o''" splitFlags _ "''d''"]
  by (simp add: splitFlags_def parseArgs_Nil sample_split_args_def)

lemma sample_split_input:
  "openInput (\<lambda>file. Inr (wholeStream ''doc'')) (wholeStream []) (spFile sample_split_args) (spName sample_split_args) =
     Inr (''x'', wholeStream ''doc'')"
  by (simp add: openInput_def sample_split_args_def splitDefaults_def pathBase_def stripSlashes_def)

lemma mkdirAll_there: "f (cleanPath path) = Inr (Dir n) \<Longrightarrow> mkdirAll mk f path = (f, None)"
  by (simp add: mkdirAll.simps)

lemma sample_split_dirs:
  "ensureStorageDirs mk sample_module complete_store (spOutDir sample_split_args) = (complete_store, None)"
  by (simp add: ensureStorageDirs_def storageDirs_def sample_module_def mkdirAll_there complete_store_def)

lemma openWriters_ok:
  assumes "\<And>path. create path = Inr w"
  shows "\<forall>k \<in> set kinds. \<exists>n. f (cleanPath (pathDir (particlePath M outDir base k))) = Inr (Dir n) \<Longrightarrow>
    \<forall>k \<in> set kinds. \<forall>j \<in> set kinds.
      cleanPath (pathDir (particlePath M outDir base k)) \<noteq> cleanPath (particlePath M outDir base j) \<Longrightarrow>
    \<exists>f' writers. openWriters M mk create outDir base kinds f files = (f', Inr writers)"
proof (induction kinds arbitrary: f files)
  case (Cons kind kinds)
  let ?path = "particlePath M outDir base kind"
  obtain n where "f (cleanPath (pathDir ?path)) = Inr (Dir n)" using Cons.prems(1) by auto
  moreover have "\<exists>f' writers. openWriters M mk create outDir base kinds (f(cleanPath ?path := Inr (File []))) (files(kind \<mapsto> w)) =
      (f', Inr writers)"
    by (rule Cons.IH) (use Cons.prems in auto)
  ultimately show ?case using assms [of ?path] by (simp add: mkdirAll_there Let_def)
qed simp

lemma sample_split_files:
  "\<exists>f2 writers. openParticleWriters sample_module mk (\<lambda>path. Inr \<lparr>sent = [], quota = q, outErr = EOF\<rparr>)
     (spOutDir sample_split_args) ''x'' complete_store = (f2, Inr writers)"
proof -
  have d: "pathDir (particlePath sample_module ''d'' ''x'' k) \<in> {''d/storageA'', ''d/storageB'', ''d/storageC''}"
    if "k \<in> all_kinds" for k
    using that by (auto simp: all_kinds_def lostA_paths pathDir_def cleanPath_def cleanStep_def)
  have c: "cleanPath (particlePath sample_module ''d'' ''x'' k) \<in>
      {''d/storageA/x.ec'', ''d/storageB/x.oc'', ''d/storageB/x.en'', ''d/storageA/x.on'', ''d/storageC/x.cp'', ''d/storageC/x.np''}"
    if "k \<in> all_kinds" for k
    using that by (auto simp: all_kinds_def lostA_paths cleanPath_def cleanStep_def)
  have e: "cleanPath ''d/storageA'' = ''d/storageA''" "cleanPath ''d/storageB'' = ''d/storageB''"
      "cleanPath ''d/storageC'' = ''d/storageC''"
    by (simp_all add: cleanPath_def cleanStep_def)
  have all: "set (AllParticleKinds sample_module) = all_kinds" by (rule pcs_contract_all [OF sample_module_contract])
  have "cleanPath (pathDir (particlePath sample_module ''d'' ''x'' k)) \<noteq> cleanPath (particlePath sample_module ''d'' ''x'' j)"
    if "k \<in> all_kinds" "j \<in> all_kinds" for k j
    using d [OF that(1)] c [OF that(2)] e by auto
  then show ?thesis
    unfolding openParticleWriters_def
    by (intro openWriters_ok [where w = "\<lparr>sent = [], quota = q, outErr = EOF\<rparr>"])
      (auto simp: all complete_store_def sample_split_args_def)
qed


lemma mirror_sound: "codecReturns mirrorEncoder mirrorDecoder meta \<Longrightarrow> footersSound sample_footers meta"
  by (auto simp: codecReturns_def mirrorEncoder_def mirrorDecoder_def footersSound_def
      split: prod.splits option.splits if_splits)

lemma sample_room: "2 ^ 20 + 30 \<le> q \<Longrightarrow> hasRoom sample_config (sample_env as) ModeSplit 0 (sample_io q)"
  by (simp add: hasRoom_def sample_invitation) 

lemma sample_fresh: "freshSession (sample_io q)" "particleOut (sample_io q) k = []"
  by (simp_all add: freshSession_def sample_io_def)

lemma sample_fits: "fits d (cfgMaxObjectSize sample_config)" "tokenShared sample_config ''T''" "tokenShared sample_config []"
  by (simp_all add: fits_def tokenShared_def sample_config_def asciiSpace_def)


lemma sample_split_token: "spFile sample_split_args \<noteq> []" "tokenShared sample_config (spToken sample_split_args)"
  using sample_fits(2) by (simp_all add: sample_split_args_def)

lemma nonempty_hello: "formatInvitation i \<noteq> []" 
  by (simp add: formatInvitation_def)

lemma sample_files:
  assumes "\<And>k. k \<in> all_kinds \<Longrightarrow> length (streams k) \<le> q"
  shows "filesFor sample_module mk (\<lambda>path. Inr \<lparr>sent = [], quota = q, outErr = EOF\<rparr>) (spOutDir sample_split_args) ''x''
    complete_store streams"
proof -
  obtain f2 writers where w: "openParticleWriters sample_module mk (\<lambda>path. Inr \<lparr>sent = [], quota = q, outErr = EOF\<rparr>)
      (spOutDir sample_split_args) ''x'' complete_store = (f2, Inr writers)"
    using sample_split_files by blast
  note new = openParticleWriters_new [OF sample_module_contract w]
  have "sent v = [] \<and> length (streams k) \<le> quota v" if k: "writers k = Some v" for k v
  proof -
    have "k \<in> all_kinds" using new(1) k by (metis option.discI)
    with new(2) [OF k] assms show ?thesis by auto
  qed
  with w show ?thesis unfolding filesFor_def by blast
qed

text \<open>A network that delivers everything: what it makes of the two sides.\<close>

definition sampleListen :: "nat \<Rightarrow> int result" where
  "sampleListen i = Inr (int i)"

definition sampleToServer :: "client_sent \<Rightarrow> session_env" where
  "sampleToServer b = \<lparr>ctlIn = wholeStream (fst b), listenOn = sampleListen,
     acceptsOn = map (\<lambda>c. Some (Inr c)) (map wholeStream (fst (snd b))), acceptOrder = [0..<7]\<rparr>"

definition sampleToClient :: "session_io \<Rightarrow> client_env" where
  "sampleToClient io = (let invite = splitInvitation sample_config sampleListen in
     idealClient invite (drop (length invite) (sent (ctl io))) [] (particleOut io) 100)"

lemma sample_splitInvitation:
  "splitInvitation sample_config sampleListen = invitationFor sample_config (sample_env []) ModeSplit"
  by (simp add: splitInvitation_def invitationFor_def sample_env_def sampleListen_def [abs_def])

lemma sample_carried:
  assumes "length (fst (snd b)) = 7"
  shows "carried b (sampleToServer b)"
proof -
  obtain hello bs datas closedDoc where b: "b = (hello, bs # datas, closedDoc)"
    using assms by (cases b; cases "fst (snd b)") auto
  have "list_all2 (\<lambda>bs c. wf_inp c \<and> inpContent c = bs) (bs # datas) (map wholeStream (bs # datas))"
    by (simp add: list.rel_map list_all2_same)
  then show ?thesis
    unfolding b carried_def prod.case
    by (intro conjI exI [of _ "map wholeStream (bs # datas)"])
      (auto simp: sampleToServer_def sampleListen_def listens_def is_int64_def)
qed

lemma sample_delivered:
  assumes "frame \<noteq> []" "invite \<noteq> []"
  shows "splitDelivered (idealClient invite frame [] streams 100) ''T'' (length ''doc'') invite frame streams"
proof -
  let ?c = "idealClient invite frame [] streams 100"
  have "reachable ?c (clientHello ModeSplit noProfile) ''T''"
    by (rule idealClient_ok(1)) (simp_all add: clientHello_def ModeSplit_def ModeMerge_def)
  moreover have "controlAnswered ?c invite frame" using assms by (intro idealClient_ok(2))
  moreover have "freshClient ?c" "ceCloseErr ?c 0 = None" "length ''T'' + length ''doc'' \<le> quota (projr (ceDial ?c 0))"
    by (simp_all add: freshClient_def idealClient_def)
  ultimately show ?thesis
    unfolding splitDelivered_def splitConnected_def using assms(1)
    by (intro conjI idealClient_ok(4) ballI idealClient_ok(5))
qed

lemma sample_network: "splitNetwork sample_config sampleListen (length ''doc'') sampleToServer sampleToClient"
proof -
  have token: "cfgToken sample_config = ''T''" by (simp add: sample_config_def)
  have "splitInvitation sample_config sampleListen \<noteq> []" by (simp add: splitInvitation_def nonempty_hello)
  then show ?thesis
    unfolding splitNetwork_def token using sample_carried sample_delivered
    by (auto simp: sampleToServer_def sampleToClient_def Let_def)
qed

definition diskFor :: "session_io \<Rightarrow> string \<Rightarrow> outp result" where
  "diskFor io path = Inr \<lparr>sent = [], quota = \<Sum>k \<in> all_kinds. length (particleOut io k), outErr = EOF\<rparr>"

lemma sample_disk: "filesFor sample_module mk (diskFor io) (spOutDir sample_split_args) ''x'' complete_store (particleOut io)"
proof -
  have "length (particleOut io k) \<le> (\<Sum>k \<in> all_kinds. length (particleOut io k))" if "k \<in> all_kinds" for k
    by (rule member_le_sum [OF that]) (simp_all add: all_kinds_def)
  from sample_files [OF this] show ?thesis by (simp add: diskFor_def [abs_def])
qed

lemma sample_split_room:
  "length (splitInvitation sample_config sampleListen) + 2 ^ 20 + 8 \<le> quota (ctl (sample_io 2000000))"
  by (simp add: sample_splitInvitation sample_invitation)

lemma sample_splitBy:
  "\<exists>stored. splitBy sample_module sample_footers (goJson OSError) mirrorEncoder mirrorDecoder sample_config ''doc'' stored"
proof -
  let ?J = "goJson OSError" and ?io = "sample_io 2000000" and ?inv = "splitInvitation sample_config sampleListen"
  have sound: "\<forall>meta. codecReturns mirrorEncoder mirrorDecoder meta \<longrightarrow> footersSound sample_footers meta"
    and empty: "\<forall>k. particleOut ?io k = []" and len: "length ''doc'' < 2 ^ 63"
    using mirror_sound sample_fresh(2) by simp_all
  obtain io' sc frame where io: "handleCom sample_module sample_footers ?J mirrorEncoder mirrorDecoder sample_config
        (sampleToServer (clientSent sc)) ?io = Some io'"
      "clientSent sc = (clientHello ModeSplit noProfile, (cfgToken sample_config @ ''doc'') # replicate 6 (cfgToken sample_config), True)"
      "sent (ctl io') = ?inv @ frame" "frame \<noteq> []"
    and client: "\<And>create order atExit. filesFor sample_module (\<lambda>path. Inr 0) create (spOutDir sample_split_args) ''x''
         complete_store (particleOut io') \<Longrightarrow> finishOrder order \<Longrightarrow>
       \<exists>res files. pcsSplit sample_module ?J complete_store (\<lambda>path. Inr 0) create (\<lambda>file. Inr (wholeStream ''doc''))
           (wholeStream []) (sampleToClient io') atExit order [''-token=T'', ''-f=x'', ''-o=d''] = Some (res, files, Some sc) \<and>
         exitCode res = 0 \<and> (\<forall>k \<in> all_kinds. \<exists>w. files k = Some w \<and> sent w = particleOut io' k)"
    using split_command_stores [where mk = "\<lambda>path. Inr 0" and errText = OSError, OF sample_module_contract
      sample_split_parse sample_split_token(1) sample_split_input wholeStream_simps(1-3) sample_split_dirs mirror_codec sound
      sample_fresh(1) empty sample_split_room sample_fits(1) len sample_network sample_split_token(2)]
    by blast
  obtain res files where p: "pcsSplit sample_module ?J complete_store (\<lambda>path. Inr 0) (diskFor io') (\<lambda>file. Inr (wholeStream ''doc''))
        (wholeStream []) (sampleToClient io') (\<lambda>k. 0) six [''-token=T'', ''-f=x'', ''-o=d''] = Some (res, files, Some sc)"
      "exitCode res = 0" "\<forall>k \<in> all_kinds. \<exists>w. files k = Some w \<and> sent w = particleOut io' k"
    using client [OF sample_disk finishOrder_six] by blast
  have there: "carried (clientSent sc) (sampleToServer (clientSent sc))" by (rule sample_carried) (simp add: io(2))
  have inv: "invitationFor sample_config (sampleToServer (clientSent sc)) ModeSplit = ?inv"
    by (simp add: invitationFor_def splitInvitation_def sampleToServer_def)
  have room: "hasRoom sample_config (sampleToServer (clientSent sc)) ModeSplit 0 ?io"
    using sample_split_room by (simp add: hasRoom_def inv)
  from io(3,4) sample_network have "splitDelivered (sampleToClient io') (cfgToken sample_config) (length ''doc'') ?inv frame (particleOut io')"
    unfolding splitNetwork_def by blast
  then have reply: "splitConnected (sampleToClient io') (cfgToken sample_config)
      (invitationFor sample_config (sampleToServer (clientSent sc)) ModeSplit) frame"
    "delivered (particleOut io') (ceParticleIn (sampleToClient io'))"
    by (simp_all add: splitDelivered_def inv)
  have new: "\<forall>path w. diskFor io' path = Inr w \<longrightarrow> sent w = []" by (simp add: diskFor_def)
  have got: "\<forall>k \<in> all_kinds. \<exists>w. files k = Some w \<and> particleOut io' k = sent w" using p(3) by metis
  have "splitBy sample_module sample_footers ?J mirrorEncoder mirrorDecoder sample_config ''doc'' (particleOut io')"
    unfolding splitBy_def
    by (intro exI conjI, rule sample_split_parse, rule sample_split_input, rule wholeStream_simps(1),
      rule wholeStream_simps(2), rule p(1), rule p(2), rule there, rule sample_split_token(2), rule sample_fresh(1),
      rule empty, rule room, rule io(1), unfold inv, rule io(3), rule reply [unfolded inv], rule reply(2),
      rule finishOrder_six, rule new, rule got)
  then show ?thesis by blast
qed

text \<open>
  C2: A split by the two programs, over any network that carries to the server what \<open>pcs-split\<close> has
  sent and to \<open>pcs-split\<close> what the server has sent.  There is a run of the two in which the client
  sends its hello, the token on each data connection and behind it the whole document, the
  server logs success, and the decoder restores the document from what it sends; and if the
  disk has room, \<open>pcs-split\<close> ends with exit code 0 and has left six new files with exactly that;
  whatever the order in which the connections come and the streams end, and the segmentation.
\<close>

theorem split_session_stores:
  assumes "pcs_contract M" "parseArgs splitFlags args splitDefaults = Inr a" "spFile a \<noteq> []"
    and input: "openInput osOpen stdin (spFile a) (spName a) = Inr (base, input)" "wf_inp input"
      "inpContent input = d" "inpEnd input = EOF" "ensureStorageDirs mk M f (spOutDir a) = (f1, None)"
    and codec: "codec_restores M enc dec" "\<forall>meta. codecReturns enc dec meta \<longrightarrow> footersSound F meta"
    and server: "freshSession io0" "\<forall>k. particleOut io0 k = []"
      "length (splitInvitation cfg listen) + 2 ^ 20 + 8 \<le> quota (ctl io0)"
      "fits d (cfgMaxObjectSize cfg)" "length d < 2 ^ 63"
    and net: "splitNetwork cfg listen (length d) toServer toClient" "tokenShared cfg (spToken a)"
  shows "\<exists>io' sc frame stats. handleCom M F (goJson errText) enc dec cfg (toServer (clientSent sc)) io0 = Some io' \<and>
    clientSent sc = (clientHello ModeSplit noProfile, (cfgToken cfg @ d) # replicate 6 (cfgToken cfg), True) \<and>
    sent (ctl io') = splitInvitation cfg listen @ frame \<and> frame \<noteq> [] \<and> last (logged io') = (stats, None) \<and>
    restores M dec (particleOut io') d \<and>
    (\<forall>create order atExit. filesFor M mk create (spOutDir a) base f1 (particleOut io') \<and> finishOrder order \<longrightarrow>
       (\<exists>res files. pcsSplit M (goJson errText) f mk create osOpen stdin (toClient io') atExit order args =
            Some (res, files, Some sc) \<and>
          exitCode res = 0 \<and> (\<forall>k \<in> all_kinds. \<exists>w. files k = Some w \<and> sent w = particleOut io' k)))"
  by (rule split_command_stores [OF assms])

theorem split_session_stores_witness:
  "\<exists>io' sc res files. handleCom sample_module sample_footers (goJson OSError) mirrorEncoder mirrorDecoder
       sample_config (sampleToServer (clientSent sc)) (sample_io 2000000) = Some io' \<and>
     fst (snd (clientSent sc)) = [''Tdoc'', ''T'', ''T'', ''T'', ''T'', ''T'', ''T''] \<and>
     pcsSplit sample_module (goJson OSError) complete_store (\<lambda>path. Inr 0) (diskFor io')
       (\<lambda>file. Inr (wholeStream ''doc'')) (wholeStream []) (sampleToClient io') (\<lambda>k. 0) six
       [''-token=T'', ''-f=x'', ''-o=d''] = Some (res, files, Some sc) \<and> exitCode res = 0 \<and>
     map_option sent (files EvenCypher) = Some (particleOut io' EvenCypher)"
proof -
  have sound: "\<forall>meta. codecReturns mirrorEncoder mirrorDecoder meta \<longrightarrow> footersSound sample_footers meta"
    and empty: "\<forall>k. particleOut (sample_io 2000000) k = []" and len: "length ''doc'' < 2 ^ 63"
    using mirror_sound sample_fresh(2) by simp_all
  have token: "(cfgToken sample_config @ ''doc'') # replicate 6 (cfgToken sample_config) =
      [''Tdoc'', ''T'', ''T'', ''T'', ''T'', ''T'', ''T'']"
    by (simp add: sample_config_def numeral_eq_Suc)
  obtain io' sc where io: "handleCom sample_module sample_footers (goJson OSError) mirrorEncoder mirrorDecoder sample_config
        (sampleToServer (clientSent sc)) (sample_io 2000000) = Some io'"
      "clientSent sc = (clientHello ModeSplit noProfile, [''Tdoc'', ''T'', ''T'', ''T'', ''T'', ''T'', ''T''], True)"
    and client: "\<And>create order atExit. filesFor sample_module (\<lambda>path. Inr 0) create (spOutDir sample_split_args) ''x''
         complete_store (particleOut io') \<Longrightarrow> finishOrder order \<Longrightarrow>
       \<exists>res files. pcsSplit sample_module (goJson OSError) complete_store (\<lambda>path. Inr 0) create (\<lambda>file. Inr (wholeStream ''doc''))
           (wholeStream []) (sampleToClient io') atExit order [''-token=T'', ''-f=x'', ''-o=d''] = Some (res, files, Some sc) \<and>
         exitCode res = 0 \<and> (\<forall>k \<in> all_kinds. \<exists>w. files k = Some w \<and> sent w = particleOut io' k)"
    using split_session_stores [where mk = "\<lambda>path. Inr 0" and errText = OSError and F = sample_footers, OF sample_module_contract
      sample_split_parse sample_split_token(1) sample_split_input wholeStream_simps(1-3) sample_split_dirs mirror_codec sound
      sample_fresh(1) empty sample_split_room sample_fits(1) len sample_network sample_split_token(2)]
    unfolding token by blast
  obtain res files where "pcsSplit sample_module (goJson OSError) complete_store (\<lambda>path. Inr 0) (diskFor io') (\<lambda>file. Inr (wholeStream ''doc''))
        (wholeStream []) (sampleToClient io') (\<lambda>k. 0) six [''-token=T'', ''-f=x'', ''-o=d''] = Some (res, files, Some sc)"
      "exitCode res = 0" "\<forall>k \<in> all_kinds. \<exists>w. files k = Some w \<and> sent w = particleOut io' k"
    using client [OF sample_disk finishOrder_six] by blast
  moreover have "EvenCypher \<in> all_kinds" by (simp add: all_kinds_def)
  ultimately show ?thesis using io
    by (intro exI [of _ io'] exI [of _ sc] exI [of _ res] exI [of _ files]) fastforce
qed

end
