(* ===== verification/Spec2Isabelle.thy ===== *)
theory Spec2Isabelle
  imports Commands ServiceMain MergePlan Frames TrailerFits TrailingFooter Limits ClientPlan SplitStreams ServerLoop UploadFiles Backpressure SplitFlow SplitSessions
begin

text \<open>
  This development verifies the Go program \<open>pcs-service\<close>: a TCP server that splits a document
  into six particle streams and merges particle streams back into a document, and the two
  command line clients that use it.

  The parts and how they interact.  A client dials the control port, writes a mode line and,
  for a merge, a profile line that says which core particles are missing
  (\<open>protocol/handshake.go\<close>, \<open>protocol/merge_profile.go\<close>).  The server answers with an invitation
  of seven ports and a token, accepts seven data connections, checks the token on them
  (\<open>protocol/session.go\<close>) and runs the codec of the \<open>pcs\<close> module between the document
  connection and the six particle connections (\<open>server/split.go\<close>, \<open>server/merge.go\<close>).  It ends
  with a trailer or an error frame on the control connection (\<open>protocol/trailer.go\<close>,
  \<open>protocol/error.go\<close>).  Which particle streams a merge carries is decided twice, by the client
  from the files it finds (\<open>store/inventory.go\<close>) and by the server from the profile, with one
  planner (\<open>mergeplan/merge_plan.go\<close>).  The server's settings come from its environment and its
  command line (\<open>config/config.go\<close>).

  The theories, from the bottom up.
    \<^item> \<open>Prelude\<close>, \<open>Kinds\<close>: bytes, Go errors as values with their printed text, results
      (\<open>Inl\<close> the error), Go maps to \<open>bool\<close>, \<open>int64\<close> arithmetic; the particle kinds and the
      constants of the \<open>pcs\<close> module as a parameter \<open>M\<close> with the contract \<open>pcs_contract\<close>.
    \<^item> The standard library, as far as the code calls it: \<open>GoText\<close> (\<open>strings\<close>, \<open>strconv\<close>, \<open>fmt\<close>),
      \<open>GoPath\<close> (\<open>path/filepath\<close>), \<open>GoNet\<close> (\<open>net.SplitHostPort\<close>, \<open>net.ParseIP\<close>), \<open>GoFlag\<close>
      (\<open>flag\<close>, \<open>strconv.ParseInt\<close>), \<open>GoTime\<close> (\<open>time.ParseDuration\<close>, with its \<open>float64\<close> rounding),
      \<open>GoJson\<close> (\<open>encoding/json\<close>: strings, objects, the scanner and its limit on nesting).
    \<^item> \<open>Reader\<close>, \<open>Lines\<close>: \<open>io.Reader\<close> as the locales \<open>io_reader\<close> and \<open>busy_reader\<close>, the receiving
      half of a connection (\<open>inp\<close>: the chunks the network delivers and how it ends) and
      \<open>bufio.Reader\<close> over any reader; both are interpretations of the locales, so what is read
      depends only on the bytes sent.  \<open>Writer\<close>, \<open>Copy\<close>: the sending half \<open>outp\<close>, which takes so
      many bytes and then fails, and the copy loop of \<open>io.CopyBuffer\<close>.
    \<^item> \<open>MergePlan\<close>: \<open>mergeplan/merge_plan.go\<close>.  \<open>MergeProfile\<close>: \<open>protocol/merge_profile.go\<close>, the mask
      an \<open>8 word\<close>.  \<open>Handshake\<close>: \<open>protocol/handshake.go\<close>.  \<open>Frames\<close>: \<open>protocol/error.go\<close> and the
      trailer frame.  \<open>TrailerData\<close>: the trailer's fields, with hex and base64.  \<open>TrailerJson\<close>: its
      JSON text, written and read.  \<open>TrailerFits\<close>: the trailers the server builds, on the wire.
    \<^item> \<open>Config\<close>: \<open>config/config.go\<close>, from the environment and the arguments to the settings and
      the start-up warning.
    \<^item> \<open>TrailingFooter\<close>: \<open>particleio/trailing_footer.go\<close>, a reader on a reader.  \<open>Tokens\<close>: the token
      reading of \<open>protocol/session.go\<close>, on both sides an \<open>io_reader\<close>.  \<open>Limits\<close>: the capped reader and
      writer of \<open>server/split.go\<close> and \<open>server/merge.go\<close>, over the locales \<open>late_reader\<close> and
      \<open>io_writer\<close>.
    \<^item> \<open>Store\<close>: \<open>store/\<close> on a file system that is a function from paths to what \<open>os.Stat\<close> answers.
      \<open>ClientPlan\<close>: addresses, skip lists, profiles and plans of \<open>client/\<close>.
    \<^item> \<open>SessionNet\<close>: the ports and connections of one session; \<open>net_state\<close> records which listeners
      and connections are open.  \<open>Server\<close>: \<open>handleCom\<close> and all it calls.
    \<^item> \<open>Steps\<close>: the locale \<open>invariant_system\<close> of step relations; \<open>ServerLoop\<close>: \<open>Serve\<close>, the session
      goroutines and \<open>Shutdown\<close> interleaved; \<open>ServiceMain\<close>: \<open>cmd/pcs-service\<close>, start and exit.
    \<^item> \<open>Upload\<close>: opening a client session and the upload with its goroutines interleaved
      (\<open>client/merge.go\<close>); \<open>UploadFiles\<close>: each goroutine as a function, which refines the steps;
      \<open>Backpressure\<close>: the upload against a server that reads it, over connections of bounded
      capacity; \<open>SplitFlow\<close>: the goroutines of a split against the server, in the same way.
    \<^item> \<open>Download\<close>: \<open>client/split.go\<close> and the copies of \<open>client/client.go\<close>; \<open>MergeFlow\<close>: the merge
      sessions of \<open>client/merge.go\<close>; \<open>Commands\<close>: \<open>cmd/pcs-merge\<close> and \<open>cmd/pcs-split\<close>, from the
      arguments to the exit code and the files.
    \<^item> \<open>MergeStreams\<close>, \<open>SplitStreams\<close>: the streams between connections and codec, and the contracts of
      decoder and encoder.  \<open>Sessions\<close>, \<open>SplitSessions\<close>: a merge and a split by the two programs,
      \<open>pcs-merge\<close> or \<open>pcs-split\<close> on the one end and \<open>handleCom\<close> on the other.
    \<^item> this theory: what needs all of it.

  What the lemmas show.  Round trips: profile lines, handshakes, invitations, frames, base64,
  the trailer through JSON, a document through \<open>pcs-split\<close>, the server and \<open>pcs-merge\<close>.  Refinement: every function
  that reads from the network equals a function of the byte string sent (\<open>handshakeSpec\<close>, the
  locales' \<open>drain\<close> lemmas).  Invariants: the look-behind of the footer reader, the session
  limit, the upload order, what an upload that failed has closed and sent.  Termination and
  deadlock: an upload against a reader in constant memory returns when its core streams need not
  wait for a parity stream, and never when they must; a split always comes to its end; which
  clients keep a session of the server from returning.  Resources: what a session leaves open on
  every path.  Bounds: the \<open>int64\<close> arithmetic of the size limits and of the trailer length, the
  length of the server's trailers.  Several
  theorems state exactly where the code does not do what its comments say.

  Calls that do not return.  A connection may end in \<open>Stalled\<close>: it stays open and sends no more.
  A read that comes to it, and a call whose error it is, wrapped or not (\<open>endless\<close>), does not
  return; nor does one whose error is \<open>Panic\<close>, which ends the process.  \<open>acceptSession\<close> and
  \<open>handleCom\<close> are \<open>None\<close> then, and for a data connection that never comes.  The theorems on the
  client programs are about connections that do not stall (\<open>live\<close>, \<open>returns\<close>).  A write takes its
  bytes or fails; that it waits for a peer that does not read is the matter of \<open>Backpressure\<close> and
  \<open>SplitFlow\<close>, step relations with connections of bounded capacity.  \<open>upload_step\<close> of \<open>Upload\<close> holds
  what an upload may do when no call waits and any may fail; \<open>flow_step\<close> restricts it.

  The two programs together.  In \<open>SplitSessions\<close> what the server meets is what the network makes of
  the bytes \<open>pcs-split\<close> has sent (\<open>clientSent\<close>, \<open>carried\<close>), and what \<open>pcs-split\<close> meets is what it makes
  of the server's (\<open>splitDelivered\<close>); \<open>splitBy\<close> is a run of both.  In \<open>Sessions\<close> the server meets what
  a run of \<open>upload_step\<close> has written.

  Bounds and fuel.  \<open>io.ReadFull\<close> runs with fuel \<open>gas + 1\<close>, where \<open>gas\<close> of an \<open>io_reader\<close> bounds
  the reads it takes to reach the end; the lemmas show that this fuel is never used up.
  \<open>bufio\<close>'s refill loop has the standard library's own bound of 100 empty reads, which a
  connection does not reach.  The copy loop is a \<open>partial_function\<close>, and its lemmas show that it
  returns.  All other recursions are on the data or have a measure.

  Parameters.  The \<open>pcs\<close> module (kinds, storage names, footers, encoder and decoder) is a
  parameter, with its documented behaviour as named hypotheses: \<open>pcs_contract\<close>; \<open>restores\<close> and
  \<open>codec_restores\<close> (the decoder undoes the encoder when it can); \<open>metaSound\<close> and \<open>footersSound\<close> (the types
  and array lengths of what the codec returns); in \<open>Backpressure\<close> and \<open>SplitFlow\<close>, that decoder and
  encoder work in memory that does not grow with the document.  The answers of the network and of the operating
  system (listening, dialling, opening and creating files, the bytes that arrive, the order in
  which goroutines finish) are arguments, universally quantified.

  Not modelled.  The wording of the errors of \<open>encoding/json\<close>, which the client only prints, and
  \<open>%q\<close> beyond ASCII; the shortcuts of \<open>io.CopyBuffer\<close> through \<open>WriteTo\<close> and \<open>ReadFrom\<close>, which have
  the same result; the contents of files other than particles and documents; time, except as
  deadlines that are set or not; data that is in flight when a process exits; in \<open>ServerLoop\<close>, that a
  panic in one session ends the process with all the others.  The tests and
  scripts of the repository are not part of the program.
\<close>

section \<open>The streams the two sides of a merge agree on\<close>

lemma gap_plan:
  "mergeSendPlanFrom sample_module (Some fullInventory) (missingMap \<lparr>MissingMask = 1\<rparr>) =
     Inr (buildPlan fullInventory (missingMap \<lparr>MissingMask = 1\<rparr>))"
  "recoverable (mget (Send (buildPlan fullInventory (missingMap \<lparr>MissingMask = 1\<rparr>))))"
proof -
  have miss: "mget (missingMap \<lparr>MissingMask = 1\<rparr>) k \<longleftrightarrow> k = EvenCypher" for k
    by (cases k) (simp_all add: mget_missingMap kindIndex_def bit_1_iff)
  have "\<forall>k \<in> core_kinds. mget fullInventory k" by (auto simp: core_kinds_def fullInventory_def)
  then show "mergeSendPlanFrom sample_module (Some fullInventory) (missingMap \<lparr>MissingMask = 1\<rparr>) =
      Inr (buildPlan fullInventory (missingMap \<lparr>MissingMask = 1\<rparr>))"
    by (intro mergeSendPlanFrom_ok sample_module_contract) (simp_all add: miss)
  show "recoverable (mget (Send (buildPlan fullInventory (missingMap \<lparr>MissingMask = 1\<rparr>))))"
    by (simp add: recoverable_def pairRecoverable_def buildPlan_send sendCore_def core_kinds_def miss
        fullInventory_def)
qed

text \<open>
  C14: what the client uploads and what the server reads.  The server plans for an inventory
  in which nothing is missing but what the profile declares.  For every profile for which
  the client has a plan, the server has one too, and the two name the same streams exactly
  when the client's send set can be decoded; otherwise the server waits for a parity stream
  that is closed without data.
\<close>

theorem client_and_server_streams_agree:
  assumes "pcs_contract M" "mergeSendPlanFrom M (Some present) (missingMap p) = Inr plan"
  shows "\<exists>splan. mergeSendPlan M p = Inr splan \<and>
    ((\<forall>k. mget (Send splan) k = mget (Send plan) k) \<longleftrightarrow> recoverable (mget (Send plan)))"
  using assms by (rule plans_agree)

theorem client_and_server_streams_agree_witness:
  "\<exists>plan splan. mergeSendPlanFrom sample_module (Some fullInventory) (missingMap \<lparr>MissingMask = 1\<rparr>) = Inr plan \<and>
     mergeSendPlan sample_module \<lparr>MissingMask = 1\<rparr> = Inr splan \<and>
     (\<forall>k. mget (Send splan) k = mget (Send plan) k)"
  using gap_plan client_and_server_streams_agree [OF sample_module_contract gap_plan(1)] by blast

section \<open>A merge by the two programs\<close>

text \<open>
  C3: A merge by the two programs restores the document.  When the arguments of \<open>pcs-merge\<close> name
  files for which it has a plan that can be decoded, and its upload returns without error and
  arrives, then the server sends the document and a trailer and logs success, and when that
  arrives \<open>pcs-merge\<close> ends with exit code 0 and its output file holds exactly the document; for
  every interleaving of the upload, order of the connections and segmentation.
\<close>

theorem merge_session_restores:
  assumes "pcs_contract M" "parseArgs mergeFlags args mergeDefaults = Inr a" "mgFile a \<noteq> []"
    and plan: "mergeProfileFor M f a = Inr p"
      "prepareMergeSendPlan M f (mgDir a) (pathBase (mgFile a)) p = Inr plan" "recoverable (mget (Send plan))"
    and run: "mergeOffered M cfg env p plan particles" "upl plan = None"
    and codec: "restores M dec particles d" "\<forall>meta. codecReturns enc dec meta \<longrightarrow> footersSound F meta"
      "\<forall>k \<in> all_kinds. footerSize M \<le> length (particles k)"
    and room: "freshSession io0" "hasRoom cfg env ModeMerge (length d) io0" "cfgMaxObjectSize cfg \<le> 0" "length d < 2 ^ 63"
    and token: "tokenShared cfg (mgToken a)"
  shows "mergeCompletes M F (goJson errText) enc dec cfg env io0 upl f args (mergeOutPath a) p d"
  by (rule merge_command_restores [where upl = upl, OF assms])

text \<open>A merge with \<open>pcs-merge -token=T -dir=d -f=x -o=out\<close>, and what the server then meets.\<close>

definition restore_args :: merge_args where
  "restore_args = mergeDefaults\<lparr>mgToken := ''T'', mgDir := ''d'', mgFile := ''x'', mgOut := ''out''\<rparr>"

lemma restore_args_parse:
  "parseArgs mergeFlags [''-token=T'', ''-dir=d'', ''-f=x'', ''-o=out''] mergeDefaults = Inr restore_args"
  using parseArgs_flag [of "''token''" mergeFlags _ "''T''"] parseArgs_flag [of "''dir''" mergeFlags _ "''d''"]
    parseArgs_flag [of "''f''" mergeFlags _ "''x''"] parseArgs_flag [of "''o''" mergeFlags _ "''out''"]
  by (simp add: mergeFlags_def parseArgs_Nil restore_args_def)

lemma restore_args_simps:
  "mgFile restore_args \<noteq> []" "mgDir restore_args = ''d''" "pathBase (mgFile restore_args) = ''x''"
  "mergeOutPath restore_args = ''out''" "splitCSV (mgSkip restore_args) = []" "mgToken restore_args = ''T''"
  by (simp_all add: restore_args_def mergeDefaults_def pathBase_def stripSlashes_def mergeOutPath_def splitCSV_pieces)

lemma sample_offer:
  obtains env where "mergeOffered sample_module sample_config env p plan particles"
    "length (invitationFor sample_config env ModeMerge) = 22"
proof -
  obtain u where u: "rtranclp (upload_step sample_module (mget (Send plan)) particles) (newUpload sample_module) u"
      "phase u = UploadReturned None"
    using upload_succeeds [OF sample_module_contract] by blast
  obtain cs where cs: "arrived ''T'' (stream u) cs" using arrived_exists by blast
  let ?env = "\<lparr>ctlIn = wholeStream (clientHello ModeMerge p), listenOn = (\<lambda>i. Inr (int i)),
    acceptsOn = map (\<lambda>c. Some (Inr c)) cs, acceptOrder = [6, 5, 4, 3, 2, 1, 0]\<rparr>"
  have "set [6, 5, 4, 3, 2, 1, 0 :: nat] = {0..<7}" by auto
  moreover have "cfgToken sample_config = ''T''" by (simp add: sample_config_def)
  ultimately have "mergeOffered sample_module sample_config ?env p plan particles"
    unfolding mergeOffered_def using u cs by (auto simp: listens_def is_int64_def)
  moreover have "length (invitationFor sample_config ?env ModeMerge) = 22"
    by (simp add: invitationFor_def sample_config_def portsFrom_def portsOf_def formatInvitation_def
        ModeMerge_def fmtInt_def upt_rec fmtNat.simps)
  ultimately show ?thesis by (rule that)
qed

definition merge_io :: session_io where
  "merge_io = sample_io 2000000\<lparr>docOut := \<lparr>sent = [], quota = 9, outErr = EOF\<rparr>\<rparr>"

lemma merge_io_simps:
  "freshSession merge_io" "length (invitationFor cfg env ModeMerge) = 22 \<Longrightarrow> hasRoom cfg env ModeMerge (length ''doc'') merge_io"
  by (simp_all add: merge_io_def freshSession_def hasRoom_def) (simp add: sample_io_def)

text \<open>What a run of the two programs that completes comes to over a network that delivers.\<close>

lemma completes_ideal:
  assumes "mergeCompletes M F J enc dec cfg env io0 upl f args path p d" "length (clientHello ModeMerge p) \<le> q"
    and "length (cfgToken cfg) \<le> q" "length d \<le> n"
  shows "\<exists>io' cenv res out'. handleCom M F J enc dec cfg env io0 = Some io' \<and> sent (docOut io') = d \<and>
    pcsMerge M J f (\<lambda>path. Inr \<lparr>sent = [], quota = n, outErr = EOF\<rparr>) cenv upl args = Some (res, Some (path, out')) \<and>
    exitCode res = 0 \<and> sent out' = d"
proof -
  let ?inv = "invitationFor cfg env ModeMerge" and ?create = "\<lambda>path :: string. Inr \<lparr>sent = [], quota = n, outErr = EOF\<rparr>"
  obtain io' frame where io: "handleCom M F J enc dec cfg env io0 = Some io'" "frame \<noteq> []" "sent (docOut io') = d"
    and client: "\<And>cenv create out. reachable cenv (clientHello ModeMerge p) (cfgToken cfg) \<Longrightarrow> answered cenv ?inv frame d \<Longrightarrow>
       create path = Inr out \<Longrightarrow> sent out = [] \<Longrightarrow> length d \<le> quota out \<Longrightarrow>
       \<exists>res out'. pcsMerge M J f create cenv upl args = Some (res, Some (path, out')) \<and> exitCode res = 0 \<and> sent out' = d"
    using assms(1) unfolding mergeCompletes_def by blast
  let ?cenv = "idealClient ?inv frame d (\<lambda>k. []) q"
  have "?inv \<noteq> []" by (simp add: invitationFor_def nonempty_hello)
  from client [of ?cenv ?create, OF idealClient_ok(1) [OF assms(2,3)] idealClient_ok(3) [OF this io(2)] refl] assms(4) io(1,3)
  show ?thesis by fastforce
qed

theorem merge_session_restores_witness:
  "\<exists>p env io' cenv res out'. handleCom sample_module sample_footers (goJson OSError) mirrorEncoder mirrorDecoder sample_config
       env merge_io = Some io' \<and> sent (docOut io') = ''doc'' \<and>
     pcsMerge sample_module (goJson OSError) lostA (\<lambda>path. Inr \<lparr>sent = [], quota = 3, outErr = EOF\<rparr>) cenv (\<lambda>plan. None)
       [''-token=T'', ''-dir=d'', ''-f=x'', ''-o=out''] = Some (res, Some (''out'', out')) \<and> exitCode res = 0 \<and> sent out' = ''doc''"
proof -
  obtain p plan where plan: "mergeProfileFor sample_module lostA restore_args = Inr p"
      "prepareMergeSendPlan sample_module lostA (mgDir restore_args) (pathBase (mgFile restore_args)) p = Inr plan"
      "recoverable (mget (Send plan))"
    using storage_loss_survivable_witness restore_args_simps mergeProfileFor_files [of restore_args sample_module lostA]
    by metis
  obtain env where env: "mergeOffered sample_module sample_config env p plan (mirrored ''doc'')"
      "length (invitationFor sample_config env ModeMerge) = 22"
    using sample_offer by blast
  have cfg: "cfgMaxObjectSize sample_config \<le> 0" "length ''doc'' < 2 ^ 63" "cfgToken sample_config = ''T''"
    by (simp_all add: sample_config_def)
  have "\<forall>k \<in> all_kinds. footerSize sample_module \<le> length (mirrored ''doc'' k)"
    by (simp add: mirrored_def sample_module_def)
  with merge_session_restores [where upl = "\<lambda>plan. None", OF sample_module_contract restore_args_parse restore_args_simps(1) plan env(1) _
      mirrorDecoder_restores _ _ merge_io_simps(1) merge_io_simps(2) [OF env(2)] cfg(1,2), of mirrorEncoder sample_footers OSError]
  have "mergeCompletes sample_module sample_footers (goJson OSError) mirrorEncoder mirrorDecoder sample_config env merge_io
      (\<lambda>plan. None) lostA [''-token=T'', ''-dir=d'', ''-f=x'', ''-o=out''] ''out'' p ''doc''"
    using sample_fits(2) mirror_sound by (simp add: restore_args_simps)
  from completes_ideal [OF this, of "Suc (length (clientHello ModeMerge p))" 3] show ?thesis
    by (simp add: cfg(3)) blast
qed

section \<open>A lost storage folder\<close>

text \<open>
  C1: A document survives the loss of a storage folder.  After the two programs have split \<open>d\<close>, any one
  of the three folders may be lost, wholly or in part, if the particle files that are there hold
  what \<open>pcs-split\<close> has written: \<open>pcs-merge\<close> finds a profile that the server accepts and a send
  plan, and every upload of the files by that plan that returns without error and arrives makes
  the server send \<open>d\<close> and \<open>pcs-merge\<close> write exactly \<open>d\<close> and end with exit code 0, whatever the
  interleaving of the upload, the order of the connections, the segmentation and the settings
  of the two servers.
\<close>

theorem document_survives_storage_loss:
  assumes "pcs_contract M" "storage_layout M" "lost \<in> set (storageDirs M)"
    and args: "parseArgs mergeFlags args mergeDefaults = Inr a" "mgFile a \<noteq> []" "splitCSV (mgSkip a) = []"
    and disk: "filesIntact M f (mgDir a) (pathBase (mgFile a)) stored"
    and found: "\<forall>s \<in> set (storageDirs M). folderOk f (pathJoin [mgDir a, s])"
      "\<forall>k \<in> all_kinds. statOk f (particlePath M (mgDir a) (pathBase (mgFile a)) k)"
      "\<forall>s \<in> set (storageDirs M). s \<noteq> lost \<longrightarrow> isThere f (pathJoin [mgDir a, s])"
      "\<forall>k \<in> all_kinds. storageForParticle M k \<noteq> lost \<longrightarrow> isThere f (particlePath M (mgDir a) (pathBase (mgFile a)) k)"
    and codec: "codec_restores M enc dec" "\<forall>meta. codecReturns enc dec meta \<longrightarrow> footersSound F meta"
    and stored: "splitBy M F (goJson errText) enc dec cfg d stored" "fits d (cfgMaxObjectSize cfg)" "length d < 2 ^ 63"
    and server: "cfgMaxObjectSize cfg' \<le> 0" "tokenShared cfg' (mgToken a)"
  shows "\<exists>p plan. prepareMergeFromFiles M f (mgDir a) (pathBase (mgFile a)) = Inr p \<and> validateProfile p = Inr () \<and>
    prepareMergeSendPlan M f (mgDir a) (pathBase (mgFile a)) p = Inr plan \<and>
    (\<forall>env io0 upl. mergeOffered M cfg' env p plan (diskParticle M f (mgDir a) (pathBase (mgFile a))) \<and> upl plan = None \<and>
       freshSession io0 \<and> hasRoom cfg' env ModeMerge (length d) io0 \<longrightarrow>
       mergeCompletes M F (goJson errText) enc dec cfg' env io0 upl f args (mergeOutPath a) p d)"
proof -
  obtain p plan where plan: "prepareMergeFromFiles M f (mgDir a) (pathBase (mgFile a)) = Inr p" "validateProfile p = Inr ()"
      "prepareMergeSendPlan M f (mgDir a) (pathBase (mgFile a)) p = Inr plan" "recoverable (mget (Send plan))"
    using storage_loss_survivable [OF assms(1-3) found] by blast
  have profile: "mergeProfileFor M f a = Inr p" using mergeProfileFor_files [OF args(3), of M f] plan(1) by simp
  have "restores M dec stored d" "\<forall>k \<in> all_kinds. footerSize M \<le> length (stored k)"
    using splitBy_restores [OF assms(1) stored(1) codec stored(2,3)] by simp_all
  then have "mergeCompletes M F (goJson errText) enc dec cfg' env io0 upl f args (mergeOutPath a) p d"
    if "mergeOffered M cfg' env p plan (diskParticle M f (mgDir a) (pathBase (mgFile a)))" "upl plan = None" "freshSession io0"
      "hasRoom cfg' env ModeMerge (length d) io0" for env io0 upl
    by (rule merge_command_restores [where upl = upl, OF assms(1) args(1,2) profile plan(3,4)
        mergeOffered_files [OF assms(1) found(1,2) disk plan(3) that(1)] that(2) _ codec(2) _
        that(3,4) server(1) stored(3) server(2)])
  with plan(1-3) show ?thesis by blast
qed

text \<open>A disk after a split, with folder A and its two files lost.\<close>

definition lostWith :: "(particle_kind \<Rightarrow> bytes) \<Rightarrow> fs" where
  "lostWith stored path =
     (case lostA path of
        Inr (File bs) \<Rightarrow>
          Inr (File (case find (\<lambda>k. particlePath sample_module ''d'' ''x'' k = path) particleKinds of
            Some k \<Rightarrow> stored k | None \<Rightarrow> []))
      | r \<Rightarrow> r)"

lemma lostWith_stat:
  "folderOk (lostWith stored) = folderOk lostA" "statOk (lostWith stored) = statOk lostA"
  "isThere (lostWith stored) = isThere lostA"
proof -
  have "folderOk (lostWith stored) q = folderOk lostA q \<and> statOk (lostWith stored) q = statOk lostA q \<and>
      isThere (lostWith stored) q = isThere lostA q" for q
  proof (cases "lostA q")
    case (Inr n)
    then show ?thesis by (cases n) (simp_all add: lostWith_def stat_defs)
  qed (simp add: lostWith_def stat_defs)
  then show "folderOk (lostWith stored) = folderOk lostA" "statOk (lostWith stored) = statOk lostA"
    "isThere (lostWith stored) = isThere lostA"
    by auto
qed

lemma lostWith_intact: "filesIntact sample_module (lostWith stored) ''d'' ''x'' stored"
proof -
  have "lostWith stored (particlePath sample_module ''d'' ''x'' k) = Inr (File (stored k))"
    if "k \<in> {OddCypher, EvenNoise, CypherParity, NoiseParity}" for k
    using that by (elim insertE emptyE) (simp_all add: lostWith_def lostA_def particleKinds_def lostA_paths)
  then show ?thesis
    unfolding filesIntact_def lostWith_stat using lostA_there by blast
qed

theorem document_survives_storage_loss_witness:
  "\<exists>stored p env io' cenv res out'. splitBy sample_module sample_footers (goJson OSError) mirrorEncoder mirrorDecoder
       sample_config ''doc'' stored \<and>
     prepareMergeFromFiles sample_module (lostWith stored) ''d'' ''x'' = Inr p \<and>
     handleCom sample_module sample_footers (goJson OSError) mirrorEncoder mirrorDecoder sample_config env merge_io = Some io' \<and>
     sent (docOut io') = ''doc'' \<and>
     pcsMerge sample_module (goJson OSError) (lostWith stored) (\<lambda>path. Inr \<lparr>sent = [], quota = 3, outErr = EOF\<rparr>) cenv (\<lambda>plan. None)
       [''-token=T'', ''-dir=d'', ''-f=x'', ''-o=out''] = Some (res, Some (''out'', out')) \<and> exitCode res = 0 \<and> sent out' = ''doc''"
proof -
  obtain stored where stored: "splitBy sample_module sample_footers (goJson OSError) mirrorEncoder mirrorDecoder sample_config ''doc'' stored"
    using sample_splitBy by blast
  have lost: "''storageA'' \<in> set (storageDirs sample_module)"
      "\<forall>s \<in> set (storageDirs sample_module). folderOk (lostWith stored) (pathJoin [''d'', s])"
      "\<forall>k \<in> all_kinds. statOk (lostWith stored) (particlePath sample_module ''d'' ''x'' k)"
      "\<forall>s \<in> set (storageDirs sample_module). s \<noteq> ''storageA'' \<longrightarrow> isThere (lostWith stored) (pathJoin [''d'', s])"
      "\<forall>k \<in> all_kinds. storageForParticle sample_module k \<noteq> ''storageA'' \<longrightarrow>
        isThere (lostWith stored) (particlePath sample_module ''d'' ''x'' k)"
    unfolding lostWith_stat using lostA_there lostA_folders lostA_files
    by (auto simp: storageDirs_def sample_module_def lostA_paths lostA_def isThere_def all_kinds_def)
  have cfg: "cfgMaxObjectSize sample_config \<le> 0" "length ''doc'' < 2 ^ 63" "cfgToken sample_config = ''T''"
    by (simp_all add: sample_config_def)
  have sound: "\<forall>meta. codecReturns mirrorEncoder mirrorDecoder meta \<longrightarrow> footersSound sample_footers meta"
    using mirror_sound by blast
  obtain p plan where plan: "prepareMergeFromFiles sample_module (lostWith stored) ''d'' ''x'' = Inr p"
    and runs: "\<And>env io0 upl. mergeOffered sample_module sample_config env p plan (diskParticle sample_module (lostWith stored) ''d'' ''x'') \<Longrightarrow> upl plan = None \<Longrightarrow>
       freshSession io0 \<Longrightarrow> hasRoom sample_config env ModeMerge (length ''doc'') io0 \<Longrightarrow>
       mergeCompletes sample_module sample_footers (goJson OSError) mirrorEncoder mirrorDecoder sample_config env io0 upl
         (lostWith stored) [''-token=T'', ''-dir=d'', ''-f=x'', ''-o=out''] ''out'' p ''doc''"
    using document_survives_storage_loss [OF sample_module_contract sample_module_layout lost(1) restore_args_parse
        restore_args_simps(1,5), unfolded restore_args_simps, OF lostWith_intact lost(2-5) mirror_codec sound stored
        sample_fits(1) cfg(2,1) sample_fits(2)] by blast
  obtain env where env: "mergeOffered sample_module sample_config env p plan (diskParticle sample_module (lostWith stored) ''d'' ''x'')"
      "length (invitationFor sample_config env ModeMerge) = 22"
    using sample_offer by blast
  from completes_ideal [OF runs [OF env(1) _ merge_io_simps(1) merge_io_simps(2) [OF env(2)], of "\<lambda>plan. None"],
      of "Suc (length (clientHello ModeMerge p))" 3] stored plan
  show ?thesis by (simp add: cfg(3)) blast
qed

section \<open>What the client learns of a session\<close>

text \<open>The frame that a session ends with, and what the client's \<open>ReadTrailer\<close> makes of it.\<close>

definition clientSees :: "trailer json_codec \<Rightarrow> bytes \<Rightarrow> mode \<Rightarrow> session_stats \<Rightarrow> go_error option \<Rightarrow> bool" where
  "clientSees J frame mode stats err \<longleftrightarrow>
     (\<forall>r. wf_inp r \<and> inpContent r = frame \<longrightarrow>
        (case err of
           None \<Rightarrow> \<exists>t. readTrailer J r = Inr t \<and> trMode t = mode \<and> trBytesProcessed t = statBytes stats
         | Some e \<Rightarrow> readTrailer J r = Inl (SessionError
             (if errMsg e = [] then ''server session failed'' else flattenLines (errMsg e)))))"

lemma clientSees_error: "clientSees J (writeErrorLine (Some e)) mode stats (Some e)"
  unfolding clientSees_def option.case
  by (intro allI impI readTrailer_error [of _ e "[]"]) simp_all

lemma clientSees_trailer:
  assumes "sentTrailer (goJson errText) T w w' mode (statBytes stats)"
    and "\<forall>t \<in> T. \<exists>meta. metaSound F meta \<and> t \<in> serverTrailers M F meta"
  shows "\<exists>frame. w' = wroteTo w frame \<and> clientSees (goJson errText) frame mode stats None"
proof -
  obtain t data where t: "t \<in> T" "marshal (goJson errText) t = Inr data" "w' = wroteTo w (trailerFrame data)"
      "trMode t = mode" "trBytesProcessed t = statBytes stats"
    using assms(1) by (auto simp: sentTrailer_def)
  obtain meta where meta: "metaSound F meta" "t \<in> serverTrailers M F meta" using assms(2) t(1) by blast
  then have "data = trailerJson t" using t(2) server_trailer_text(1) [OF meta] by simp
  then have "clientSees (goJson errText) (trailerFrame data) mode stats None"
    using server_trailer_read [OF meta, of _ "[]"] t(4,5) by (auto simp: clientSees_def)
  with t(3) show ?thesis by blast
qed

text \<open>
  C4: The client learns what the log says.  A session that is established and has room on the
  control connection, and whose handler returns, ends with one frame after the invitation; over
  every segmentation \<open>ReadTrailer\<close> makes of it the trailer with the session's mode and byte count
  when the handler succeeded, and a session error with the handler's message when it failed.
  If the handler does not return, neither does the session.
\<close>

theorem session_outcome_reaches_client:
  assumes start: "goodStart cfg env io0 mode profile" "mode = ModeSplit \<or> mode = ModeMerge"
    and acc: "acceptSession (cfgToken cfg) (acceptOrder env) (acceptsOn env) (mode = ModeMerge)
      \<lparr>listeners = {0..<7}, conns = {}\<rparr> = Some (n2, Inr sess)"
    and run: "serveMode M F (goJson errText) enc dec cfg mode profile sess
      (io0\<lparr>ctl := wroteTo (ctl io0) (invitationFor cfg env mode), net := n2, ctlDeadline := False\<rparr>) = (io2, stats, err)"
    and codec: "\<forall>meta. codecReturns enc dec meta \<longrightarrow> metaSound F meta"
    and room: "length (invitationFor cfg env mode) + 2 ^ 20 + 8 \<le> quota (ctl io0)"
      "length (invitationFor cfg env mode) + length (writeErrorLine err) \<le> quota (ctl io0)"
  shows "if \<exists>e. err = Some e \<and> endless e then handleCom M F (goJson errText) enc dec cfg env io0 = None
    else \<exists>io' frame. handleCom M F (goJson errText) enc dec cfg env io0 = Some io' \<and> ctlClosed io' \<and>
      sent (ctl io') = sent (ctl io0) @ invitationFor cfg env mode @ frame \<and>
      last (logged io') = (stats, err) \<and> clientSees (goJson errText) frame mode stats err"
proof -
  let ?J = "goJson errText" and ?inv = "invitationFor cfg env mode"
  let ?io1 = "io0\<lparr>ctl := wroteTo (ctl io0) ?inv, net := n2, ctlDeadline := False\<rparr>"
  let ?T = "{t. \<exists>meta. metaSound F meta \<and> t \<in> serverTrailers M F meta}"
  have q: "length ?inv \<le> quota (ctl io0)" using room(2) by simp
  have com: "handleCom M F ?J enc dec cfg env io0 = finishSession (io2, stats, err)"
    unfolding handleCom_started [OF start(1)] using acc run q by (simp add: ctlWrite_room)
  have built: "serverTrailers M F meta \<subseteq> ?T" if "codecReturns enc dec meta" for meta
    using codec that by blast
  have "length (trailerFrame data) \<le> quota (ctl ?io1)" if "t \<in> ?T" "marshal ?J t = Inr data" for t data
  proof -
    obtain meta where meta: "metaSound F meta" "t \<in> serverTrailers M F meta" using \<open>t \<in> ?T\<close> by blast
    then have "data = trailerJson t" using that(2) server_trailer_text(1) [OF meta] by simp
    with room(1) server_frame_length [OF meta] show ?thesis by simp
  qed
  note ctl = serveMode_ctl [OF start(2) built this run]
  show ?thesis
  proof (cases "\<exists>e. err = Some e \<and> endless e")
    case True
    then show ?thesis using com by auto
  next
    case ends: False
    then have com: "handleCom M F ?J enc dec cfg env io0 = Some (reportAndLog (io2, stats, err))"
      using com by (cases err) auto
    show ?thesis
      unfolding if_not_P [OF ends]
    proof (cases err)
      case None
      with ctl obtain frame where frame: "ctl io2 = wroteTo (ctl ?io1) frame" "clientSees ?J frame mode stats None"
        using clientSees_trailer [of errText ?T _ _ mode stats F M] by fastforce
      with None com show "\<exists>io' frame. handleCom M F ?J enc dec cfg env io0 = Some io' \<and> ctlClosed io' \<and>
          sent (ctl io') = sent (ctl io0) @ ?inv @ frame \<and> last (logged io') = (stats, err) \<and>
          clientSees ?J frame mode stats err"
        by (intro exI [of _ "reportAndLog (io2, stats, err)"] exI [of _ frame])
          (simp add: reportAndLog_def endSession_def writeErrorLine_def ctlWrite_room)
    next
      case (Some e)
      with ctl have "ctl io2 = ctl ?io1" by simp
      with Some com room(2) clientSees_error show "\<exists>io' frame. handleCom M F ?J enc dec cfg env io0 = Some io' \<and>
          ctlClosed io' \<and> sent (ctl io') = sent (ctl io0) @ ?inv @ frame \<and> last (logged io') = (stats, err) \<and>
          clientSees ?J frame mode stats err"
        by (intro exI [of _ "reportAndLog (io2, stats, err)"] exI [of _ "writeErrorLine err"])
          (simp add: reportAndLog_def endSession_def ctlWrite_room)
    qed
  qed
qed

text \<open>A split session over seven connections that carry the token.\<close>

theorem session_outcome_reaches_client_witness:
  "\<exists>io' frame stats. handleCom sample_module sample_footers (goJson OSError) sample_encoder sample_decoder
       sample_config (sample_env (replicate 7 (Some (Inr \<lparr>chunks = [''T''], inpEnd = EOF, early = False\<rparr>))))
       (sample_io 2000000) = Some io' \<and> ctlClosed io' \<and>
     sent (ctl io') = invitationFor sample_config (sample_env []) ModeSplit @ frame \<and>
     statBytes stats = 4 \<and> clientSees (goJson OSError) frame ModeSplit stats None"
proof -
  let ?c = "\<lparr>chunks = [''T''], inpEnd = EOF, early = False\<rparr>"
  let ?cs = "replicate 7 ?c" and ?J = "goJson OSError"
  let ?as = "map (\<lambda>c. Some (Inr c)) ?cs"
  let ?io = "sample_io 2000000" and ?inv = "invitationFor sample_config (sample_env ?as) ModeSplit"
  have neq: "(ModeSplit = ModeMerge) = False" by (simp add: ModeSplit_def ModeMerge_def)
  have as: "length ?cs = 7" "length ?as = 7" "set (acceptOrder (sample_env ?as)) = {0..<7}" by simp_all
  have "\<not> isl (authPorts ''T'' 0 (zip [False, True, True, True, True, True, True] ?cs))"
    by (subst authPorts_iff) (auto simp: wf_inp_def isPrefix_def inpContent_def dest!: set_zip_rightD)
  then obtain ps where ps: "authPorts ''T'' 0 (zip [False, True, True, True, True, True, True] ?cs) = Inr ps"
    by (cases "authPorts ''T'' 0 (zip [False, True, True, True, True, True, True] ?cs)") auto
  obtain n2 where acc: "acceptSession (cfgToken sample_config) (acceptOrder (sample_env ?as))
      (acceptsOn (sample_env ?as)) (ModeSplit = ModeMerge) \<lparr>listeners = {0..<7}, conns = {}\<rparr> = Some (n2, Inr (portSet ps))"
    unfolding sample_parts(1) acceptSession_ok [OF as(1,3)] neq using ps by (auto simp: sample_config_def)
  let ?io1 = "?io\<lparr>ctl := wroteTo (ctl ?io) ?inv, net := n2, ctlDeadline := False\<rparr>"
  let ?meta = "\<lparr>metaSHA256 = [], metaBytes = 4, metaFooters = []\<rparr> :: nat stream_meta"
  let ?t = "buildTrailerFromEncodeMeta sample_module sample_footers ModeSplit ?meta"
  have len: "length ?inv = 22" by (rule sample_invitation)
  have codec: "\<forall>meta. codecReturns sample_encoder sample_decoder meta \<longrightarrow> metaSound sample_footers meta"
    by (auto simp: codecReturns_def sample_encoder_def sample_decoder_def metaSound_def footersSound_def is_int64_def)
  have meta: "metaSound sample_footers ?meta" "?t \<in> serverTrailers sample_module sample_footers ?meta"
    by (simp_all add: metaSound_def footersSound_def is_int64_def serverTrailers_def)
  have sends: "sendTrailer ?J ?t io = (io\<lparr>ctl := wroteTo (ctl io) (trailerFrame (trailerJson ?t))\<rparr>, None)"
    if "2 ^ 20 + 8 \<le> quota (ctl io)" for io
    using sendTrailer_room [of ?J ?t io] server_trailer_text(1) [OF meta] server_frame_length [OF meta] that by simp
  have "2 ^ 20 + 8 \<le> quota (ctl ?io) - length ?inv" using len by simp
  then obtain io2 where run: "serveMode sample_module sample_footers ?J sample_encoder sample_decoder
      sample_config ModeSplit noProfile (portSet ps) ?io1 =
      (io2, noStats\<lparr>statMode := ModeSplit, statBytes := 4\<rparr>, None)"
    by (simp add: serveMode_def handleSplit_def splitStreaming_def sample_encoder_def Let_def sends)
  have room: "length ?inv + 2 ^ 20 + 8 \<le> quota (ctl ?io)"
      "length ?inv + length (writeErrorLine None) \<le> quota (ctl ?io)"
    using len by (simp_all add: writeErrorLine_def)
  have same: "sample_env (replicate 7 (Some (Inr ?c))) = sample_env ?as" by simp
  have inv: "?inv = invitationFor sample_config (sample_env []) ModeSplit" "sent (ctl ?io) = []"
    by (simp_all add: invitationFor_def sample_env_def sample_io_def)
  have ends: "\<not> (\<exists>e. (None :: go_error option) = Some e \<and> endless e)" by simp
  show ?thesis
    using session_outcome_reaches_client [OF sample_good [OF as(2)] _ acc run codec room, unfolded if_not_P [OF ends]]
    unfolding same inv
    by (metis append_Nil session_stats.select_convs(2) session_stats.surjective session_stats.update_convs(2))
qed

end
